(* ===== verification/Prelude_JS.thy ===== *)
theory Prelude_JS
  imports Main "HOL-Library.AList"
begin

text \<open>
  What every component shares: the parts of the JavaScript string and Map library that the
  services call, the development's theorem collections, and generic facts about them.

  A JavaScript string is a HOL \<open>string\<close> that holds its UTF-8 bytes. ASCII text, which is
  all the registry's grammar admits, is therefore itself; \<open>Buffer.from(s, 'utf8')\<close> is the
  identity; and only ASCII white space is trimmed and only ASCII letters change case (the code
  points beyond ASCII that \<open>trim\<close>, \<open>\s\<close> and \<open>toLowerCase\<close> also treat are not modelled).
  A JavaScript \<open>Map\<close>, whose iteration order is insertion order, is an association list with
  distinct keys: \<open>get\<close> is \<open>map_of\<close>, \<open>set\<close> is \<open>AList.update\<close> (an existing key keeps its place,
  a new one goes last), \<open>delete\<close> is \<open>AList.delete\<close>.
\<close>

named_theorems js_defs \<open>definitions of the string library, for evaluation\<close>
named_theorems js_intros \<open>introduction rules for well-formedness invariants\<close>

section \<open>Characters\<close>

abbreviation char_code :: "char \<Rightarrow> nat" where
  "char_code c \<equiv> of_char c"

definition is_ws :: "char \<Rightarrow> bool" where
  "is_ws c \<longleftrightarrow> char_code c \<in> {9, 10, 11, 12, 13, 32}"

definition is_lower :: "char \<Rightarrow> bool" where
  "is_lower c \<longleftrightarrow> 97 \<le> char_code c \<and> char_code c \<le> 122"

definition is_upper :: "char \<Rightarrow> bool" where
  "is_upper c \<longleftrightarrow> 65 \<le> char_code c \<and> char_code c \<le> 90"

definition is_digit :: "char \<Rightarrow> bool" where
  "is_digit c \<longleftrightarrow> 48 \<le> char_code c \<and> char_code c \<le> 57"

definition is_lower_alnum :: "char \<Rightarrow> bool" where
  "is_lower_alnum c \<longleftrightarrow> is_lower c \<or> is_digit c"

definition is_alnum :: "char \<Rightarrow> bool" where
  "is_alnum c \<longleftrightarrow> is_lower c \<or> is_upper c \<or> is_digit c"

definition lower_char :: "char \<Rightarrow> char" where
  "lower_char c = (if is_upper c then char_of (char_code c + 32) else c)"

definition to_lower :: "string \<Rightarrow> string" where
  "to_lower s = map lower_char s"

lemmas char_class_defs [js_defs] =
  is_ws_def is_lower_def is_upper_def is_digit_def is_lower_alnum_def is_alnum_def
  lower_char_def to_lower_def

section \<open>Strings\<close>

definition trim :: "string \<Rightarrow> string" where
  "trim s = rev (dropWhile is_ws (rev (dropWhile is_ws s)))"

definition starts_with :: "string \<Rightarrow> string \<Rightarrow> bool" where
  "starts_with p s \<longleftrightarrow> take (length p) s = p"

definition ends_with :: "string \<Rightarrow> string \<Rightarrow> bool" where
  "ends_with p s \<longleftrightarrow> starts_with (rev p) (rev s)"

text \<open>\<open>indexOf\<close> and \<open>lastIndexOf\<close> of a one-character string: -1 where there is none.\<close>

fun index_of :: "char \<Rightarrow> string \<Rightarrow> int" where
  "index_of c [] = -1"
| "index_of c (x # xs) =
     (if x = c then 0 else (let r = index_of c xs in if r < 0 then -1 else r + 1))"

definition last_index_of :: "char \<Rightarrow> string \<Rightarrow> int" where
  "last_index_of c s =
     (let r = index_of c (rev s) in if r < 0 then -1 else int (length s) - 1 - r)"

text \<open>\<open>slice\<close>, for the non-negative positions the code passes.\<close>

definition slice :: "int \<Rightarrow> int \<Rightarrow> string \<Rightarrow> string" where
  "slice i j s = take (nat (j - i)) (drop (nat i) s)"

definition slice_from :: "int \<Rightarrow> string \<Rightarrow> string" where
  "slice_from i s = drop (nat i) s"

text \<open>\<open>split\<close> at a one-character class, and at a maximal run of it (\<open>/\s+/\<close>).\<close>

fun split_on :: "(char \<Rightarrow> bool) \<Rightarrow> string \<Rightarrow> string list" where
  "split_on p [] = [[]]"
| "split_on p (c # cs) =
     (if p c then [] # split_on p cs
      else (case split_on p cs of [] \<Rightarrow> [[c]] | w # ws \<Rightarrow> (c # w) # ws))"

function split_runs :: "(char \<Rightarrow> bool) \<Rightarrow> string \<Rightarrow> string list" where
  "split_runs p [] = [[]]"
| "split_runs p (c # cs) =
     (if p c then [] # split_runs p (dropWhile p cs)
      else (case split_runs p cs of [] \<Rightarrow> [[c]] | w # ws \<Rightarrow> (c # w) # ws))"
  by pat_completeness auto
termination
  by (relation "measure (\<lambda>(p, s). length s)") (auto simp: le_imp_less_Suc length_dropWhile_le)

fun join_with :: "string \<Rightarrow> string list \<Rightarrow> string" where
  "join_with sep [] = []"
| "join_with sep [w] = w"
| "join_with sep (w # v # ws) = w @ sep @ join_with sep (v # ws)"

text \<open>\<open>s.replace(/\/+$/, '')\<close>: strip every trailing slash.\<close>

definition strip_slashes :: "string \<Rightarrow> string" where
  "strip_slashes s = rev (dropWhile (\<lambda>c. c = CHR ''/'') (rev s))"

text \<open>JavaScript's truthiness of an optional string: neither absent nor empty.\<close>

definition truthy :: "string option \<Rightarrow> bool" where
  "truthy v \<longleftrightarrow> (case v of None \<Rightarrow> False | Some s \<Rightarrow> s \<noteq> [])"

text \<open>\<open>v || d\<close> on an optional string.\<close>

definition or_else :: "string option \<Rightarrow> string \<Rightarrow> string" where
  "or_else v d = (case v of None \<Rightarrow> d | Some s \<Rightarrow> if s = [] then d else s)"

text \<open>\<open>new Set(xs)\<close> turned back into an array: first occurrences, in order.\<close>

fun uniq_acc :: "'a list \<Rightarrow> 'a list \<Rightarrow> 'a list" where
  "uniq_acc seen [] = seen"
| "uniq_acc seen (x # xs) = (if x \<in> set seen then uniq_acc seen xs else uniq_acc (seen @ [x]) xs)"

definition uniq :: "'a list \<Rightarrow> 'a list" where
  "uniq xs = uniq_acc [] xs"

lemmas string_defs [js_defs] =
  trim_def starts_with_def ends_with_def last_index_of_def slice_def slice_from_def
  strip_slashes_def truthy_def or_else_def uniq_def

text \<open>Decimal digits, as \<open>String(n)\<close> prints a non-negative integer.\<close>

definition digit_char :: "nat \<Rightarrow> char" where
  "digit_char d = char_of (48 + d)"

fun nat_to_string :: "nat \<Rightarrow> string" where
  "nat_to_string n =
     (if n < 10 then [digit_char n] else nat_to_string (n div 10) @ [digit_char (n mod 10)])"

declare nat_to_string.simps [simp del]

definition int_to_string :: "int \<Rightarrow> string" where
  "int_to_string i = (if i < 0 then CHR ''-'' # nat_to_string (nat (- i)) else nat_to_string (nat i))"

section \<open>Facts about strings\<close>

lemma starts_with_append [simp]: "starts_with p (p @ s)"
  by (simp add: starts_with_def)

lemma starts_with_Nil [simp]: "starts_with [] s"
  by (simp add: starts_with_def)

lemma starts_with_Cons [simp]: "starts_with (x # p) (y # s) \<longleftrightarrow> x = y \<and> starts_with p s"
  by (auto simp: starts_with_def)

lemma starts_with_empty [simp]: "starts_with (x # p) [] \<longleftrightarrow> False"
  by (simp add: starts_with_def)

lemma starts_with_iff: "starts_with p s \<longleftrightarrow> (\<exists>r. s = p @ r)"
  by (metis append_eq_conv_conj starts_with_def append_take_drop_id)

lemma starts_withE:
  assumes "starts_with p s"
  obtains r where "s = p @ r" and "drop (length p) s = r"
  using assms by (auto simp: starts_with_iff)

lemma ends_with_iff: "ends_with p s \<longleftrightarrow> (\<exists>r. s = r @ p)"
proof -
  have "ends_with p s \<longleftrightarrow> (\<exists>r. rev s = rev p @ r)"
    by (simp add: ends_with_def starts_with_iff)
  also have "\<dots> \<longleftrightarrow> (\<exists>r. s = r @ p)"
    by (metis rev_append rev_rev_ident)
  finally show ?thesis .
qed

lemma index_of_none: "index_of c s < 0 \<longleftrightarrow> c \<notin> set s"
  by (induction s) (auto simp: Let_def)

lemma index_of_ge: "-1 \<le> index_of c s"
  by (induction s) (auto simp: Let_def)

lemma index_of_append [simp]: "c \<notin> set xs \<Longrightarrow> index_of c (xs @ c # ys) = int (length xs)"
  by (induction xs) (auto simp: Let_def)

lemma index_of_split:
  assumes "0 \<le> index_of c s"
  obtains xs ys where "s = xs @ c # ys" and "c \<notin> set xs" and "index_of c s = int (length xs)"
proof -
  from assms have "c \<in> set s" using index_of_none [of c s] by auto
  then obtain xs ys where "s = xs @ c # ys" and "c \<notin> set xs"
    by (meson split_list_first)
  then show thesis using that by simp
qed

lemma last_index_of_append [simp]:
  "c \<notin> set ys \<Longrightarrow> last_index_of c (xs @ c # ys) = int (length xs)"
  by (simp add: last_index_of_def Let_def)

lemma last_index_of_none: "last_index_of c s < 0 \<longleftrightarrow> c \<notin> set s"
proof (cases "c \<in> set s")
  case True
  then obtain xs ys where "s = xs @ c # ys" and "c \<notin> set ys"
    by (meson split_list_last)
  with True show ?thesis by simp
next
  case False
  then show ?thesis using index_of_none [of c "rev s"] by (simp add: last_index_of_def Let_def)
qed

lemma last_index_of_split:
  assumes "0 \<le> last_index_of c s"
  obtains xs ys where "s = xs @ c # ys" and "c \<notin> set ys" and "last_index_of c s = int (length xs)"
proof -
  from assms have "c \<in> set s" using last_index_of_none [of c s] by auto
  then obtain xs ys where "s = xs @ c # ys" and "c \<notin> set ys"
    by (meson split_list_last)
  then show thesis using that by simp
qed

lemma trim_set: "set (trim s) \<subseteq> set s"
  unfolding trim_def by (metis set_dropWhileD set_rev subset_code(1))

lemma dropWhile_hd_false: "s \<noteq> [] \<Longrightarrow> \<not> p (hd s) \<Longrightarrow> dropWhile p s = s"
  by (cases s) auto

text \<open>A string with no white space at either end is its own trim.\<close>

lemma trim_id: "s \<noteq> [] \<Longrightarrow> \<not> is_ws (hd s) \<Longrightarrow> \<not> is_ws (last s) \<Longrightarrow> trim s = s"
  unfolding trim_def by (simp add: dropWhile_hd_false hd_rev)

lemma trim_no_ws: "\<forall>c \<in> set s. \<not> is_ws c \<Longrightarrow> trim s = s"
  by (cases "s = []") (simp add: trim_def, rule trim_id, auto)

lemma trim_Nil [simp]: "trim [] = []"
  by (simp add: trim_def)

lemma trim_hd: "trim s \<noteq> [] \<Longrightarrow> \<not> is_ws (hd (trim s))"
proof -
  assume ne: "trim s \<noteq> []"
  let ?d = "dropWhile is_ws s"
  have "\<exists>pre. ?d = trim s @ pre"
    unfolding trim_def
    by (metis rev_append rev_rev_ident takeWhile_dropWhile_id)
  then obtain pre where d: "?d = trim s @ pre" by blast
  with ne have "?d \<noteq> []" by simp
  then have "\<not> is_ws (hd ?d)" by (rule hd_dropWhile)
  with d ne show ?thesis by simp
qed

lemma trim_last: "trim s \<noteq> [] \<Longrightarrow> \<not> is_ws (last (trim s))"
  unfolding trim_def by (metis Nil_is_rev_conv hd_dropWhile last_rev)

lemma trim_trim [simp]: "trim (trim s) = trim s"
  by (cases "trim s = []") (simp, metis trim_hd trim_id trim_last)

section \<open>Splitting and joining\<close>

lemma split_on_nonempty [simp]: "split_on p s \<noteq> []"
  by (induction s) (auto split: list.split)

lemma split_runs_nonempty [simp]: "split_runs p s \<noteq> []"
  by (induction p s rule: split_runs.induct) (auto split: list.split)

lemma split_on_pieces: "w \<in> set (split_on p s) \<Longrightarrow> c \<in> set w \<Longrightarrow> \<not> p c"
  by (induction s arbitrary: w) (fastforce split: if_splits list.splits)+

lemma split_runs_pieces: "w \<in> set (split_runs p s) \<Longrightarrow> c \<in> set w \<Longrightarrow> \<not> p c"
  by (induction p s arbitrary: w rule: split_runs.induct) (fastforce split: if_splits list.splits)+

lemma split_on_chars: "w \<in> set (split_on p s) \<Longrightarrow> set w \<subseteq> set s"
  by (induction s arbitrary: w) (fastforce split: if_splits list.splits)+

lemma split_on_none: "\<forall>c \<in> set s. \<not> p c \<Longrightarrow> split_on p s = [s]"
  by (induction s) auto

lemma split_on_append:
  "\<forall>c \<in> set w. \<not> p c \<Longrightarrow> p x \<Longrightarrow> split_on p (w @ x # s) = w # split_on p s"
  by (induction w) auto

lemma join_split_on: "join_with [x] (split_on (\<lambda>c. c = x) s) = s"
proof (induction s)
  case Nil
  then show ?case by simp
next
  case (Cons c cs)
  obtain w ws where ws: "split_on (\<lambda>c. c = x) cs = w # ws"
    by (meson list.exhaust split_on_nonempty)
  with Cons show ?case by (cases ws) auto
qed

lemma split_on_join:
  assumes "ws \<noteq> []" and "\<forall>w \<in> set ws. x \<notin> set w"
  shows "split_on (\<lambda>c. c = x) (join_with [x] ws) = ws"
  using assms
proof (induction ws rule: induct_list012)
  case (3 w v ws)
  then have "split_on (\<lambda>c. c = x) (w @ x # join_with [x] (v # ws))
      = w # split_on (\<lambda>c. c = x) (join_with [x] (v # ws))"
    by (intro split_on_append) auto
  with 3 show ?case by simp
qed (auto intro: split_on_none)

lemma split_runs_eq_filter:
  "filter (\<lambda>w. w \<noteq> []) (split_runs p s) = filter (\<lambda>w. w \<noteq> []) (split_on p s)"
proof -
  have drop: "filter (\<lambda>w. w \<noteq> []) (split_on q (dropWhile q t)) = filter (\<lambda>w. w \<noteq> []) (split_on q t)"
    for q t
    by (induction t) auto
  have hd_eq: "hd (split_runs q t) = hd (split_on q t)" for q t
    by (induction q t rule: split_runs.induct) (auto split: list.splits)
  show ?thesis
  proof (induction p s rule: split_runs.induct)
    case (2 p c cs)
    show ?case
    proof (cases "p c")
      case True
      with 2 drop show ?thesis by simp
    next
      case False
      obtain w ws where a: "split_runs p cs = w # ws"
        by (meson list.exhaust split_runs_nonempty)
      obtain w' ws' where b: "split_on p cs = w' # ws'"
        by (meson list.exhaust split_on_nonempty)
      have "w = w'" using hd_eq [of p cs] a b by simp
      with 2 False a b show ?thesis by (auto split: if_splits)
    qed
  qed simp
qed

section \<open>First occurrences\<close>

lemma set_uniq_acc: "set (uniq_acc seen xs) = set seen \<union> set xs"
  by (induction xs arbitrary: seen) auto

lemma distinct_uniq_acc: "distinct seen \<Longrightarrow> distinct (uniq_acc seen xs)"
  by (induction xs arbitrary: seen) auto

lemma set_uniq [simp]: "set (uniq xs) = set xs"
  by (simp add: uniq_def set_uniq_acc)

lemma distinct_uniq [simp]: "distinct (uniq xs)"
  by (simp add: uniq_def distinct_uniq_acc)

lemma uniq_acc_distinct: "distinct (seen @ xs) \<Longrightarrow> uniq_acc seen xs = seen @ xs"
  by (induction xs arbitrary: seen) auto

lemma uniq_distinct: "distinct xs \<Longrightarrow> uniq xs = xs"
  by (simp add: uniq_def uniq_acc_distinct)

lemma uniq_Nil_iff [simp]: "uniq xs = [] \<longleftrightarrow> xs = []"
  by (metis set_empty set_uniq)

section \<open>Maps in insertion order\<close>

lemma keys_update: "fst ` set (AList.update k v m) = insert k (fst ` set m)"
  by (induction m) auto

lemma distinct_keys_update:
  "distinct (map fst m) \<Longrightarrow> distinct (map fst (AList.update k v m))"
  by (rule distinct_update)

lemma values_update: "(a, b) \<in> set (AList.update k v m) \<Longrightarrow> (a = k \<and> b = v) \<or> (a, b) \<in> set m"
  by (induction m) (auto split: if_splits)

end
