(* ===== verification/Js_Value.thy ===== *)
theory Js_Value
  imports Complex_Main Prelude_JS
begin

text \<open>
  JavaScript values that reach the services untyped: query parameters, request bodies, decoded
  JSON. An object is its list of own properties in the order \<open>Object.entries\<close> gives them.
  Numbers are exact rationals with the three non-finite values beside them; the rounding of a
  double is written out where an integer is read from text (\<open>round_double\<close>), and a magnitude
  that a double cannot hold is an infinity. Rounding of fractions is not modelled.
\<close>

datatype jsnum = NaN | PosInf | NegInf | Fin rat

datatype js =
    JUndef | JNull | JBool bool | JNum jsnum | JStr string
  | JArr "js list" | JObj "(string \<times> js) list"

section \<open>Coercions\<close>

definition js_truthy :: "js \<Rightarrow> bool" where
  "js_truthy v = (case v of JUndef \<Rightarrow> False | JNull \<Rightarrow> False | JBool b \<Rightarrow> b
     | JNum n \<Rightarrow> n \<noteq> NaN \<and> n \<noteq> Fin 0 | JStr s \<Rightarrow> s \<noteq> [] | JArr _ \<Rightarrow> True | JObj _ \<Rightarrow> True)"

definition js_nullish :: "js \<Rightarrow> bool" where
  "js_nullish v \<longleftrightarrow> v = JUndef \<or> v = JNull"

text \<open>\<open>v?.k\<close>: absent on anything that is not an object with the property.\<close>

definition js_prop :: "js \<Rightarrow> string \<Rightarrow> js" where
  "js_prop v k = (case v of JObj ps \<Rightarrow> (case map_of ps k of None \<Rightarrow> JUndef | Some w \<Rightarrow> w) | _ \<Rightarrow> JUndef)"

text \<open>
  \<open>String(n)\<close>: integers in full; other rationals as a decimal expansion of at most 25 digits
  (exponent notation is not modelled).
\<close>

fun frac_digits :: "nat \<Rightarrow> rat \<Rightarrow> string" where
  "frac_digits 0 q = []"
| "frac_digits (Suc n) q =
     (if q = 0 then [] else digit_char (nat \<lfloor>q * 10\<rfloor>) # frac_digits n (q * 10 - of_int \<lfloor>q * 10\<rfloor>))"

definition num_to_string :: "jsnum \<Rightarrow> string" where
  "num_to_string n = (case n of NaN \<Rightarrow> ''NaN'' | PosInf \<Rightarrow> ''Infinity'' | NegInf \<Rightarrow> ''-Infinity''
     | Fin q \<Rightarrow>
        (if q = of_int \<lfloor>q\<rfloor> then int_to_string \<lfloor>q\<rfloor>
         else (if q < 0 then ''-'' else []) @ int_to_string \<lfloor>\<bar>q\<bar>\<rfloor> @ ''.''
                @ frac_digits 25 (\<bar>q\<bar> - of_int \<lfloor>\<bar>q\<bar>\<rfloor>)))"

fun js_String :: "js \<Rightarrow> string" where
  "js_String JUndef = ''undefined''"
| "js_String JNull = ''null''"
| "js_String (JBool b) = (if b then ''true'' else ''false'')"
| "js_String (JNum n) = num_to_string n"
| "js_String (JStr s) = s"
| "js_String (JArr vs) = join_with '','' (map (\<lambda>v. if js_nullish v then [] else js_String v) vs)"
| "js_String (JObj _) = ''[object Object]''"

section \<open>Numbers from text\<close>

fun bit_len :: "nat \<Rightarrow> nat" where
  "bit_len n = (if n = 0 then 0 else Suc (bit_len (n div 2)))"

declare bit_len.simps [simp del]

text \<open>The double nearest to an integer: 53 significant bits, ties to even.\<close>

definition round_double :: "nat \<Rightarrow> nat" where
  "round_double n =
     (let k = bit_len n - 53; q = n div 2 ^ k; r = n mod 2 ^ k in
      if k = 0 then n
      else if 2 * r > 2 ^ k \<or> (2 * r = 2 ^ k \<and> odd q) then (q + 1) * 2 ^ k else q * 2 ^ k)"

definition double_of_nat :: "bool \<Rightarrow> nat \<Rightarrow> jsnum" where
  "double_of_nat neg n =
     (let m = round_double n in
      if m \<ge> 2 ^ 1024 then (if neg then NegInf else PosInf)
      else Fin (if neg then - of_nat m else of_nat m))"

definition digit_val :: "char \<Rightarrow> nat" where
  "digit_val c = char_code c - 48"

definition digits_val :: "string \<Rightarrow> nat" where
  "digits_val ds = fold (\<lambda>c a. 10 * a + digit_val c) ds 0"

text \<open>\<open>parseInt(s, 10)\<close>: white space, a sign, then the longest run of digits.\<close>

definition parse_int :: "string \<Rightarrow> jsnum" where
  "parse_int s =
     (let t = dropWhile is_ws s;
          neg = starts_with ''-'' t;
          u = (if starts_with ''-'' t \<or> starts_with ''+'' t then tl t else t);
          ds = takeWhile is_digit u
      in if ds = [] then NaN else double_of_nat neg (digits_val ds))"

text \<open>
  An unsigned decimal literal, \<open>digits [. digits] [e sign digits]\<close> or \<open>. digits [e sign digits]\<close>,
  with the text that follows it.
\<close>

definition parse_exponent :: "string \<Rightarrow> int \<times> string" where
  "parse_exponent s =
     (case s of [] \<Rightarrow> (0, s)
      | e # t \<Rightarrow>
         (if e = CHR ''e'' \<or> e = CHR ''E'' then
            (let neg = starts_with ''-'' t;
                 u = (if starts_with ''-'' t \<or> starts_with ''+'' t then tl t else t);
                 ds = takeWhile is_digit u
             in if ds = [] then (0, s)
                else (if neg then - int (digits_val ds) else int (digits_val ds), dropWhile is_digit u))
          else (0, s)))"

definition pow10 :: "int \<Rightarrow> rat" where
  "pow10 e = (if e < 0 then 1 / 10 ^ nat (- e) else 10 ^ nat e)"

definition parse_decimal :: "string \<Rightarrow> (rat \<times> string) option" where
  "parse_decimal s =
     (let ip = takeWhile is_digit s; s1 = dropWhile is_digit s;
          dot = starts_with ''.'' s1;
          fp = (if dot then takeWhile is_digit (tl s1) else []);
          s2 = (if dot then dropWhile is_digit (tl s1) else s1);
          (e, s3) = parse_exponent s2
      in if ip = [] \<and> fp = [] then None
         else Some (of_nat (digits_val (ip @ fp)) * pow10 (e - int (length fp)), s3))"

definition num_of_rat :: "rat \<Rightarrow> jsnum" where
  "num_of_rat q = (if q \<ge> 2 ^ 1024 - 2 ^ 970 then PosInf
                   else if q \<le> 2 ^ 970 - 2 ^ 1024 then NegInf else Fin q)"

definition radix_digit :: "nat \<Rightarrow> char \<Rightarrow> nat option" where
  "radix_digit b c =
     (let d = (if is_digit c then digit_val c
               else if is_lower c then char_code c - 87
               else if is_upper c then char_code c - 55 else 99)
      in if d < b then Some d else None)"

definition parse_radix :: "nat \<Rightarrow> string \<Rightarrow> jsnum" where
  "parse_radix b s =
     (if s = [] \<or> list_ex (\<lambda>c. radix_digit b c = None) s then NaN
      else double_of_nat False (fold (\<lambda>c a. b * a + the (radix_digit b c)) s 0))"

text \<open>\<open>Number(s)\<close> of a string: the whole trimmed text must be one numeric literal.\<close>

definition js_Number_string :: "string \<Rightarrow> jsnum" where
  "js_Number_string s =
     (let t = trim s;
          neg = starts_with ''-'' t;
          u = (if starts_with ''-'' t \<or> starts_with ''+'' t then tl t else t)
      in if t = [] then Fin 0
         else if starts_with ''0x'' t \<or> starts_with ''0X'' t then parse_radix 16 (drop 2 t)
         else if starts_with ''0o'' t \<or> starts_with ''0O'' t then parse_radix 8 (drop 2 t)
         else if starts_with ''0b'' t \<or> starts_with ''0B'' t then parse_radix 2 (drop 2 t)
         else if u = ''Infinity'' then (if neg then NegInf else PosInf)
         else (case parse_decimal u of
                 Some (q, []) \<Rightarrow> num_of_rat (if neg then - q else q)
               | _ \<Rightarrow> NaN))"

text \<open>\<open>Number(v)\<close>: an array goes through its string form, an object's is never numeric.\<close>

definition js_Number :: "js \<Rightarrow> jsnum" where
  "js_Number v = (case v of JUndef \<Rightarrow> NaN | JNull \<Rightarrow> Fin 0
     | JBool b \<Rightarrow> Fin (if b then 1 else 0) | JNum n \<Rightarrow> n | JStr s \<Rightarrow> js_Number_string s
     | JArr _ \<Rightarrow> js_Number_string (js_String v) | JObj _ \<Rightarrow> NaN)"

definition is_finite_num :: "jsnum \<Rightarrow> bool" where
  "is_finite_num n = (case n of Fin _ \<Rightarrow> True | _ \<Rightarrow> False)"

text \<open>Subtraction and comparison with the non-finite values, and the range of a \<open>Date\<close>.\<close>

fun num_sub :: "jsnum \<Rightarrow> jsnum \<Rightarrow> jsnum" where
  "num_sub (Fin a) (Fin b) = Fin (a - b)"
| "num_sub NaN _ = NaN"
| "num_sub _ NaN = NaN"
| "num_sub PosInf PosInf = NaN"
| "num_sub NegInf NegInf = NaN"
| "num_sub PosInf _ = PosInf"
| "num_sub NegInf _ = NegInf"
| "num_sub _ PosInf = NegInf"
| "num_sub _ NegInf = PosInf"

fun num_gt :: "jsnum \<Rightarrow> jsnum \<Rightarrow> bool" where
  "num_gt (Fin a) (Fin b) = (a > b)"
| "num_gt PosInf (Fin _) = True"
| "num_gt PosInf NegInf = True"
| "num_gt (Fin _) NegInf = True"
| "num_gt _ _ = False"

definition trunc_rat :: "rat \<Rightarrow> int" where
  "trunc_rat q = (if q < 0 then - \<lfloor>- q\<rfloor> else \<lfloor>q\<rfloor>)"

text \<open>\<open>new Date(t).getTime()\<close>: whole milliseconds within 8.64e15 of the epoch, else NaN.\<close>

definition time_clip :: "jsnum \<Rightarrow> jsnum" where
  "time_clip t = (case t of
     Fin q \<Rightarrow> if \<bar>q\<bar> > 8640000000000000 then NaN else Fin (of_int (trunc_rat q)) | _ \<Rightarrow> NaN)"

lemmas js_value_defs [js_defs] =
  js_truthy_def js_nullish_def js_prop_def num_to_string_def round_double_def double_of_nat_def
  digit_val_def digits_val_def parse_int_def parse_exponent_def pow10_def parse_decimal_def
  num_of_rat_def radix_digit_def parse_radix_def js_Number_string_def js_Number_def
  is_finite_num_def trunc_rat_def time_clip_def

section \<open>Facts\<close>

lemma round_double_small: "n < 2 ^ 53 \<Longrightarrow> round_double n = n"
proof -
  assume n: "n < 2 ^ 53"
  have "bit_len n \<le> k" if "n < 2 ^ k" for n k
    using that
  proof (induction k arbitrary: n)
    case 0
    then show ?case by (simp add: bit_len.simps)
  next
    case (Suc k)
    then have "n div 2 < 2 ^ k" by (simp add: less_mult_imp_div_less mult.commute)
    with Suc.IH show ?case by (subst bit_len.simps) simp
  qed
  with n have "bit_len n - 53 = 0" by simp
  then show ?thesis by (simp add: round_double_def)
qed

text \<open>Reading back what \<open>String(n)\<close> printed.\<close>

lemma is_digit_digit_char: "d < 10 \<Longrightarrow> is_digit (digit_char d)"
  by (simp add: is_digit_def digit_char_def)

lemma digit_val_digit_char: "d < 10 \<Longrightarrow> digit_val (digit_char d) = d"
  by (simp add: digit_val_def digit_char_def)

lemma digits_val_append:
  "digits_val (xs @ [c]) = 10 * digits_val xs + digit_val c"
  by (simp add: digits_val_def)

lemma nat_to_string_digits: "c \<in> set (nat_to_string n) \<Longrightarrow> is_digit c"
proof (induction n rule: nat_to_string.induct)
  case (1 n)
  then show ?case
    by (subst (asm) nat_to_string.simps) (auto simp: is_digit_digit_char split: if_splits)
qed

lemma nat_to_string_nonempty [simp]: "nat_to_string n \<noteq> []"
  by (subst nat_to_string.simps) simp

lemma digits_val_nat_to_string: "digits_val (nat_to_string n) = n"
proof (induction n rule: nat_to_string.induct)
  case (1 n)
  show ?case
  proof (cases "n < 10")
    case True
    then show ?thesis
      by (subst nat_to_string.simps) (simp add: digits_val_def digit_val_digit_char)
  next
    case False
    with 1 show ?thesis
      by (subst nat_to_string.simps) (simp add: digits_val_append digit_val_digit_char)
  qed
qed

lemma nat_to_string_inject: "nat_to_string m = nat_to_string n \<Longrightarrow> m = n"
  by (metis digits_val_nat_to_string)

lemma is_digit_not_ws: "is_digit c \<Longrightarrow> \<not> is_ws c"
  by (auto simp: is_digit_def is_ws_def)

lemma parse_int_nat_to_string: "n < 2 ^ 53 \<Longrightarrow> parse_int (nat_to_string n) = Fin (of_nat n)"
proof -
  assume n: "n < 2 ^ 53"
  let ?s = "nat_to_string n"
  have dig: "\<forall>c \<in> set ?s. is_digit c" using nat_to_string_digits by blast
  then have hd: "is_digit (hd ?s)" by simp
  have "dropWhile is_ws ?s = ?s"
    by (rule dropWhile_hd_false) (use hd is_digit_not_ws in auto)
  moreover have "\<not> starts_with ''-'' ?s" and "\<not> starts_with ''+'' ?s"
    using hd by (cases ?s; auto simp: starts_with_def is_digit_def)+
  moreover have "takeWhile is_digit ?s = ?s" using dig by (simp add: takeWhile_eq_all_conv)
  ultimately have "parse_int ?s = double_of_nat False n"
    unfolding parse_int_def Let_def by (simp only: digits_val_nat_to_string nat_to_string_nonempty if_False simp_thms)
  moreover have "\<not> n \<ge> 2 ^ 1024" using n by simp
  ultimately show ?thesis using round_double_small [OF n] by (simp add: double_of_nat_def)
qed

end
