(* ===== verification/Scope.thy ===== *)
theory Scope
  imports Js_Value
begin

text \<open>
  The token endpoint's \<open>scope\<close> parameter, \<open>auth/src/scope.ts\<close>: one entry of the Distribution
  grammar (\<open>type:name:actions\<close>), and the normalisation of a repeated or space-separated
  parameter into one entry per resource, in first-seen order.
\<close>

record requested_scope =
  sc_type :: string
  sc_name :: string
  sc_actions :: "string list"

definition MAX_REQUESTED_SCOPES :: nat where
  "MAX_REQUESTED_SCOPES = 20"

definition scope_values :: "js \<Rightarrow> string list" where
  "scope_values raw =
     (let values = (case raw of JArr vs \<Rightarrow> vs | _ \<Rightarrow> [raw]);
          strings = concat (map (\<lambda>v. case v of JStr s \<Rightarrow> [s] | _ \<Rightarrow> []) values)
      in filter (\<lambda>v. v \<noteq> []) (concat (map (split_runs is_ws) strings)))"

definition parse_scope :: "string \<Rightarrow> requested_scope option" where
  "parse_scope value =
     (let first_colon = index_of CHR '':'' value; last_colon = last_index_of CHR '':'' value in
      if first_colon \<le> 0 \<or> last_colon = first_colon then None
      else
        (let name = slice (first_colon + 1) last_colon value in
         if name = [] then None
         else Some \<lparr>sc_type = slice 0 first_colon value, sc_name = name,
                    sc_actions = filter (\<lambda>a. a \<noteq> [])
                      (split_on (\<lambda>c. c = CHR '','') (slice_from (last_colon + 1) value))\<rparr>))"

definition scope_key :: "requested_scope \<Rightarrow> string" where
  "scope_key sc = sc_type sc @ '':'' @ sc_name sc"

text \<open>The inner loop pushes the actions the entry does not hold yet: \<open>uniq_acc\<close> on its list.\<close>

definition merge_scope ::
  "(string \<times> requested_scope) list \<Rightarrow> requested_scope \<Rightarrow> (string \<times> requested_scope) list" where
  "merge_scope merged parsed =
     (let key = scope_key parsed;
          entry = (case map_of merged key of Some e \<Rightarrow> e
                   | None \<Rightarrow> \<lparr>sc_type = sc_type parsed, sc_name = sc_name parsed, sc_actions = []\<rparr>)
      in AList.update key
           (entry\<lparr>sc_actions := uniq_acc (sc_actions entry) (sc_actions parsed)\<rparr>) merged)"

fun merge_values ::
  "(string \<times> requested_scope) list \<Rightarrow> string list \<Rightarrow> (string \<times> requested_scope) list" where
  "merge_values merged [] = merged"
| "merge_values merged (v # vs) =
     (case parse_scope v of None \<Rightarrow> merge_values merged vs
      | Some parsed \<Rightarrow> merge_values (merge_scope merged parsed) vs)"

definition parse_requested_scopes :: "js \<Rightarrow> requested_scope list" where
  "parse_requested_scopes raw = map snd (merge_values [] (scope_values raw))"

text \<open>The text of a scope, the grammar's other direction (the clients', not the service's).\<close>

definition print_scope :: "requested_scope \<Rightarrow> string" where
  "print_scope sc = sc_type sc @ '':'' @ sc_name sc @ '':'' @ join_with '','' (sc_actions sc)"

section \<open>One entry\<close>

lemma parse_scope_Some:
  assumes "parse_scope v = Some sc"
  obtains rest where "v = sc_type sc @ '':'' @ sc_name sc @ '':'' @ rest"
    and "CHR '':'' \<notin> set rest" and "CHR '':'' \<notin> set (sc_type sc)"
    and "sc_type sc \<noteq> []" and "sc_name sc \<noteq> []"
    and "sc_actions sc = filter (\<lambda>a. a \<noteq> []) (split_on (\<lambda>c. c = CHR '','') rest)"
proof -
  let ?i = "index_of CHR '':'' v" and ?j = "last_index_of CHR '':'' v"
  from assms have i: "0 < ?i" and ij: "?j \<noteq> ?i"
    by (auto simp: parse_scope_def Let_def split: if_splits)
  from i have "0 \<le> ?i" by simp
  then obtain t xs where v: "v = t @ CHR '':'' # xs" and t: "CHR '':'' \<notin> set t"
    and it: "?i = int (length t)"
    by (rule index_of_split)
  have xs: "CHR '':'' \<in> set xs"
  proof (rule ccontr)
    assume "CHR '':'' \<notin> set xs"
    with v have "?j = int (length t)" by simp
    with it ij show False by simp
  qed
  then obtain n rest where x: "xs = n @ CHR '':'' # rest" and r: "CHR '':'' \<notin> set rest"
    by (meson split_list_last)
  have v2: "v = (t @ CHR '':'' # n) @ CHR '':'' # rest" using v x by simp
  have j: "?j = int (length t) + 1 + int (length n)"
    unfolding v2 using last_index_of_append [OF r, of "t @ CHR '':'' # n"] by simp
  have name: "slice (?i + 1) ?j v = n"
    using it j v x by (simp add: slice_def nat_add_distrib)
  have type: "slice 0 ?i v = t" using it v by (simp add: slice_def)
  have acts: "slice_from (?j + 1) v = rest"
    using j v2 by (simp add: slice_from_def nat_add_distrib)
  from assms i ij name type acts have sc: "n \<noteq> []" "sc = \<lparr>sc_type = t, sc_name = n,
      sc_actions = filter (\<lambda>a. a \<noteq> []) (split_on (\<lambda>c. c = CHR '','') rest)\<rparr>"
    by (auto simp: parse_scope_def Let_def split: if_splits)
  from it i have "t \<noteq> []" by auto
  with that [of rest] sc v2 t r show thesis by simp
qed

lemma parse_scope_build:
  assumes "CHR '':'' \<notin> set t" and "t \<noteq> []" and "n \<noteq> []" and "CHR '':'' \<notin> set rest"
  shows "parse_scope (t @ '':'' @ n @ '':'' @ rest) =
    Some \<lparr>sc_type = t, sc_name = n,
          sc_actions = filter (\<lambda>a. a \<noteq> []) (split_on (\<lambda>c. c = CHR '','') rest)\<rparr>"
proof -
  let ?v = "t @ '':'' @ n @ '':'' @ rest"
  have i: "index_of CHR '':'' ?v = int (length t)"
    using index_of_append [OF assms(1), of "n @ '':'' @ rest"] by simp
  have j: "last_index_of CHR '':'' ?v = int (length t + 1 + length n)"
    using last_index_of_append [OF assms(4), of "t @ '':'' @ n"] by simp
  have "slice 0 (int (length t)) ?v = t" by (simp add: slice_def)
  moreover have "slice (int (length t) + 1) (int (length t + 1 + length n)) ?v = n"
    by (simp add: slice_def nat_add_distrib)
  moreover have "slice_from (int (length t + 1 + length n) + 1) ?v = rest"
    by (simp add: slice_from_def nat_add_distrib)
  ultimately show ?thesis
    using assms(2,3) i j by (simp add: parse_scope_def Let_def)
qed

text \<open>Scopes the service can produce from text: the shape every entry it works with has.\<close>

definition wf_scope :: "requested_scope \<Rightarrow> bool" where
  "wf_scope sc \<longleftrightarrow> sc_type sc \<noteq> [] \<and> sc_name sc \<noteq> [] \<and> CHR '':'' \<notin> set (sc_type sc) \<and>
     (\<forall>a \<in> set (sc_actions sc). a \<noteq> [] \<and> CHR '':'' \<notin> set a \<and> CHR '','' \<notin> set a)"

lemma parse_scope_wf: "parse_scope v = Some sc \<Longrightarrow> wf_scope sc"
proof -
  assume "parse_scope v = Some sc"
  then show ?thesis
  proof (rule parse_scope_Some)
    fix rest
    assume r: "CHR '':'' \<notin> set rest"
      and acts: "sc_actions sc = filter (\<lambda>a. a \<noteq> []) (split_on (\<lambda>c. c = CHR '','') rest)"
      and "CHR '':'' \<notin> set (sc_type sc)" "sc_type sc \<noteq> []" "sc_name sc \<noteq> []"
    then show ?thesis
      using split_on_chars split_on_pieces by (fastforce simp: wf_scope_def)
  qed
qed

section \<open>Merging\<close>

definition merged_ok :: "(string \<times> requested_scope) list \<Rightarrow> bool" where
  "merged_ok m \<longleftrightarrow> distinct (map fst m) \<and>
     (\<forall>(k, e) \<in> set m. k = scope_key e \<and> wf_scope e \<and> distinct (sc_actions e))"

lemma wf_scope_key_inject:
  assumes "wf_scope a" and "wf_scope b" and "scope_key a = scope_key b"
  shows "sc_type a = sc_type b \<and> sc_name a = sc_name b"
proof -
  have ia: "index_of CHR '':'' (scope_key a) = int (length (sc_type a))"
    and ib: "index_of CHR '':'' (scope_key b) = int (length (sc_type b))"
    using assms(1,2) by (auto simp: wf_scope_def scope_key_def)
  with assms(3) have "length (sc_type a) = length (sc_type b)" by simp
  with assms(3) show ?thesis by (simp add: scope_key_def)
qed

lemma merge_scope_ok:
  assumes m: "merged_ok m" and p: "wf_scope p"
  shows "merged_ok (merge_scope m p)"
proof -
  let ?e = "case map_of m (scope_key p) of Some e \<Rightarrow> e
    | None \<Rightarrow> \<lparr>sc_type = sc_type p, sc_name = sc_name p, sc_actions = []\<rparr>"
  let ?n = "?e\<lparr>sc_actions := uniq_acc (sc_actions ?e) (sc_actions p)\<rparr>"
  have e: "scope_key ?e = scope_key p \<and> wf_scope ?e \<and> distinct (sc_actions ?e)"
  proof (cases "map_of m (scope_key p)")
    case None
    with p show ?thesis by (simp add: wf_scope_def scope_key_def)
  next
    case (Some e)
    then have "(scope_key p, e) \<in> set m" by (rule map_of_SomeD)
    with m Some show ?thesis by (auto simp: merged_ok_def)
  qed
  then have n: "scope_key ?n = scope_key p \<and> wf_scope ?n \<and> distinct (sc_actions ?n)"
    using p by (auto simp: wf_scope_def scope_key_def set_uniq_acc distinct_uniq_acc)
  show ?thesis
    unfolding merged_ok_def merge_scope_def Let_def
  proof (intro conjI ballI)
    show "distinct (map fst (AList.update (scope_key p) ?n m))"
      using m by (intro distinct_keys_update) (simp add: merged_ok_def)
  next
    fix x
    assume x: "x \<in> set (AList.update (scope_key p) ?n m)"
    obtain k e where ke: "x = (k, e)" by (cases x)
    with x have "k = scope_key p \<and> e = ?n \<or> (k, e) \<in> set m"
      by (intro values_update) simp
    then have "k = scope_key e \<and> wf_scope e \<and> distinct (sc_actions e)"
    proof
      assume "k = scope_key p \<and> e = ?n"
      with n show ?thesis by metis
    next
      assume "(k, e) \<in> set m"
      with m show ?thesis by (auto simp: merged_ok_def)
    qed
    with ke show "case x of (k, e) \<Rightarrow> k = scope_key e \<and> wf_scope e \<and> distinct (sc_actions e)" by simp
  qed
qed

lemma merge_values_ok: "merged_ok m \<Longrightarrow> merged_ok (merge_values m vs)"
  by (induction vs arbitrary: m) (auto split: option.split intro: merge_scope_ok parse_scope_wf)

lemma merge_values_append:
  "merge_values m (vs @ ws) = merge_values (merge_values m vs) ws"
  by (induction vs arbitrary: m) (auto split: option.split)

text \<open>
  What a merged map grants: action \<open>a\<close> on the resource with key \<open>k\<close>. Merging one entry
  adds exactly its own actions, so the normal form grants what the parsed entries ask for.
\<close>

definition asks :: "(string \<times> requested_scope) list \<Rightarrow> string \<Rightarrow> string \<Rightarrow> bool" where
  "asks m k a \<longleftrightarrow> (\<exists>e. map_of m k = Some e \<and> a \<in> set (sc_actions e))"

lemma merge_scope_asks:
  "asks (merge_scope m p) k a \<longleftrightarrow> asks m k a \<or> (k = scope_key p \<and> a \<in> set (sc_actions p))"
  by (auto simp: asks_def merge_scope_def Let_def update_conv' set_uniq_acc split: option.splits)

lemma merge_values_asks:
  "asks (merge_values m vs) k a \<longleftrightarrow> asks m k a \<or>
     (\<exists>v \<in> set vs. \<exists>p. parse_scope v = Some p \<and> k = scope_key p \<and> a \<in> set (sc_actions p))"
  by (induction vs arbitrary: m) (auto simp: merge_scope_asks split: option.split)

lemma merge_values_keys:
  "fst ` set (merge_values m vs) =
     fst ` set m \<union> {scope_key p | v p. v \<in> set vs \<and> parse_scope v = Some p}"
  by (induction vs arbitrary: m)
     (auto simp: merge_scope_def Let_def keys_update split: option.split)

lemma requested_scopes_ok:
  "merged_ok (merge_values [] (scope_values raw))"
  by (rule merge_values_ok) (simp add: merged_ok_def)

lemma requested_scopes_wf:
  "sc \<in> set (parse_requested_scopes raw) \<Longrightarrow> wf_scope sc \<and> distinct (sc_actions sc)"
  using requested_scopes_ok [of raw]
  by (auto simp: merged_ok_def parse_requested_scopes_def)

lemma requested_scopes_keys: "distinct (map scope_key (parse_requested_scopes raw))"
proof -
  let ?m = "merge_values [] (scope_values raw)"
  have "map scope_key (map snd ?m) = map fst ?m"
    using requested_scopes_ok [of raw] by (auto simp: merged_ok_def)
  moreover have "distinct (map fst ?m)"
    using requested_scopes_ok [of raw] by (simp add: merged_ok_def)
  ultimately show ?thesis by (simp only: parse_requested_scopes_def)
qed

lemma asks_requested_scopes:
  "asks (merge_values [] (scope_values raw)) k a \<longleftrightarrow>
     (\<exists>sc \<in> set (parse_requested_scopes raw). scope_key sc = k \<and> a \<in> set (sc_actions sc))"
proof -
  let ?m = "merge_values [] (scope_values raw)"
  have d: "distinct (map fst ?m)" and k: "\<And>k e. (k, e) \<in> set ?m \<Longrightarrow> k = scope_key e"
    using requested_scopes_ok [of raw] by (auto simp: merged_ok_def)
  show ?thesis
  proof
    assume "asks ?m k a"
    then obtain e where "(k, e) \<in> set ?m" and "a \<in> set (sc_actions e)"
      by (auto simp: asks_def dest: map_of_SomeD)
    with k [of k e] show "\<exists>sc \<in> set (parse_requested_scopes raw). scope_key sc = k \<and> a \<in> set (sc_actions sc)"
      by (force simp: parse_requested_scopes_def)
  next
    assume "\<exists>sc \<in> set (parse_requested_scopes raw). scope_key sc = k \<and> a \<in> set (sc_actions sc)"
    then obtain k' sc where "(k', sc) \<in> set ?m" "scope_key sc = k" "a \<in> set (sc_actions sc)"
      by (auto simp: parse_requested_scopes_def)
    with k [of k' sc] d show "asks ?m k a" by (auto simp: asks_def)
  qed
qed

lemma requested_scopes_asks:
  "(\<exists>sc \<in> set (parse_requested_scopes raw). scope_key sc = k \<and> a \<in> set (sc_actions sc)) \<longleftrightarrow>
     (\<exists>v \<in> set (scope_values raw). \<exists>p. parse_scope v = Some p \<and> scope_key p = k \<and> a \<in> set (sc_actions p))"
  unfolding asks_requested_scopes [symmetric] merge_values_asks by (auto simp: asks_def)

lemma scope_values_no_ws:
  assumes "v \<in> set (scope_values raw)"
  shows "v \<noteq> [] \<and> (\<forall>c \<in> set v. \<not> is_ws c)"
  using assms split_runs_pieces by (fastforce simp: scope_values_def Let_def)

section \<open>Properties\<close>

text \<open>
  Printing a well-formed scope entry and parsing it again gives the entry back, so the
  parser accepts the whole grammar, names that carry a registry port included.
\<close>

theorem parse_print_scope:
  assumes "wf_scope sc"
  shows "parse_scope (print_scope sc) = Some sc"
proof -
  let ?acts = "join_with '','' (sc_actions sc)"
  have acts: "CHR '':'' \<notin> set a" "CHR '','' \<notin> set a" "a \<noteq> []" if "a \<in> set (sc_actions sc)" for a
    using assms that by (auto simp: wf_scope_def)
  have colon: "CHR '':'' \<notin> set (join_with '','' as)" if "\<forall>a \<in> set as. CHR '':'' \<notin> set a" for as
    using that by (induction as rule: induct_list012) auto
  have split: "filter (\<lambda>a. a \<noteq> []) (split_on (\<lambda>c. c = CHR '','') ?acts) = sc_actions sc"
  proof (cases "sc_actions sc = []")
    case False
    with acts have "split_on (\<lambda>c. c = CHR '','') ?acts = sc_actions sc"
      by (intro split_on_join) auto
    with acts show ?thesis by (simp add: filter_id_conv)
  qed simp
  from acts colon have "CHR '':'' \<notin> set ?acts" by blast
  with assms have "parse_scope (print_scope sc) = Some \<lparr>sc_type = sc_type sc,
      sc_name = sc_name sc, sc_actions = sc_actions sc\<rparr>"
    unfolding print_scope_def by (subst parse_scope_build) (auto simp: wf_scope_def split)
  then show ?thesis by simp
qed

theorem parse_print_scope_witness:
  "parse_scope (print_scope \<lparr>sc_type = ''repository'', sc_name = ''host:5000/app'',
       sc_actions = [''pull'', ''push'']\<rparr>)
   = Some \<lparr>sc_type = ''repository'', sc_name = ''host:5000/app'', sc_actions = [''pull'', ''push'']\<rparr>"
  by (rule parse_print_scope) (simp add: wf_scope_def)

text \<open>
  C30. Normalising a scope parameter gives one entry per resource, and an action is listed for a
  resource exactly when some well-formed value of the parameter asks for it: nothing is
  invented, and nothing well-formed is lost.
\<close>

theorem requested_scopes_exact:
  "distinct (map (\<lambda>sc. (sc_type sc, sc_name sc)) (parse_requested_scopes raw)) \<and>
   ((\<exists>sc \<in> set (parse_requested_scopes raw). sc_type sc = t \<and> sc_name sc = n \<and> a \<in> set (sc_actions sc))
    \<longleftrightarrow> (\<exists>v \<in> set (scope_values raw). \<exists>p. parse_scope v = Some p \<and>
           sc_type p = t \<and> sc_name p = n \<and> a \<in> set (sc_actions p)))"
proof
  show "distinct (map (\<lambda>sc. (sc_type sc, sc_name sc)) (parse_requested_scopes raw))"
    using requested_scopes_keys [of raw] unfolding distinct_map
    by (auto simp: inj_on_def scope_key_def)
next
  let ?S = "parse_requested_scopes raw" and ?V = "scope_values raw"
  let ?R = "\<lambda>p. sc_type p = t \<and> sc_name p = n \<and> a \<in> set (sc_actions p)"
  have same: "?R sc \<longleftrightarrow> ?R p"
    if "wf_scope sc" "wf_scope p" "scope_key sc = scope_key p" "a \<in> set (sc_actions sc)" "a \<in> set (sc_actions p)"
    for sc p
    using wf_scope_key_inject [OF that(1-3)] that(4,5) by auto
  show "(\<exists>sc \<in> set ?S. ?R sc) \<longleftrightarrow> (\<exists>v \<in> set ?V. \<exists>p. parse_scope v = Some p \<and> ?R p)"
  proof
    assume "\<exists>sc \<in> set ?S. ?R sc"
    then obtain sc where sc: "sc \<in> set ?S" "?R sc" by blast
    then obtain v p where v: "v \<in> set ?V" "parse_scope v = Some p"
        "scope_key p = scope_key sc" "a \<in> set (sc_actions p)"
      using requested_scopes_asks [of raw "scope_key sc" a] by blast
    moreover have "wf_scope sc" using sc requested_scopes_wf by blast
    ultimately have "?R p" using same [of sc p] sc parse_scope_wf [of v p] by metis
    with v show "\<exists>v \<in> set ?V. \<exists>p. parse_scope v = Some p \<and> ?R p" by blast
  next
    assume "\<exists>v \<in> set ?V. \<exists>p. parse_scope v = Some p \<and> ?R p"
    then obtain v p where v: "v \<in> set ?V" "parse_scope v = Some p" "?R p" by blast
    then obtain sc where sc: "sc \<in> set ?S" "scope_key sc = scope_key p" "a \<in> set (sc_actions sc)"
      using requested_scopes_asks [of raw "scope_key p" a] by blast
    moreover have "wf_scope sc" using sc requested_scopes_wf by blast
    ultimately have "?R sc" using same [of sc p] v parse_scope_wf [of v p] by metis
    with sc show "\<exists>sc \<in> set ?S. ?R sc" by blast
  qed
qed

end
