(* ===== verification/Scope_Policy.thy ===== *)
theory Scope_Policy
  imports Scope
begin

text \<open>
  The contract between the token endpoint and whatever decides one requested resource: a
  decision rejects with a reason, or grants some of the requested actions in their requested
  order. What the endpoint's access loop does with any such policy (\<open>auth/src/createApp.ts\<close>,
  the loop over \<open>requestedScopes\<close>) is proved here once. The cluster PAT policy and the policy of
  the other strategies, which grant what is asked, are the two instances of the code.
\<close>

record scope_decision =
  sd_allowed :: bool
  sd_actions :: "string list"
  sd_reason :: "string option"

text \<open>The loop: one access entry per scope, stopping at the first rejected one.\<close>

fun grant_access ::
  "(requested_scope \<Rightarrow> scope_decision) \<Rightarrow> requested_scope list \<Rightarrow> scope_decision + requested_scope list"
where
  "grant_access decide [] = Inr []"
| "grant_access decide (sc # scs) =
     (let d = decide sc in
      if \<not> sd_allowed d then Inl d
      else (case grant_access decide scs of Inl e \<Rightarrow> Inl e
            | Inr rest \<Rightarrow> Inr (sc\<lparr>sc_actions := sd_actions d\<rparr> # rest)))"

locale scope_policy =
  fixes decide :: "requested_scope \<Rightarrow> scope_decision"
  assumes decide_restricts: "sd_allowed (decide sc) \<Longrightarrow> \<exists>P. sd_actions (decide sc) = filter P (sc_actions sc)"
    and decide_rejects: "\<not> sd_allowed (decide sc) \<Longrightarrow> sd_actions (decide sc) = []"
begin

lemma granted_subset: "sd_allowed (decide sc) \<Longrightarrow> set (sd_actions (decide sc)) \<subseteq> set (sc_actions sc)"
  using decide_restricts [of sc] by auto

lemma grant_access_shape:
  "grant_access decide scs = Inr access \<Longrightarrow>
     access = map (\<lambda>sc. sc\<lparr>sc_actions := sd_actions (decide sc)\<rparr>) scs \<and>
     (\<forall>sc \<in> set scs. sd_allowed (decide sc))"
  by (induction scs arbitrary: access) (auto simp: Let_def split: if_splits sum.splits)

lemma grant_access_success_iff:
  "(\<exists>access. grant_access decide scs = Inr access) \<longleftrightarrow> (\<forall>sc \<in> set scs. sd_allowed (decide sc))"
  by (induction scs) (auto simp: Let_def split: sum.splits)

lemma grant_access_first_rejection:
  "grant_access decide scs = Inl d \<Longrightarrow>
     \<exists>pre sc post. scs = pre @ sc # post \<and> (\<forall>p \<in> set pre. sd_allowed (decide p)) \<and>
       d = decide sc \<and> \<not> sd_allowed d"
proof (induction scs)
  case (Cons sc scs)
  show ?case
  proof (cases "sd_allowed (decide sc)")
    case True
    with Cons obtain pre s post where "scs = pre @ s # post" "\<forall>p \<in> set pre. sd_allowed (decide p)"
        "d = decide s" "\<not> sd_allowed d"
      by (auto simp: Let_def split: sum.splits)
    with True have "sc # scs = (sc # pre) @ s # post \<and> (\<forall>p \<in> set (sc # pre). sd_allowed (decide p)) \<and>
        d = decide s \<and> \<not> sd_allowed d" by simp
    then show ?thesis by blast
  next
    case False
    with Cons.prems have "sc # scs = [] @ sc # scs \<and> d = decide sc \<and> \<not> sd_allowed d"
      by (auto simp: Let_def)
    then show ?thesis by fastforce
  qed
qed simp

text \<open>Every granted action was requested for the same resource.\<close>

lemma grant_access_requested:
  assumes "grant_access decide scs = Inr access" and "e \<in> set access" and "a \<in> set (sc_actions e)"
  shows "\<exists>sc \<in> set scs. sc_type sc = sc_type e \<and> sc_name sc = sc_name e \<and> a \<in> set (sc_actions sc)
           \<and> sd_allowed (decide sc) \<and> a \<in> set (sd_actions (decide sc))"
proof -
  from grant_access_shape [OF assms(1)] assms(2)
  obtain sc where sc: "sc \<in> set scs" "e = sc\<lparr>sc_actions := sd_actions (decide sc)\<rparr>" "sd_allowed (decide sc)"
    by auto
  with assms(3) granted_subset have "a \<in> set (sc_actions sc)" by auto
  with sc assms(3) show ?thesis by auto
qed

end

end
