(* ===== verification/ClusterPat.thy ===== *)
theory ClusterPat
  imports Scope_Policy
begin

text \<open>
  Cluster personal access tokens, \<open>auth/src/clusterPat.ts\<close>: the parser of the configured
  \<open>cluster_id=token\<close> entries and the scope policy of a token bound to one cluster. The process
  environment is a function from variable names to optional values.
\<close>

type_synonym env = "string \<Rightarrow> string option"

record cluster_pat_entry =
  cp_cluster_id :: string
  cp_token :: string

text \<open>\<open>/^[A-Za-z0-9_-]{1,64}$/\<close>\<close>

definition CLUSTER_ID_PATTERN :: "string \<Rightarrow> bool" where
  "CLUSTER_ID_PATTERN s \<longleftrightarrow> 1 \<le> length s \<and> length s \<le> 64 \<and>
     list_all (\<lambda>c. is_alnum c \<or> c = CHR ''_'' \<or> c = CHR ''-'') s"

definition DEFAULT_STANDARD_MODULE_NAMESPACE :: string where
  "DEFAULT_STANDARD_MODULE_NAMESPACE = ''wasm/std''"

definition get_standard_module_namespace :: "env \<Rightarrow> string" where
  "get_standard_module_namespace env =
     (let raw = strip_slashes (trim (or_else (env ''AOCR_WASM_STD_NAMESPACE'') ''''))
      in if length raw > 0 then raw else DEFAULT_STANDARD_MODULE_NAMESPACE)"

text \<open>One entry of the list: \<open>None\<close> for the entries the loop skips.\<close>

definition parse_cluster_pat_entry :: "string \<Rightarrow> (string \<times> string) option" where
  "parse_cluster_pat_entry line =
     (let trimmed = trim line; sep = index_of CHR ''='' trimmed in
      if trimmed = [] then None
      else if sep \<le> 0 \<or> sep \<ge> int (length trimmed) - 1 then None
      else
        (let cluster_id = trim (slice 0 sep trimmed); token = trim (slice_from (sep + 1) trimmed) in
         if \<not> CLUSTER_ID_PATTERN cluster_id then None
         else if token = [] then None
         else Some (cluster_id, token)))"

fun add_cluster_pat_lines :: "(string \<times> string) list \<Rightarrow> string list \<Rightarrow> (string \<times> string) list" where
  "add_cluster_pat_lines m [] = m"
| "add_cluster_pat_lines m (line # lines) =
     (case parse_cluster_pat_entry line of None \<Rightarrow> add_cluster_pat_lines m lines
      | Some (cluster_id, token) \<Rightarrow> add_cluster_pat_lines (AList.update cluster_id token m) lines)"

definition parse_cluster_pat_entries :: "string option \<Rightarrow> cluster_pat_entry list" where
  "parse_cluster_pat_entries raw =
     (if \<not> truthy raw then []
      else map (\<lambda>(c, t). \<lparr>cp_cluster_id = c, cp_token = t\<rparr>)
             (add_cluster_pat_lines []
                (split_on (\<lambda>c. c = CHR 0x0A \<or> c = CHR '','') (the raw))))"

definition under_namespace :: "string \<Rightarrow> string \<Rightarrow> bool" where
  "under_namespace ns name \<longleftrightarrow> name = ns \<or> starts_with (ns @ ''/'') name"

definition allow :: "string list \<Rightarrow> scope_decision" where
  "allow actions = \<lparr>sd_allowed = True, sd_actions = actions, sd_reason = None\<rparr>"

definition reject :: "string \<Rightarrow> scope_decision" where
  "reject reason = \<lparr>sd_allowed = False, sd_actions = [], sd_reason = Some reason\<rparr>"

definition pull_only :: "string list \<Rightarrow> string list" where
  "pull_only actions = filter (\<lambda>a. a = ''pull'') actions"

definition evaluate_cluster_pat_scope ::
  "env \<Rightarrow> string \<Rightarrow> string \<Rightarrow> string \<Rightarrow> string list \<Rightarrow> scope_decision" where
  "evaluate_cluster_pat_scope env cluster_id scope_type scope_name requested =
     (if scope_type \<noteq> ''repository'' then reject ''cluster PAT supports only repository scope''
      else if scope_name = [] then reject ''cluster PAT requires a scope name''
      else
        (let own = ''cluster/'' @ cluster_id; std = get_standard_module_namespace env in
         if under_namespace own scope_name then allow requested
         else if under_namespace ''mirror'' scope_name then allow (pull_only requested)
         else if under_namespace std scope_name then allow (pull_only requested)
         else reject (''cluster PAT scope '' @ scope_name @ '' is outside the cluster/'' @ cluster_id
                @ '', mirror/*, and '' @ std @ ''/* namespaces'')))"

section \<open>The entry parser\<close>

lemma cluster_id_chars:
  "CLUSTER_ID_PATTERN s \<Longrightarrow> c \<in> set s \<Longrightarrow> is_alnum c \<or> c = CHR ''_'' \<or> c = CHR ''-''"
  by (auto simp: CLUSTER_ID_PATTERN_def list_all_iff)

lemma cluster_id_no_slash: "CLUSTER_ID_PATTERN s \<Longrightarrow> CHR ''/'' \<notin> set s"
  by (auto dest!: cluster_id_chars simp: char_class_defs)

definition entries_ok :: "(string \<times> string) list \<Rightarrow> bool" where
  "entries_ok m \<longleftrightarrow> distinct (map fst m) \<and> (\<forall>(c, t) \<in> set m. CLUSTER_ID_PATTERN c \<and> t \<noteq> [])"

lemma parse_cluster_pat_entry_ok:
  "parse_cluster_pat_entry line = Some (c, t) \<Longrightarrow> CLUSTER_ID_PATTERN c \<and> t \<noteq> []"
  by (auto simp: parse_cluster_pat_entry_def Let_def split: if_splits)

lemma entries_ok_update:
  "entries_ok m \<Longrightarrow> CLUSTER_ID_PATTERN c \<Longrightarrow> t \<noteq> [] \<Longrightarrow> entries_ok (AList.update c t m)"
  by (auto simp: entries_ok_def distinct_keys_update dest!: values_update)

lemma add_cluster_pat_lines_ok: "entries_ok m \<Longrightarrow> entries_ok (add_cluster_pat_lines m ls)"
  by (induction ls arbitrary: m)
     (auto split: option.split dest: parse_cluster_pat_entry_ok intro: entries_ok_update)

lemma add_cluster_pat_lines_lookup:
  "map_of (add_cluster_pat_lines m ls) c =
     (case map_of (rev (List.map_filter parse_cluster_pat_entry ls)) c of None \<Rightarrow> map_of m c | Some t \<Rightarrow> Some t)"
  by (induction ls arbitrary: m)
     (auto simp: List.map_filter_def map_add_def update_conv' split: option.splits)

section \<open>The scope policy\<close>

interpretation cluster_policy: scope_policy
  "\<lambda>sc. evaluate_cluster_pat_scope env cid (sc_type sc) (sc_name sc) (sc_actions sc)" for env cid
proof
  fix sc
  let ?d = "evaluate_cluster_pat_scope env cid (sc_type sc) (sc_name sc) (sc_actions sc)"
  show "sd_allowed ?d \<Longrightarrow> \<exists>P. sd_actions ?d = filter P (sc_actions sc)"
    unfolding evaluate_cluster_pat_scope_def Let_def allow_def reject_def pull_only_def
    by (auto intro: exI [of _ "\<lambda>_. True"] split: if_splits)
  show "\<not> sd_allowed ?d \<Longrightarrow> sd_actions ?d = []"
    by (auto simp: evaluate_cluster_pat_scope_def Let_def allow_def reject_def split: if_splits)
qed

lemma under_namespace_iff: "under_namespace ns name \<longleftrightarrow> name = ns \<or> (\<exists>r. name = ns @ ''/'' @ r)"
  by (auto simp: under_namespace_def starts_with_iff)

lemma under_namespace_append [simp]: "under_namespace ns (ns @ ''/'' @ r)"
  by (auto simp: under_namespace_iff)

lemma under_namespace_trans:
  "under_namespace a b \<Longrightarrow> under_namespace b c \<Longrightarrow> under_namespace a c"
  by (auto simp: under_namespace_iff)

text \<open>Two prefixes of the same name, both ending at a slash or at its end, are nested.\<close>

lemma under_namespace_linear:
  assumes "under_namespace a n" and "under_namespace b n" and "length a \<le> length b"
  shows "under_namespace a b"
proof -
  from assms(1) obtain ra where ra: "n = a @ ra" "ra = [] \<or> hd ra = CHR ''/''"
    by (auto simp: under_namespace_iff)
  from assms(2) obtain rb where rb: "n = b @ rb"
    by (auto simp: under_namespace_iff)
  from ra(1) rb assms(3) obtain m where m: "b = a @ m" "ra = m @ rb"
    by (metis append_eq_append_conv2 append_eq_append_conv_if append_take_drop_id)
  show ?thesis
  proof (cases m)
    case Nil
    with m show ?thesis by (simp add: under_namespace_def)
  next
    case (Cons x xs)
    with ra(2) m(2) have "x = CHR ''/''" by auto
    with Cons m(1) show ?thesis by (auto simp: under_namespace_iff)
  qed
qed

lemma own_namespaces_disjoint:
  assumes c: "CLUSTER_ID_PATTERN c" and d: "CLUSTER_ID_PATTERN d"
    and "under_namespace (''cluster/'' @ c) n" and "under_namespace (''cluster/'' @ d) n"
  shows "c = d"
proof -
  have nested: "a = b"
    if "under_namespace (''cluster/'' @ a) (''cluster/'' @ b)" "CHR ''/'' \<notin> set b" for a b
    using that by (auto simp: under_namespace_iff)
  show ?thesis
  proof (cases "length c \<le> length d")
    case True
    then have "under_namespace (''cluster/'' @ c) (''cluster/'' @ d)"
      using under_namespace_linear [OF assms(3,4)] by simp
    with nested cluster_id_no_slash [OF d] show ?thesis by blast
  next
    case False
    then have "under_namespace (''cluster/'' @ d) (''cluster/'' @ c)"
      using under_namespace_linear [OF assms(4,3)] by simp
    with nested [of d c] cluster_id_no_slash [OF c] show ?thesis by blast
  qed
qed

text \<open>The only way to an action other than pull is the token's own namespace.\<close>

lemma evaluate_write:
  assumes "a \<in> set (sd_actions (evaluate_cluster_pat_scope env cid t n acts))" and "a \<noteq> ''pull''"
  shows "t = ''repository'' \<and> under_namespace (''cluster/'' @ cid) n \<and> a \<in> set acts"
  using assms
  by (auto simp: evaluate_cluster_pat_scope_def Let_def allow_def reject_def pull_only_def split: if_splits)

lemma evaluate_allowed_iff:
  "sd_allowed (evaluate_cluster_pat_scope env cid t n acts) \<longleftrightarrow>
     t = ''repository'' \<and> n \<noteq> [] \<and>
     (under_namespace (''cluster/'' @ cid) n \<or> under_namespace ''mirror'' n \<or>
      under_namespace (get_standard_module_namespace env) n)"
  by (auto simp: evaluate_cluster_pat_scope_def Let_def allow_def reject_def)

section \<open>Properties\<close>

text \<open>
  Parsing the configured tokens: the ids are valid and distinct, no token is empty, and an
  id's token is the one of the last well-formed entry that names it.
\<close>

theorem cluster_pat_entries_correct:
  "distinct (map cp_cluster_id (parse_cluster_pat_entries (Some raw))) \<and>
   (\<forall>e \<in> set (parse_cluster_pat_entries (Some raw)). CLUSTER_ID_PATTERN (cp_cluster_id e) \<and> cp_token e \<noteq> []) \<and>
   ((\<lparr>cp_cluster_id = c, cp_token = t\<rparr> \<in> set (parse_cluster_pat_entries (Some raw))) =
    (map_of (rev (List.map_filter parse_cluster_pat_entry
        (split_on (\<lambda>c. c = CHR 0x0A \<or> c = CHR '','') raw))) c = Some t))"
proof (cases "raw = []")
  case True
  then show ?thesis
    by (simp add: parse_cluster_pat_entries_def truthy_def List.map_filter_def
        parse_cluster_pat_entry_def Let_def)
next
  case False
  let ?ls = "split_on (\<lambda>c. c = CHR 0x0A \<or> c = CHR '','') raw"
  let ?m = "add_cluster_pat_lines [] ?ls"
  have es: "parse_cluster_pat_entries (Some raw) = map (\<lambda>(c, t). \<lparr>cp_cluster_id = c, cp_token = t\<rparr>) ?m"
    using False by (simp add: parse_cluster_pat_entries_def truthy_def)
  have ok: "entries_ok ?m"
    by (rule add_cluster_pat_lines_ok) (simp add: entries_ok_def)
  have keys: "map (cp_cluster_id \<circ> (\<lambda>(c, t). \<lparr>cp_cluster_id = c, cp_token = t\<rparr>)) ?m = map fst ?m"
    by auto
  have mem: "(\<lparr>cp_cluster_id = c, cp_token = t\<rparr> \<in> set (parse_cluster_pat_entries (Some raw)))
      = ((c, t) \<in> set ?m)"
    by (auto simp: es)
  have "((c, t) \<in> set ?m) = (map_of ?m c = Some t)"
    using ok by (simp add: entries_ok_def)
  with mem have last: "(\<lparr>cp_cluster_id = c, cp_token = t\<rparr> \<in> set (parse_cluster_pat_entries (Some raw)))
      = (map_of (rev (List.map_filter parse_cluster_pat_entry ?ls)) c = Some t)"
    using add_cluster_pat_lines_lookup [of "[]" ?ls c] by (auto split: option.splits)
  have "distinct (map cp_cluster_id (parse_cluster_pat_entries (Some raw)))"
    using ok keys by (simp only: es entries_ok_def list.map_comp)
  moreover have "\<forall>e \<in> set (parse_cluster_pat_entries (Some raw)).
      CLUSTER_ID_PATTERN (cp_cluster_id e) \<and> cp_token e \<noteq> []"
    using ok by (auto simp: es entries_ok_def)
  ultimately show ?thesis using last by blast
qed

theorem cluster_pat_entries_correct_witness:
  "\<lparr>cp_cluster_id = ''a'', cp_token = ''new''\<rparr> \<in> set (parse_cluster_pat_entries (Some ''a=old,b.=x,a=new''))"
  using cluster_pat_entries_correct [of "''a=old,b.=x,a=new''" "''a''" "''new''"]
  by (simp add: parse_cluster_pat_entry_def CLUSTER_ID_PATTERN_def js_defs Let_def List.map_filter_def)

text \<open>
  C3. Tenant isolation: where one cluster's token obtains any action but pull, the token of every
  other cluster obtains at most pull.
\<close>

theorem cluster_pat_isolation:
  assumes "CLUSTER_ID_PATTERN c" and "CLUSTER_ID_PATTERN d" and "c \<noteq> d"
    and "a \<in> set (sd_actions (evaluate_cluster_pat_scope env c t n acts))" and "a \<noteq> ''pull''"
  shows "set (sd_actions (evaluate_cluster_pat_scope env d t n acts')) \<subseteq> {''pull''}"
  using own_namespaces_disjoint [OF assms(1,2)] assms(3) evaluate_write [OF assms(4,5)]
    evaluate_write [of _ env d t n acts'] by blast

theorem cluster_pat_isolation_witness:
  "set (sd_actions (evaluate_cluster_pat_scope (\<lambda>_. None) ''team-b'' ''repository''
      ''cluster/team-a/app'' [''pull'', ''push''])) \<subseteq> {''pull''}"
proof (rule cluster_pat_isolation [of "''team-a''" "''team-b''" "''push''" "\<lambda>_. None" "''repository''"
      "''cluster/team-a/app''" "[''push'']"])
qed (simp_all add: CLUSTER_ID_PATTERN_def evaluate_cluster_pat_scope_def allow_def under_namespace_def
      js_defs Let_def)

end
