(* ===== verification/Route.thy ===== *)
theory Route
  imports ClusterPat
begin

text \<open>
  The mirror's URL scheme, \<open>auth/src/upstreamAuth/route.ts\<close>: which upstream host and upstream-side
  repository a mirror-side repository path stands for, and whether that host is the one a wrapped
  credential names.
\<close>

record upstream_route =
  ur_host :: string
  ur_repo :: string

definition PREFIX_TABLE :: "(string \<times> string) list" where
  "PREFIX_TABLE =
     [(''aocr/ghcr/'', ''ghcr.io''), (''aocr/gcr/'', ''gcr.io''), (''aocr/quay/'', ''quay.io''),
      (''aocr/k8s/'', ''registry.k8s.io'')]"

text \<open>The loop over the table: the outer option is "some prefix matched".\<close>

fun match_prefix :: "(string \<times> string) list \<Rightarrow> string \<Rightarrow> upstream_route option option" where
  "match_prefix [] repo = None"
| "match_prefix ((prefix, host) # table) repo =
     (if starts_with prefix repo then
        (let upstream_repo = drop (length prefix) repo in
         Some (if upstream_repo = [] then None else Some \<lparr>ur_host = host, ur_repo = upstream_repo\<rparr>))
      else match_prefix table repo)"

definition route_mirror_repo_to_upstream :: "string \<Rightarrow> upstream_route option" where
  "route_mirror_repo_to_upstream mirror_repo =
     (if mirror_repo = [] then None
      else (case match_prefix PREFIX_TABLE mirror_repo of
              Some r \<Rightarrow> r
            | None \<Rightarrow>
                (if mirror_repo = ''aocr'' \<or> starts_with ''aocr/'' mirror_repo then None
                 else Some \<lparr>ur_host = ''docker.io'', ur_repo = mirror_repo\<rparr>)))"

definition route_matches_wrapped_host :: "upstream_route \<Rightarrow> string \<Rightarrow> bool" where
  "route_matches_wrapped_host route envelope_host \<longleftrightarrow>
     to_lower (ur_host route) = to_lower envelope_host"

text \<open>The mirror-side path of an upstream repository: the scheme read the other way.\<close>

definition mirror_path :: "upstream_route \<Rightarrow> string" where
  "mirror_path r =
     (case map_of (map (\<lambda>(p, h). (h, p)) PREFIX_TABLE) (ur_host r) of
        Some prefix \<Rightarrow> prefix @ ur_repo r | None \<Rightarrow> ur_repo r)"

lemma match_prefix_Some:
  "match_prefix table m = Some (Some r) \<Longrightarrow>
     \<exists>p. (p, ur_host r) \<in> set table \<and> m = p @ ur_repo r \<and> ur_repo r \<noteq> []"
proof (induction table)
  case (Cons e table)
  obtain p h where e: "e = (p, h)" by force
  show ?case
  proof (cases "starts_with p m")
    case True
    then obtain s where s: "m = p @ s" by (auto simp: starts_with_iff)
    with Cons.prems e True have "r = \<lparr>ur_host = h, ur_repo = s\<rparr>" "s \<noteq> []"
      by (auto simp: Let_def split: if_splits)
    with e s show ?thesis by auto
  next
    case False
    with Cons e show ?thesis by auto
  qed
qed simp

lemma route_cases:
  assumes "route_mirror_repo_to_upstream m = Some r"
  obtains (prefix) prefix where "(prefix, ur_host r) \<in> set PREFIX_TABLE" and "m = prefix @ ur_repo r"
      and "ur_repo r \<noteq> []"
    | (hub) "ur_host r = ''docker.io''" and "ur_repo r = m" and "m \<noteq> []"
      and "\<not> under_namespace ''aocr'' m"
proof (cases "match_prefix PREFIX_TABLE m")
  case None
  with assms have "m \<noteq> []" "r = \<lparr>ur_host = ''docker.io'', ur_repo = m\<rparr>" "\<not> under_namespace ''aocr'' m"
    by (auto simp: route_mirror_repo_to_upstream_def under_namespace_def split: if_splits)
  then show thesis using hub by simp
next
  case (Some x)
  with assms have "match_prefix PREFIX_TABLE m = Some (Some r)"
    by (simp add: route_mirror_repo_to_upstream_def split: if_splits)
  then show thesis using prefix match_prefix_Some by blast
qed

section \<open>Properties\<close>

text \<open>
  Routing loses nothing: the mirror path can be rebuilt from the route, so two different
  mirror repositories never share an upstream repository (and never share a proof of access), and
  the reserved namespace never reaches Docker Hub.
\<close>

theorem route_invertible:
  assumes "route_mirror_repo_to_upstream m = Some r"
  shows "mirror_path r = m \<and> ur_repo r \<noteq> [] \<and>
    (under_namespace ''aocr'' m = (ur_host r \<in> {''ghcr.io'', ''gcr.io'', ''quay.io'', ''registry.k8s.io''}))"
  using assms
proof (cases rule: route_cases)
  case (prefix p)
  from prefix(1) have p: "mirror_path r = p @ ur_repo r" "\<exists>q. p = ''aocr/'' @ q"
      "ur_host r \<in> {''ghcr.io'', ''gcr.io'', ''quay.io'', ''registry.k8s.io''}"
    by (auto simp: mirror_path_def PREFIX_TABLE_def)
  from p(2) prefix(2) have "under_namespace ''aocr'' m" by (auto simp: under_namespace_def)
  with p prefix show ?thesis by simp
next
  case hub
  then show ?thesis by (simp add: mirror_path_def PREFIX_TABLE_def)
qed

theorem route_invertible_witness:
  "mirror_path \<lparr>ur_host = ''ghcr.io'', ur_repo = ''org/app''\<rparr> = ''aocr/ghcr/org/app''"
  using route_invertible [of "''aocr/ghcr/org/app''" "\<lparr>ur_host = ''ghcr.io'', ur_repo = ''org/app''\<rparr>"]
  by (simp add: route_mirror_repo_to_upstream_def PREFIX_TABLE_def starts_with_def)

end
