(* ===== verification/ProofCache.thy ===== *)
theory ProofCache
  imports Prelude_JS
begin

text \<open>
  The proof-of-access cache, \<open>auth/src/upstreamAuth/proofCache.ts\<close>.  The JavaScript \<open>Map\<close> is an
  association list in insertion order (head = least recently used), the clock reading of each call
  is its argument \<open>now\<close> in milliseconds, and \<open>pc_dropped\<close> is a ghost: the contents of the bearer
  buffers at the moment the cache lets go of them.
\<close>

section \<open>State\<close>

definition DEFAULT_TTL_MS :: int where "DEFAULT_TTL_MS = 5 * 60 * 1000"
definition DEFAULT_MAX_ENTRIES :: int where "DEFAULT_MAX_ENTRIES = 10000"

record proof_entry =
  pe_identity :: string
  pe_proven_at :: int
  pe_expires_at :: int
  pe_bearer :: string
  pe_repos :: "string list"

record proof_lookup =
  pl_bearer :: string
  pl_repos :: "string list"
  pl_proven_at :: int
  pl_expires_at :: int

record proof_cache =
  pc_ttl :: int
  pc_max :: int
  pc_entries :: "(string \<times> proof_entry) list"
  pc_dropped :: "string list"

definition new_proof_cache :: "int option \<Rightarrow> int option \<Rightarrow> proof_cache" where
  "new_proof_cache ttl mx =
     \<lparr>pc_ttl = (case ttl of None \<Rightarrow> DEFAULT_TTL_MS | Some t \<Rightarrow> t),
      pc_max = (case mx of None \<Rightarrow> DEFAULT_MAX_ENTRIES | Some m \<Rightarrow> m),
      pc_entries = [], pc_dropped = []\<rparr>"

section \<open>Operations\<close>

text \<open>\<open>buffer.fill(0)\<close> and \<open>set.add\<close>.\<close>

definition fill_zero :: "string \<Rightarrow> string" where
  "fill_zero b = replicate (length b) CHR 0x00"

definition set_add :: "'a \<Rightarrow> 'a list \<Rightarrow> 'a list" where
  "set_add x xs = (if x \<in> set xs then xs else xs @ [x])"

definition evict :: "string \<Rightarrow> proof_cache \<Rightarrow> proof_cache" where
  "evict identity c =
     (case map_of (pc_entries c) identity of
        None \<Rightarrow> c
      | Some entry \<Rightarrow>
          c\<lparr>pc_entries := AList.delete identity (pc_entries c),
            pc_dropped := fill_zero (pe_bearer entry) # pc_dropped c\<rparr>)"

lemma evict_head_shrinks:
  "pc_entries c = x # es \<Longrightarrow> (k, e) = x \<Longrightarrow> length (pc_entries (evict k c)) < length (pc_entries c)"
  by (auto simp add: evict_def less_Suc_eq_le length_delete_le)

function enforce_capacity :: "proof_cache \<Rightarrow> proof_cache" where
  "enforce_capacity c =
     (if int (length (pc_entries c)) > pc_max c then
        (case pc_entries c of [] \<Rightarrow> c | (lru, _) # _ \<Rightarrow> enforce_capacity (evict lru c))
      else c)"
  by auto
termination
  by (relation "measure (\<lambda>c. length (pc_entries c))")
    (simp only: wf_measure, unfold in_measure, erule evict_head_shrinks, assumption)

declare enforce_capacity.simps [simp del]

definition get_proof :: "int \<Rightarrow> string \<Rightarrow> string \<Rightarrow> proof_cache \<Rightarrow> proof_lookup option \<times> proof_cache" where
  "get_proof now identity repo c =
     (case map_of (pc_entries c) identity of
        None \<Rightarrow> (None, c)
      | Some entry \<Rightarrow>
          if now \<ge> pe_expires_at entry then (None, evict identity c)
          else if repo \<notin> set (pe_repos entry) then (None, c)
          else (Some \<lparr>pl_bearer = pe_bearer entry, pl_repos = pe_repos entry,
                      pl_proven_at = pe_proven_at entry, pl_expires_at = pe_expires_at entry\<rparr>,
                c\<lparr>pc_entries := AList.update identity entry (AList.delete identity (pc_entries c))\<rparr>))"

definition record_proof :: "int \<Rightarrow> string \<Rightarrow> string \<Rightarrow> string \<Rightarrow> proof_cache \<Rightarrow> proof_cache" where
  "record_proof now identity repo bearer c =
     (case map_of (pc_entries c) identity of
        Some existing \<Rightarrow>
          (let existing' = existing\<lparr>pe_repos := set_add repo (pe_repos existing), pe_bearer := bearer,
                                    pe_expires_at := now + pc_ttl c\<rparr>
           in c\<lparr>pc_entries := AList.update identity existing' (AList.delete identity (pc_entries c)),
                pc_dropped := fill_zero (pe_bearer existing) # pc_dropped c\<rparr>)
      | None \<Rightarrow>
          (let entry = \<lparr>pe_identity = identity, pe_proven_at = now, pe_expires_at = now + pc_ttl c,
                        pe_bearer = bearer, pe_repos = [repo]\<rparr>
           in enforce_capacity (c\<lparr>pc_entries := AList.update identity entry (pc_entries c)\<rparr>)))"

definition record_scope :: "string \<Rightarrow> string \<Rightarrow> proof_cache \<Rightarrow> proof_cache" where
  "record_scope identity repo c =
     (case map_of (pc_entries c) identity of
        None \<Rightarrow> c
      | Some entry \<Rightarrow>
          c\<lparr>pc_entries := AList.update identity (entry\<lparr>pe_repos := set_add repo (pe_repos entry)\<rparr>) (pc_entries c)\<rparr>)"

definition invalidate :: "string \<Rightarrow> proof_cache \<Rightarrow> proof_cache" where
  "invalidate identity c = evict identity c"

definition cache_size :: "proof_cache \<Rightarrow> nat" where
  "cache_size c = length (pc_entries c)"

section \<open>The interface the strategy relies on\<close>

text \<open>
  A proof store answers "has this identity been proven to read this repository".  Its laws say that
  nothing but \<open>record\<close> and \<open>record_scope\<close> adds an answer, and that \<open>invalidate\<close> takes every
  answer of the identity away.
\<close>

datatype cache_op =
    OpGet int string string
  | OpRecord int string string string
  | OpRecordScope string string
  | OpInvalidate string

fun op_adds :: "string \<Rightarrow> string \<Rightarrow> cache_op \<Rightarrow> bool" where
  "op_adds i r (OpRecord _ i' r' _) = (i = i' \<and> r = r')"
| "op_adds i r (OpRecordScope i' r') = (i = i' \<and> r = r')"
| "op_adds _ _ _ = False"

locale proof_store =
  fixes get :: "int \<Rightarrow> string \<Rightarrow> string \<Rightarrow> 's \<Rightarrow> 'l option \<times> 's"
    and rec :: "int \<Rightarrow> string \<Rightarrow> string \<Rightarrow> string \<Rightarrow> 's \<Rightarrow> 's"
    and rec_scope :: "string \<Rightarrow> string \<Rightarrow> 's \<Rightarrow> 's"
    and inval :: "string \<Rightarrow> 's \<Rightarrow> 's"
    and covers :: "'s \<Rightarrow> string \<Rightarrow> string \<Rightarrow> bool"
    and inv :: "'s \<Rightarrow> bool"
  assumes get_hit: "inv s \<Longrightarrow> fst (get n i r s) = Some l \<Longrightarrow> covers s i r"
    and get_covers: "inv s \<Longrightarrow> covers (snd (get n i r s)) i' r' \<Longrightarrow> covers s i' r'"
    and rec_covers: "inv s \<Longrightarrow> covers (rec n i r b s) i' r' \<Longrightarrow> i' = i \<and> r' = r \<or> covers s i' r'"
    and scope_covers: "inv s \<Longrightarrow> covers (rec_scope i r s) i' r' \<Longrightarrow> i' = i \<and> r' = r \<or> covers s i' r'"
    and inval_covers: "inv s \<Longrightarrow> covers (inval i s) i' r' \<Longrightarrow> i' \<noteq> i \<and> covers s i' r'"
    and inv_get: "inv s \<Longrightarrow> inv (snd (get n i r s))"
    and inv_rec: "inv s \<Longrightarrow> inv (rec n i r b s)"
    and inv_scope: "inv s \<Longrightarrow> inv (rec_scope i r s)"
    and inv_inval: "inv s \<Longrightarrow> inv (inval i s)"
begin

fun run_op :: "cache_op \<Rightarrow> 's \<Rightarrow> 's" where
  "run_op (OpGet n i r) s = snd (get n i r s)"
| "run_op (OpRecord n i r b) s = rec n i r b s"
| "run_op (OpRecordScope i r) s = rec_scope i r s"
| "run_op (OpInvalidate i) s = inval i s"

lemma run_op_inv: "inv s \<Longrightarrow> inv (run_op op s)"
  by (cases op) (simp_all add: inv_get inv_rec inv_scope inv_inval)

lemma run_op_covers: "inv s \<Longrightarrow> covers (run_op op s) i r \<Longrightarrow> op_adds i r op \<or> covers s i r"
  using get_covers rec_covers scope_covers inval_covers by (cases op) fastforce+

lemma fold_inv: "inv s \<Longrightarrow> inv (fold run_op ops s)"
  by (induction ops arbitrary: s) (auto simp: run_op_inv)

lemma fold_covers:
  "inv s \<Longrightarrow> covers (fold run_op ops s) i r \<Longrightarrow> covers s i r \<or> (\<exists>op \<in> set ops. op_adds i r op)"
proof (induction ops arbitrary: s)
  case (Cons op ops)
  then show ?case using run_op_covers [of s op i r] run_op_inv [of s op] by fastforce
qed simp

text \<open>What is covered at the end of a run was added after the last invalidation of its identity.\<close>

lemma fold_covers_since:
  assumes "inv s" and "covers (fold run_op (before @ OpInvalidate i # later) s) i r"
  shows "\<exists>op \<in> set later. op_adds i r op"
proof -
  let ?s = "fold run_op before s"
  have "inv ?s" and "inv (inval i ?s)" using assms(1) by (simp_all add: fold_inv inv_inval)
  with assms(2) have "covers (inval i ?s) i r \<or> (\<exists>op \<in> set later. op_adds i r op)"
    using fold_covers [of "inval i ?s" later i r] by simp
  with inval_covers [OF \<open>inv ?s\<close>, of i i r] show ?thesis by blast
qed

lemma hit_after_run:
  assumes "inv s" and "fst (get n i r (fold run_op ops s)) = Some l"
  shows "covers s i r \<or> (\<exists>op \<in> set ops. op_adds i r op)"
  using assms fold_covers get_hit fold_inv by blast

end

section \<open>The invariant\<close>

definition covers :: "proof_cache \<Rightarrow> string \<Rightarrow> string \<Rightarrow> bool" where
  "covers c i r = (case map_of (pc_entries c) i of None \<Rightarrow> False | Some e \<Rightarrow> r \<in> set (pe_repos e))"

definition entry_wf :: "string \<Rightarrow> proof_entry \<Rightarrow> bool" where
  "entry_wf k e \<longleftrightarrow> pe_identity e = k \<and> distinct (pe_repos e) \<and> pe_repos e \<noteq> []"

definition all_zero :: "string \<Rightarrow> bool" where
  "all_zero b \<longleftrightarrow> list_all (\<lambda>x. x = CHR 0x00) b"

definition cache_wf :: "proof_cache \<Rightarrow> bool" where
  "cache_wf c \<longleftrightarrow> distinct (map fst (pc_entries c)) \<and> list_all (\<lambda>(k, e). entry_wf k e) (pc_entries c)
     \<and> list_all all_zero (pc_dropped c)"

definition within_capacity :: "proof_cache \<Rightarrow> bool" where
  "within_capacity c \<longleftrightarrow> int (length (pc_entries c)) \<le> max 0 (pc_max c)"

lemma fill_zero_all_zero [simp]: "all_zero (fill_zero b)"
  by (simp add: all_zero_def fill_zero_def list_all_iff)

lemma set_add_set [simp]: "set (set_add x xs) = insert x (set xs)"
  by (auto simp: set_add_def)

lemma set_add_distinct [simp]: "distinct (set_add x xs) = distinct xs"
  by (auto simp: set_add_def)

lemma set_add_not_Nil [simp]: "set_add x xs \<noteq> []"
  by (auto simp: set_add_def)

lemma entries_delete:
  "distinct (map fst xs) \<Longrightarrow> list_all (\<lambda>(k, e). P k e) xs \<Longrightarrow> list_all (\<lambda>(k, e). P k e) (AList.delete k0 xs)"
  by (auto simp: list_all_iff AList.delete_eq)

lemma entries_update:
  "list_all (\<lambda>(k, e). P k e) xs \<Longrightarrow> P k0 e0 \<Longrightarrow> list_all (\<lambda>(k, e). P k e) (AList.update k0 e0 xs)"
  by (induction xs) auto

lemma cache_wf_lookup: "cache_wf c \<Longrightarrow> map_of (pc_entries c) i = Some e \<Longrightarrow> entry_wf i e"
  by (auto simp: cache_wf_def list_all_iff dest!: map_of_SomeD)

lemma evict_max [simp]: "pc_max (evict i c) = pc_max c"
  by (simp add: evict_def split: option.split)

lemma evict_ttl [simp]: "pc_ttl (evict i c) = pc_ttl c"
  by (simp add: evict_def split: option.split)

lemma evict_entries: "pc_entries (evict i c) = AList.delete i (pc_entries c)"
  by (auto simp: evict_def delete_idem map_of_eq_None_iff split: option.split)

lemma evict_wf: "cache_wf c \<Longrightarrow> cache_wf (evict i c)"
  by (auto simp: cache_wf_def evict_entries entries_delete distinct_delete)
     (auto simp: evict_def split: option.split)

lemma evict_capacity: "within_capacity c \<Longrightarrow> within_capacity (evict i c)"
  using length_delete_le [of i "pc_entries c"] by (auto simp: within_capacity_def evict_entries)

lemma evict_covers: "covers (evict i c) i' r \<longleftrightarrow> i' \<noteq> i \<and> covers c i' r"
  by (auto simp: covers_def evict_entries delete_conv' split: option.split)

lemma enforce_capacity_preserves:
  assumes "\<And>c i. P c \<Longrightarrow> P (evict i c)" and "P c"
  shows "P (enforce_capacity c)"
  using assms(2)
proof (induction c rule: enforce_capacity.induct)
  case (1 c)
  have "P (enforce_capacity (evict lru c))"
    if "int (length (pc_entries c)) > pc_max c" "pc_entries c = (lru, e) # es" for lru e es
    using 1 that assms(1) by blast
  with 1(2) show ?case
    by (subst enforce_capacity.simps) (auto split: list.split simp del: length_Cons)
qed

lemma enforce_capacity_within: "within_capacity (enforce_capacity c)"
proof (induction c rule: enforce_capacity.induct)
  case (1 c)
  then show ?case
    by (subst enforce_capacity.simps) (auto simp: within_capacity_def split: list.split)
qed

lemma enforce_capacity_max [simp]: "pc_max (enforce_capacity c) = pc_max c"
  by (rule enforce_capacity_preserves [where P = "\<lambda>d. pc_max d = pc_max c"]) auto

lemma move_to_tail_wf:
  assumes "cache_wf c" and "entry_wf i e" and "list_all all_zero ds"
  shows "cache_wf (c\<lparr>pc_entries := AList.update i e (AList.delete i (pc_entries c)), pc_dropped := ds\<rparr>)"
  using assms by (simp add: cache_wf_def entries_update entries_delete distinct_keys_update distinct_delete)

lemma get_proof_wf: "cache_wf c \<Longrightarrow> cache_wf (snd (get_proof n i r c))"
proof -
  assume wf: "cache_wf c"
  have "cache_wf (c\<lparr>pc_entries := AList.update i e (AList.delete i (pc_entries c))\<rparr>)"
    if "map_of (pc_entries c) i = Some e" for e
    using move_to_tail_wf [OF wf cache_wf_lookup [OF wf that], of "pc_dropped c"] wf by (simp add: cache_wf_def)
  then show ?thesis using wf by (simp add: get_proof_def evict_wf split: option.split)
qed

lemma update_wf:
  assumes "cache_wf c" and "entry_wf i e"
  shows "cache_wf (c\<lparr>pc_entries := AList.update i e (pc_entries c)\<rparr>)"
  using assms by (simp add: cache_wf_def entries_update distinct_keys_update)

lemma record_proof_wf: "cache_wf c \<Longrightarrow> cache_wf (record_proof n i r b c)"
proof (cases "map_of (pc_entries c) i")
  case None
  assume "cache_wf c"
  with None show ?thesis
    by (auto simp: record_proof_def Let_def entry_wf_def intro!: enforce_capacity_preserves [of cache_wf] evict_wf update_wf)
next
  case (Some e)
  assume wf: "cache_wf c"
  have "entry_wf i (e\<lparr>pe_repos := set_add r (pe_repos e), pe_bearer := b, pe_expires_at := n + pc_ttl c\<rparr>)"
    using cache_wf_lookup [OF wf Some] by (simp add: entry_wf_def)
  moreover have "list_all all_zero (fill_zero (pe_bearer e) # pc_dropped c)"
    using wf by (simp add: cache_wf_def)
  ultimately show ?thesis using move_to_tail_wf [OF wf] Some by (simp add: record_proof_def Let_def)
qed

lemma record_scope_wf: "cache_wf c \<Longrightarrow> cache_wf (record_scope i r c)"
  using cache_wf_lookup [of c i] by (auto simp: record_scope_def entry_wf_def intro: update_wf split: option.split)

lemma length_move_to_tail:
  "map_of xs i = Some e \<Longrightarrow> length (AList.update i e' (AList.delete i xs)) \<le> length xs"
proof -
  assume "map_of xs i = Some e"
  then have "length (AList.delete i xs) < length xs"
    by (induction xs) (auto simp: less_Suc_eq_le length_delete_le split: if_splits)
  moreover have "length (AList.update i e' ys) \<le> Suc (length ys)" for ys
    by (induction ys) auto
  ultimately show ?thesis using Suc_leI le_trans by blast
qed

lemma length_update_same: "map_of xs i = Some e \<Longrightarrow> length (AList.update i e' xs) = length xs"
  by (induction xs) (auto split: if_splits)

lemma within_move_to_tail:
  assumes "within_capacity c" and "map_of (pc_entries c) i = Some e"
  shows "within_capacity (c\<lparr>pc_entries := AList.update i e' (AList.delete i (pc_entries c)), pc_dropped := ds\<rparr>)"
proof -
  from length_move_to_tail [OF assms(2), of e']
  have "int (length (AList.update i e' (AList.delete i (pc_entries c)))) \<le> int (length (pc_entries c))" by simp
  with assms(1) show ?thesis by (simp add: within_capacity_def)
qed

lemma get_proof_within: "within_capacity c \<Longrightarrow> within_capacity (snd (get_proof n i r c))"
  using within_move_to_tail [of c i _ "pc_dropped c"] evict_capacity [of c i]
  by (simp add: get_proof_def within_capacity_def split: option.split)

lemma record_proof_within: "within_capacity c \<Longrightarrow> within_capacity (record_proof n i r b c)"
  using within_move_to_tail [of c i]
  by (simp add: record_proof_def Let_def enforce_capacity_within split: option.split)

lemma record_scope_within: "within_capacity c \<Longrightarrow> within_capacity (record_scope i r c)"
  by (auto simp: record_scope_def within_capacity_def length_update_same split: option.split)

lemma enforce_covers: "covers (enforce_capacity c) i r \<Longrightarrow> covers c i r"
  using enforce_capacity_preserves [of "\<lambda>d. covers d i r \<longrightarrow> covers c i r" c] by (simp add: evict_covers)

lemma covers_update:
  "covers (c\<lparr>pc_entries := AList.update i e (pc_entries c)\<rparr>) i' r' \<longleftrightarrow>
     (if i' = i then r' \<in> set (pe_repos e) else covers c i' r')"
  by (simp add: covers_def update_conv')

section \<open>The model provides the interface\<close>

definition proof_cache_inv :: "proof_cache \<Rightarrow> bool" where
  "proof_cache_inv c \<longleftrightarrow> cache_wf c \<and> within_capacity c"

lemma get_proof_hit: "fst (get_proof n i r c) = Some l \<Longrightarrow> covers c i r"
  by (auto simp: get_proof_def covers_def split: option.splits if_splits)

lemma get_proof_covers: "covers (snd (get_proof n i r c)) i' r' \<Longrightarrow> covers c i' r'"
  by (auto simp: get_proof_def evict_covers split: option.splits if_splits)
     (auto simp: covers_def update_conv' delete_conv' split: if_splits)

lemma record_proof_covers: "covers (record_proof n i r b c) i' r' \<Longrightarrow> i' = i \<and> r' = r \<or> covers c i' r'"
proof (cases "map_of (pc_entries c) i")
  case None
  assume "covers (record_proof n i r b c) i' r'"
  with None show ?thesis
    by (auto simp: record_proof_def Let_def covers_update split: if_splits dest: enforce_covers)
next
  case (Some e)
  assume "covers (record_proof n i r b c) i' r'"
  with Some show ?thesis
    by (auto simp: record_proof_def Let_def covers_def update_conv' delete_conv' split: if_splits)
qed

lemma record_scope_covers: "covers (record_scope i r c) i' r' \<Longrightarrow> i' = i \<and> r' = r \<or> covers c i' r'"
  by (auto simp: record_scope_def covers_def update_conv' split: option.splits if_splits)

interpretation pstore: proof_store get_proof record_proof record_scope invalidate covers proof_cache_inv
  by unfold_locales
    (auto simp: proof_cache_inv_def invalidate_def evict_covers get_proof_wf record_proof_wf record_scope_wf evict_wf
      get_proof_within record_proof_within record_scope_within evict_capacity
      dest: get_proof_hit get_proof_covers record_proof_covers record_scope_covers)

lemma new_proof_cache_inv: "proof_cache_inv (new_proof_cache ttl mx)"
  by (simp add: proof_cache_inv_def new_proof_cache_def cache_wf_def within_capacity_def)

lemma new_proof_cache_covers [simp]: "\<not> covers (new_proof_cache ttl mx) i r"
  by (simp add: covers_def new_proof_cache_def)


section \<open>Lookups in time, eviction in order\<close>

lemma enforce_capacity_id: "int (length (pc_entries c)) \<le> pc_max c \<Longrightarrow> enforce_capacity c = c"
  by (subst enforce_capacity.simps) simp

lemma update_new: "i \<notin> fst ` set xs \<Longrightarrow> AList.update i e xs = xs @ [(i, e)]"
  by (induction xs) auto

lemma delete_head: "k \<notin> fst ` set xs \<Longrightarrow> AList.delete k ((k, e) # xs) = xs"
  by (force simp: AList.delete_eq filter_id_conv)

lemma enforce_capacity_over_by_one:
  assumes "pc_entries c = (k, e) # es" and "k \<notin> fst ` set es" and "int (length es) = pc_max c"
  shows "enforce_capacity c = evict k c" and "pc_entries (evict k c) = es"
proof -
  show es: "pc_entries (evict k c) = es"
    using assms(1,2) by (simp add: evict_entries delete_head del: AList.delete_simps)
  show "enforce_capacity c = evict k c"
    using assms es by (subst enforce_capacity.simps) (simp add: enforce_capacity_id)
qed

text \<open>With room for at least one entry the entry just recorded is the last to go.\<close>

lemma enforce_capacity_keeps_last:
  "pc_max c \<ge> 1 \<Longrightarrow> distinct (map fst (pc_entries c)) \<Longrightarrow> pc_entries c = xs @ [(i, e)] \<Longrightarrow>
     \<exists>ys. pc_entries (enforce_capacity c) = ys @ [(i, e)] \<and> distinct (map fst (ys @ [(i, e)]))"
proof (induction c arbitrary: xs rule: enforce_capacity.induct)
  case (1 c)
  show ?case
  proof (cases "int (length (pc_entries c)) > pc_max c")
    case True
    then obtain k e' xs' where xs: "xs = (k, e') # xs'" using 1(2,4) by (cases xs) auto
    then have ents: "pc_entries c = (k, e') # (xs' @ [(i, e)])" using 1(4) by simp
    then have fresh: "k \<notin> fst ` set (xs' @ [(i, e)])" using 1(3) by auto
    have ev: "pc_entries (evict k c) = xs' @ [(i, e)]"
      by (simp only: evict_entries ents delete_head [OF fresh])
    have "\<exists>ys. pc_entries (enforce_capacity (evict k c)) = ys @ [(i, e)] \<and> distinct (map fst (ys @ [(i, e)]))"
      using 1(1) [OF True ents, of k e' xs'] 1(2,3) ev ents by simp
    moreover have "enforce_capacity c = enforce_capacity (evict k c)"
      using True by (subst enforce_capacity.simps) (simp add: ents)
    ultimately show ?thesis by simp
  next
    case False
    with 1(3,4) show ?thesis by (simp add: enforce_capacity_id)
  qed
qed

lemma enforce_capacity_ttl [simp]: "pc_ttl (enforce_capacity c) = pc_ttl c"
  by (rule enforce_capacity_preserves [where P = "\<lambda>d. pc_ttl d = pc_ttl c"]) auto

lemma record_proof_lookup:
  assumes "proof_cache_inv c" and "pc_max c \<ge> 1"
  shows "\<exists>e. map_of (pc_entries (record_proof n i r b c)) i = Some e \<and> pe_bearer e = b \<and> r \<in> set (pe_repos e)
           \<and> pe_expires_at e = n + pc_ttl c"
proof (cases "map_of (pc_entries c) i")
  case None
  let ?e = "\<lparr>pe_identity = i, pe_proven_at = n, pe_expires_at = n + pc_ttl c, pe_bearer = b, pe_repos = [r]\<rparr>"
  let ?c = "c\<lparr>pc_entries := AList.update i ?e (pc_entries c)\<rparr>"
  have fresh: "i \<notin> fst ` set (pc_entries c)" using None by (simp add: map_of_eq_None_iff)
  have "distinct (map fst (pc_entries ?c))"
    using assms(1) by (simp add: proof_cache_inv_def cache_wf_def distinct_keys_update)
  then obtain ys where ys: "pc_entries (enforce_capacity ?c) = ys @ [(i, ?e)]" "distinct (map fst (ys @ [(i, ?e)]))"
    using enforce_capacity_keeps_last [of ?c "pc_entries c" i ?e] assms(2) fresh by (auto simp: update_new)
  then have "map_of (pc_entries (enforce_capacity ?c)) i = Some ?e" by (simp add: map_of_eq_Some_iff del: map_of_append)
  with None show ?thesis by (simp add: record_proof_def Let_def)
next
  case (Some e)
  then show ?thesis by (auto simp: record_proof_def Let_def update_conv')
qed

section \<open>Properties\<close>



text \<open>
  In a well-formed cache with room for one entry, the bearer recorded for an identity is what a
  look-up of the recorded repository returns until the time to live has passed, and from then on
  the look-up misses and leaves no entry of the identity behind.
\<close>

theorem proof_cache_ttl:
  assumes "proof_cache_inv c" and "pc_max c \<ge> 1"
  shows "(if later < now + pc_ttl c
          then map_option pl_bearer (fst (get_proof later i r (record_proof now i r b c))) = Some b
          else fst (get_proof later i r (record_proof now i r b c)) = None
            \<and> \<not> covers (snd (get_proof later i r (record_proof now i r b c))) i r')"
  using record_proof_lookup [OF assms, of now i r b]
  by (auto simp: get_proof_def evict_covers)

theorem proof_cache_ttl_witness:
  "fst (get_proof 300000 ''id'' ''r'' (record_proof 0 ''id'' ''r'' ''b'' (new_proof_cache None None))) = None
   \<and> map_option pl_bearer (fst (get_proof 299999 ''id'' ''r'' (record_proof 0 ''id'' ''r'' ''b'' (new_proof_cache None None)))) = Some ''b''"
  using proof_cache_ttl [of "new_proof_cache None None" 300000 0 "''id''" "''r''" "''b''"]
    proof_cache_ttl [of "new_proof_cache None None" 299999 0 "''id''" "''r''" "''b''"]
  by (simp add: new_proof_cache_inv)
    (simp add: new_proof_cache_def DEFAULT_TTL_MS_def DEFAULT_MAX_ENTRIES_def)

text \<open>
  The cache is least-recently-used: a full cache that records a new identity drops exactly the
  entry at the head of its order, and a hit moves the entry it served to the tail.
\<close>

theorem proof_cache_lru:
  assumes "proof_cache_inv c" and "pc_entries c = (k, e) # es" and "int (length (pc_entries c)) = pc_max c"
    and "i \<notin> fst ` set (pc_entries c)" and "now < pe_expires_at e" and "q \<in> set (pe_repos e)"
  shows "map fst (pc_entries (record_proof now i r b c)) = map fst es @ [i]
    \<and> map fst (pc_entries (snd (get_proof now k q c))) = map fst es @ [k]
    \<and> map fst (pc_entries (record_proof now i r b (snd (get_proof now k q c)))) = tl (map fst es @ [k]) @ [i]"
proof -
  let ?e = "\<lparr>pe_identity = i, pe_proven_at = now, pe_expires_at = now + pc_ttl c, pe_bearer = b, pe_repos = [r]\<rparr>"
  have dist: "k \<notin> fst ` set es" "distinct (map fst es)" using assms(1,2) by (auto simp: proof_cache_inv_def cache_wf_def)
  have rec: "map fst (pc_entries (record_proof now i r b d)) = tl (map fst (pc_entries d)) @ [i]"
    if "i \<notin> fst ` set (pc_entries d)" "int (length (pc_entries d)) = pc_max d" "distinct (map fst (pc_entries d))"
      "pc_entries d = (k', e') # es'" for d k' e' es'
  proof -
    let ?e = "\<lparr>pe_identity = i, pe_proven_at = now, pe_expires_at = now + pc_ttl d, pe_bearer = b, pe_repos = [r]\<rparr>"
    let ?d = "d\<lparr>pc_entries := AList.update i ?e (pc_entries d)\<rparr>"
    have ents: "pc_entries ?d = (k', e') # (es' @ [(i, ?e)])" using that by (auto simp: update_new)
    have "k' \<notin> fst ` set (es' @ [(i, ?e)])" "int (length (es' @ [(i, ?e)])) = pc_max ?d" using that by auto
    from enforce_capacity_over_by_one [OF ents this]
    have "pc_entries (enforce_capacity ?d) = es' @ [(i, ?e)]" by simp
    moreover have "map_of (pc_entries d) i = None" using that(1) by (simp add: map_of_eq_None_iff)
    ultimately show ?thesis using that(4) by (simp add: record_proof_def Let_def)
  qed
  have hit: "snd (get_proof now k q c) = c\<lparr>pc_entries := es @ [(k, e)]\<rparr>"
    using assms(2,5,6) dist(1) delete_head [OF dist(1), of e]
    by (simp add: get_proof_def update_new del: AList.delete_simps)
  obtain k2 e2 es2 where rot: "es @ [(k, e)] = (k2, e2) # es2" by (cases "es @ [(k, e)]") auto
  have "map fst (pc_entries (record_proof now i r b (snd (get_proof now k q c)))) = tl (map fst es @ [k]) @ [i]"
  proof -
    let ?d = "c\<lparr>pc_entries := es @ [(k, e)]\<rparr>"
    have "i \<notin> fst ` set (pc_entries ?d)" "int (length (pc_entries ?d)) = pc_max ?d"
      "distinct (map fst (pc_entries ?d))"
      using assms(2-4) dist by auto
    moreover have "pc_entries ?d = (k2, e2) # es2" using rot by simp
    ultimately have "map fst (pc_entries (record_proof now i r b ?d)) = tl (map fst (pc_entries ?d)) @ [i]" by (rule rec)
    then show ?thesis by (simp add: hit)
  qed
  moreover have "map fst (pc_entries (record_proof now i r b c)) = map fst es @ [i]"
    using rec [of c k e es] assms(2-4) dist by auto
  ultimately show ?thesis using hit by simp
qed

theorem proof_cache_lru_witness:
  "let c = record_proof 1 ''b'' ''r'' ''B'' (record_proof 0 ''a'' ''r'' ''A'' (new_proof_cache (Some 100) (Some 2)))
   in map fst (pc_entries (record_proof 2 ''c'' ''r'' ''C'' c)) = [''b'', ''c'']"
proof -
  let ?c = "record_proof 1 ''b'' ''r'' ''B'' (record_proof 0 ''a'' ''r'' ''A'' (new_proof_cache (Some 100) (Some 2)))"
  let ?a = "\<lparr>pe_identity = ''a'', pe_proven_at = 0, pe_expires_at = 100, pe_bearer = ''A'', pe_repos = [''r'']\<rparr>"
  let ?b = "\<lparr>pe_identity = ''b'', pe_proven_at = 1, pe_expires_at = 101, pe_bearer = ''B'', pe_repos = [''r'']\<rparr>"
  have inv: "proof_cache_inv ?c" by (intro pstore.inv_rec new_proof_cache_inv)
  have ents: "pc_entries ?c = (''a'', ?a) # [(''b'', ?b)]" and mx: "pc_max ?c = 2"
    by (simp_all add: new_proof_cache_def record_proof_def enforce_capacity_id Let_def)
  from proof_cache_lru [OF inv ents, of "''c''" 2 "''r''" "''r''" "''C''"] ents mx show ?thesis by simp
qed

end
