(* ===== verification/Json.thy ===== *)
theory Json
  imports Js_Value
begin

text \<open>
  \<open>JSON.parse\<close> and \<open>JSON.stringify\<close>, as the wrap envelope, the retention map and the manifest
  copy use them. The parser takes fuel for its nesting and its element loops; twice the length
  of the text plus two always suffices for what the printer writes (\<open>json_roundtrip\<close>). An escape
  \<open>\uXXXX\<close> becomes the UTF-8 bytes of its code point, surrogate pairs combined. A repeated key
  keeps its first place and its last value.
\<close>

section \<open>Printing\<close>

definition hex_digit :: "nat \<Rightarrow> char" where
  "hex_digit d = (if d < 10 then char_of (48 + d) else char_of (87 + d))"

definition json_escape_char :: "char \<Rightarrow> string" where
  "json_escape_char c =
     (if c = CHR 0x22 then [CHR 0x5C, CHR 0x22]
      else if c = CHR 0x5C then [CHR 0x5C, CHR 0x5C]
      else if char_code c = 8 then [CHR 0x5C, CHR ''b'']
      else if char_code c = 9 then [CHR 0x5C, CHR ''t'']
      else if char_code c = 10 then [CHR 0x5C, CHR ''n'']
      else if char_code c = 12 then [CHR 0x5C, CHR ''f'']
      else if char_code c = 13 then [CHR 0x5C, CHR ''r'']
      else if char_code c < 32 then
        [CHR 0x5C, CHR ''u'', CHR ''0'', CHR ''0'', hex_digit (char_code c div 16), hex_digit (char_code c mod 16)]
      else [c])"

definition json_quote :: "string \<Rightarrow> string" where
  "json_quote s = CHR 0x22 # concat (map json_escape_char s) @ [CHR 0x22]"

text \<open>Undefined properties are left out; an undefined element and a non-finite number print as null.\<close>

fun json_stringify :: "js \<Rightarrow> string" where
  "json_stringify JUndef = ''null''"
| "json_stringify JNull = ''null''"
| "json_stringify (JBool b) = (if b then ''true'' else ''false'')"
| "json_stringify (JNum n) = (case n of Fin _ \<Rightarrow> num_to_string n | _ \<Rightarrow> ''null'')"
| "json_stringify (JStr s) = json_quote s"
| "json_stringify (JArr vs) = ''['' @ join_with '','' (map json_stringify vs) @ '']''"
| "json_stringify (JObj ps) =
     ''{'' @ join_with '','' (map (\<lambda>(k, v). json_quote k @ '':'' @ json_stringify v)
               (filter (\<lambda>(k, v). v \<noteq> JUndef) ps)) @ ''}''"

section \<open>Parsing\<close>

definition json_ws :: "char \<Rightarrow> bool" where
  "json_ws c \<longleftrightarrow> char_code c \<in> {9, 10, 13, 32}"

definition hex4 :: "char \<Rightarrow> char \<Rightarrow> char \<Rightarrow> char \<Rightarrow> nat option" where
  "hex4 a b c d =
     (case (radix_digit 16 a, radix_digit 16 b, radix_digit 16 c, radix_digit 16 d) of
        (Some w, Some x, Some y, Some z) \<Rightarrow> Some (((w * 16 + x) * 16 + y) * 16 + z)
      | _ \<Rightarrow> None)"

definition utf8_encode :: "nat \<Rightarrow> string" where
  "utf8_encode n =
     (if n < 128 then [char_of n]
      else if n < 2048 then [char_of (192 + n div 64), char_of (128 + n mod 64)]
      else if n < 65536 then
        [char_of (224 + n div 4096), char_of (128 + n div 64 mod 64), char_of (128 + n mod 64)]
      else [char_of (240 + n div 262144), char_of (128 + n div 4096 mod 64),
            char_of (128 + n div 64 mod 64), char_of (128 + n mod 64)])"

definition simple_escape :: "char \<Rightarrow> char option" where
  "simple_escape e =
     (if e = CHR 0x22 \<or> e = CHR 0x5C \<or> e = CHR ''/'' then Some e
      else if e = CHR ''b'' then Some (char_of (8 :: nat))
      else if e = CHR ''f'' then Some (char_of (12 :: nat))
      else if e = CHR ''n'' then Some (char_of (10 :: nat))
      else if e = CHR ''r'' then Some (char_of (13 :: nat))
      else if e = CHR ''t'' then Some (char_of (9 :: nat)) else None)"

text \<open>The body of a string literal up to its closing quote: the text and what follows.\<close>

definition prepend :: "string \<Rightarrow> (string \<times> string) option \<Rightarrow> (string \<times> string) option" where
  "prepend w r = (case r of None \<Rightarrow> None | Some (t, rest) \<Rightarrow> Some (w @ t, rest))"

definition surrogate_pair :: "nat \<Rightarrow> nat \<Rightarrow> bool" where
  "surrogate_pair hi lo \<longleftrightarrow> 55296 \<le> hi \<and> hi < 56320 \<and> 56320 \<le> lo \<and> lo < 57344"

fun parse_str :: "nat \<Rightarrow> string \<Rightarrow> (string \<times> string) option" where
  "parse_str 0 s = None"
| "parse_str (Suc n) [] = None"
| "parse_str (Suc n) (x # xs) =
     (if x = CHR 0x22 then Some ([], xs)
      else if x = CHR 0x5C then
        (case xs of
           [] \<Rightarrow> None
         | e # ys \<Rightarrow>
             (if e = CHR ''u'' then
                (case ys of
                   a # b # c # d # zs \<Rightarrow>
                     (case hex4 a b c d of
                        None \<Rightarrow> None
                      | Some hi \<Rightarrow>
                          (case zs of
                             q # u # a' # b' # c' # d' # rs \<Rightarrow>
                               (case hex4 a' b' c' d' of
                                  Some lo \<Rightarrow>
                                    (if q = CHR 0x5C \<and> u = CHR ''u'' \<and> surrogate_pair hi lo
                                     then prepend (utf8_encode (65536 + (hi - 55296) * 1024 + (lo - 56320))) (parse_str n rs)
                                     else prepend (utf8_encode hi) (parse_str n zs))
                                | None \<Rightarrow> prepend (utf8_encode hi) (parse_str n zs))
                           | _ \<Rightarrow> prepend (utf8_encode hi) (parse_str n zs)))
                 | _ \<Rightarrow> None)
              else (case simple_escape e of None \<Rightarrow> None | Some w \<Rightarrow> prepend [w] (parse_str n ys))))
      else if char_code x < 32 then None
      else prepend [x] (parse_str n xs))"

definition json_number :: "string \<Rightarrow> (js \<times> string) option" where
  "json_number s =
     (let neg = starts_with ''-'' s; u = (if neg then tl s else s);
          ip = takeWhile is_digit u; s1 = dropWhile is_digit u;
          bad_dot = (starts_with ''.'' s1 \<and> takeWhile is_digit (tl s1) = [])
      in if ip = [] \<or> (hd ip = CHR ''0'' \<and> 1 < length ip) \<or> bad_dot then None
         else (case parse_decimal u of None \<Rightarrow> None
               | Some (q, rest) \<Rightarrow> Some (JNum (num_of_rat (if neg then - q else q)), rest)))"

fun parse_value :: "nat \<Rightarrow> string \<Rightarrow> (js \<times> string) option"
and parse_elems :: "nat \<Rightarrow> string \<Rightarrow> (js list \<times> string) option"
and parse_members :: "nat \<Rightarrow> string \<Rightarrow> ((string \<times> js) list \<times> string) option" where
  "parse_value 0 s = None"
| "parse_value (Suc n) s =
     (let t = dropWhile json_ws s in
      if starts_with ''null'' t then Some (JNull, drop 4 t)
      else if starts_with ''true'' t then Some (JBool True, drop 4 t)
      else if starts_with ''false'' t then Some (JBool False, drop 5 t)
      else case t of
        [] \<Rightarrow> None
      | x # xs \<Rightarrow>
          (if x = CHR 0x22 then
             (case parse_str (Suc (length xs)) xs of None \<Rightarrow> None | Some (w, rest) \<Rightarrow> Some (JStr w, rest))
           else if x = CHR ''['' then
             (let ys = dropWhile json_ws xs in
              if starts_with '']'' ys then Some (JArr [], tl ys)
              else (case parse_elems n ys of None \<Rightarrow> None | Some (vs, rest) \<Rightarrow> Some (JArr vs, rest)))
           else if x = CHR ''{'' then
             (let ys = dropWhile json_ws xs in
              if starts_with ''}'' ys then Some (JObj [], tl ys)
              else (case parse_members n ys of None \<Rightarrow> None
                    | Some (ps, rest) \<Rightarrow>
                        Some (JObj (fold (\<lambda>(k, v) m. AList.update k v m) ps []), rest)))
           else json_number t))"
| "parse_elems 0 s = None"
| "parse_elems (Suc n) s =
     (case parse_value n s of None \<Rightarrow> None
      | Some (v, rest) \<Rightarrow>
          (case dropWhile json_ws rest of
             [] \<Rightarrow> None
           | x # xs \<Rightarrow>
               (if x = CHR '']'' then Some ([v], xs)
                else if x = CHR '','' then
                  (case parse_elems n xs of None \<Rightarrow> None | Some (vs, r) \<Rightarrow> Some (v # vs, r))
                else None)))"
| "parse_members 0 s = None"
| "parse_members (Suc n) s =
     (case dropWhile json_ws s of
        [] \<Rightarrow> None
      | q # ks \<Rightarrow>
          (if q \<noteq> CHR 0x22 then None
           else (case parse_str (Suc (length ks)) ks of None \<Rightarrow> None
             | Some (k, r1) \<Rightarrow>
                 (case dropWhile json_ws r1 of
                    [] \<Rightarrow> None
                  | c # r2 \<Rightarrow>
                      (if c \<noteq> CHR '':'' then None
                       else (case parse_value n r2 of None \<Rightarrow> None
                         | Some (v, r3) \<Rightarrow>
                             (case dropWhile json_ws r3 of
                                [] \<Rightarrow> None
                              | x # xs \<Rightarrow>
                                  (if x = CHR ''}'' then Some ([(k, v)], xs)
                                   else if x = CHR '','' then
                                     (case parse_members n xs of None \<Rightarrow> None
                                      | Some (ps, r) \<Rightarrow> Some ((k, v) # ps, r))
                                   else None))))))))"

definition json_parse :: "string \<Rightarrow> js option" where
  "json_parse s =
     (case parse_value (2 * length s + 2) s of None \<Rightarrow> None
      | Some (v, rest) \<Rightarrow> if dropWhile json_ws rest = [] then Some v else None)"

section \<open>The parser reads what the printer writes\<close>

lemma radix_digit_hex_digit: "d < 16 \<Longrightarrow> radix_digit 16 (hex_digit d) = Some d"
  by (auto simp: radix_digit_def hex_digit_def is_digit_def is_lower_def is_upper_def digit_val_def Let_def)

lemma parse_str_escape_char:
  "parse_str (Suc n) (json_escape_char c @ rest) = prepend [c] (parse_str n rest)"
proof -
  have simple: ?thesis if "json_escape_char c = [CHR 0x5C, e]" "e \<noteq> CHR ''u''" "simple_escape e = Some c" for e
    using that by simp
  consider "c = CHR 0x22" | "c = CHR 0x5C" | "char_code c = (8 :: nat)" | "char_code c = (9 :: nat)"
    | "char_code c = (10 :: nat)" | "char_code c = (12 :: nat)" | "char_code c = (13 :: nat)"
    | (ctl) "char_code c < (32 :: nat)" "char_code c \<notin> {8, 9, 10, 12, 13 :: nat}"
    | (plain) "char_code c \<ge> (32 :: nat)" "c \<noteq> CHR 0x22" "c \<noteq> CHR 0x5C"
    by fastforce
  then show ?thesis
  proof cases
    case ctl
    then have ne: "c \<noteq> CHR 0x22" "c \<noteq> CHR 0x5C" by auto
    have small: "char_code c div 16 < (16 :: nat)" using ctl(1) by simp
    have e: "json_escape_char c = [CHR 0x5C, CHR ''u'', CHR ''0'', CHR ''0'',
        hex_digit (char_code c div 16), hex_digit (char_code c mod 16)]"
      using ctl ne by (simp add: json_escape_char_def)
    have z: "radix_digit 16 CHR ''0'' = Some 0" by (simp add: radix_digit_def is_digit_def digit_val_def)
    have hex: "hex4 CHR ''0'' CHR ''0'' (hex_digit (char_code c div 16)) (hex_digit (char_code c mod 16))
        = Some (char_code c)"
      using small by (simp add: hex4_def z radix_digit_hex_digit)
    have nosur: "\<not> surrogate_pair (char_code c) lo" for lo
      using ctl(1) by (simp add: surrogate_pair_def)
    have enc: "utf8_encode (char_code c) = [c]" using ctl(1) by (simp add: utf8_encode_def)
    show ?thesis
      unfolding e by (simp add: hex nosur enc split: list.split option.split)
  next
    case plain
    then have "json_escape_char c = [c]" by (auto simp: json_escape_char_def)
    with plain show ?thesis by simp
  qed (auto intro!: simple simp: json_escape_char_def simple_escape_def
        simp del: of_char_eq_iff dest!: arg_cong [where f = "char_of :: nat \<Rightarrow> char"])
qed

lemma json_escape_char_length: "1 \<le> length (json_escape_char c)"
  by (simp add: json_escape_char_def)

lemma parse_str_quote:
  "length s < n \<Longrightarrow> parse_str n (concat (map json_escape_char s) @ CHR 0x22 # rest) = Some (s, rest)"
proof (induction s arbitrary: n)
  case Nil
  then show ?case by (cases n) auto
next
  case (Cons c s)
  then obtain m where "n = Suc m" "length s < m" by (cases n) auto
  with Cons show ?case by (simp add: parse_str_escape_char prepend_def)
qed

lemma length_concat_escape: "length s \<le> length (concat (map json_escape_char s))"
  using json_escape_char_length by (induction s) (auto intro: order_trans add_mono)

text \<open>The values whose print the parser reads back: what the services put into JSON.\<close>

fun wf_json :: "js \<Rightarrow> bool" where
  "wf_json JUndef = False"
| "wf_json JNull = True"
| "wf_json (JBool _) = True"
| "wf_json (JNum n) = (\<exists>m. n = Fin (of_nat m) \<and> m < 2 ^ 53)"
| "wf_json (JStr _) = True"
| "wf_json (JArr vs) = (\<forall>v \<in> set vs. wf_json v)"
| "wf_json (JObj ps) = (distinct (map fst ps) \<and> (\<forall>p \<in> set ps. wf_json (snd p)))"

definition delimited :: "string \<Rightarrow> bool" where
  "delimited rest \<longleftrightarrow> rest = [] \<or> hd rest \<in> {CHR '','', CHR '']'', CHR ''}''}"

lemma nat_to_string_hd: "nat_to_string n = CHR ''0'' # xs \<Longrightarrow> xs = []"
proof (induction n arbitrary: xs rule: nat_to_string.induct)
  case (1 n)
  show ?case
  proof (cases "n < 10")
    case True
    with "1.prems" show ?thesis by (subst (asm) nat_to_string.simps) simp
  next
    case False
    with "1.prems" have eq: "nat_to_string (n div 10) @ [digit_char (n mod 10)] = CHR ''0'' # xs"
      by (subst (asm) nat_to_string.simps) simp
    then obtain ys where ys: "nat_to_string (n div 10) = CHR ''0'' # ys"
      by (metis append_eq_Cons_conv nat_to_string_nonempty)
    with "1.IH" False have "nat_to_string (n div 10) = [CHR ''0'']" by simp
    then have "n div 10 = 0" using digits_val_nat_to_string [of "n div 10"]
      by (simp add: digits_val_def digit_val_def)
    with False show ?thesis by simp
  qed
qed

lemma parse_decimal_nat:
  assumes "delimited rest"
  shows "parse_decimal (nat_to_string m @ rest) = Some (of_nat m, rest)"
proof -
  have dig: "\<forall>c \<in> set (nat_to_string m). is_digit c" using nat_to_string_digits by blast
  have r: "takeWhile is_digit rest = []" "dropWhile is_digit rest = rest"
    "\<not> starts_with ''.'' rest" "parse_exponent rest = (0, rest)"
    using assms
    by (cases rest; auto simp: delimited_def is_digit_def starts_with_def parse_exponent_def)+
  show ?thesis
    using dig r
    by (simp add: parse_decimal_def takeWhile_append2 dropWhile_append2 digits_val_nat_to_string pow10_def)
qed

lemma num_of_rat_small: "m < 2 ^ 53 \<Longrightarrow> num_of_rat (of_nat m) = Fin (of_nat m)"
proof -
  assume "m < 2 ^ 53"
  then have "(of_nat m :: rat) < of_nat (2 ^ 53)" by (rule of_nat_less_iff [THEN iffD2])
  then have "(of_nat m :: rat) < 2 ^ 53" by simp
  then show ?thesis by (simp add: num_of_rat_def)
qed

lemma json_number_nat:
  assumes "m < 2 ^ 53" and "delimited rest"
  shows "json_number (nat_to_string m @ rest) = Some (JNum (Fin (of_nat m)), rest)"
proof -
  let ?s = "nat_to_string m"
  have dig: "\<forall>c \<in> set ?s. is_digit c" using nat_to_string_digits by blast
  have r: "takeWhile is_digit rest = []" "dropWhile is_digit rest = rest" "\<not> starts_with ''.'' rest"
    using assms(2) by (cases rest; auto simp: delimited_def is_digit_def starts_with_def)+
  have "is_digit (hd ?s)" using dig by simp
  then have neg: "\<not> starts_with ''-'' (?s @ rest)"
    by (cases ?s) (auto simp: starts_with_def is_digit_def)
  have "\<not> (hd ?s = CHR ''0'' \<and> 1 < length ?s)"
    using nat_to_string_hd [of m] by (cases ?s) auto
  with neg dig r show ?thesis
    using parse_decimal_nat [OF assms(2), of m] num_of_rat_small [OF assms(1)]
    by (simp add: json_number_def Let_def takeWhile_append2 dropWhile_append2)
qed

lemma dropWhile_ws_id: "\<not> json_ws x \<Longrightarrow> dropWhile json_ws (x # xs) = x # xs"
  by simp

lemma json_ws_marks [simp]:
  "\<not> json_ws CHR 0x22" "\<not> json_ws CHR ''['' " "\<not> json_ws CHR ''{''" "\<not> json_ws CHR '']''"
  "\<not> json_ws CHR ''}''" "\<not> json_ws CHR '',''" "\<not> json_ws CHR '':''"
  "\<not> json_ws CHR ''n''" "\<not> json_ws CHR ''t''" "\<not> json_ws CHR ''f''"
  by (simp_all add: json_ws_def)

lemma is_digit_not_json_ws: "is_digit c \<Longrightarrow> \<not> json_ws c"
  by (auto simp: is_digit_def json_ws_def)

text \<open>A printed value starts with a character that is neither white space nor a closing mark.\<close>

lemma json_stringify_hd:
  assumes "wf_json v"
  obtains x xs where "json_stringify v = x # xs" and "\<not> json_ws x"
    and "x \<noteq> CHR '']''" and "x \<noteq> CHR ''}''"
proof (cases v)
  case (JNum n)
  with assms obtain m where m: "json_stringify v = nat_to_string m"
    by (auto simp: num_to_string_def int_to_string_def)
  moreover have "is_digit (hd (nat_to_string m))"
    using nat_to_string_digits [of "hd (nat_to_string m)" m] by simp
  moreover obtain x xs where x: "nat_to_string m = x # xs" by (meson list.exhaust nat_to_string_nonempty)
  ultimately have "json_stringify v = x # xs" and d: "is_digit x" by simp_all
  moreover from d have "x \<noteq> CHR '']''" and "x \<noteq> CHR ''}''" by (auto simp: is_digit_def)
  ultimately show thesis using that is_digit_not_json_ws by blast
next
  case (JBool b)
  with that show thesis by (cases b) auto
qed (use assms that in \<open>auto simp: json_quote_def\<close>)

lemma fold_update_distinct:
  "distinct (map fst (m @ ps)) \<Longrightarrow> fold (\<lambda>(k, v) m. AList.update k v m) ps m = m @ ps"
proof (induction ps arbitrary: m)
  case (Cons p ps)
  obtain k v where p: "p = (k, v)" by force
  have "AList.update k v m = m @ [(k, v)]"
    using Cons.prems p by (induction m) auto
  with Cons p show ?case by simp
qed simp


text \<open>What one value needs, as a predicate, so that the list loops can be proved over it.\<close>

definition reads_back :: "js \<Rightarrow> bool" where
  "reads_back v \<longleftrightarrow> (\<forall>n rest. delimited rest \<longrightarrow> 2 * length (json_stringify v) \<le> n \<longrightarrow>
     parse_value n (json_stringify v @ rest) = Some (v, rest))"

lemma reads_backD:
  "reads_back v \<Longrightarrow> delimited rest \<Longrightarrow> 2 * length (json_stringify v) \<le> n \<Longrightarrow>
     parse_value n (json_stringify v @ rest) = Some (v, rest)"
  by (simp add: reads_back_def)

lemma delimited_marks [simp]: "delimited (CHR '','' # r)" "delimited (CHR '']'' # r)" "delimited (CHR ''}'' # r)"
  by (simp_all add: delimited_def)

lemma parse_elems_print:
  assumes "\<forall>v \<in> set vs. reads_back v" and "vs \<noteq> []"
    and "2 * length (join_with '','' (map json_stringify vs)) + 1 \<le> n"
  shows "parse_elems n (join_with '','' (map json_stringify vs) @ CHR '']'' # rest) = Some (vs, rest)"
  using assms
proof (induction vs arbitrary: n rule: induct_list012)
  case (2 v)
  then obtain m where n: "n = Suc m" "2 * length (json_stringify v) \<le> m" by (cases n) auto
  then have "parse_value m (json_stringify v @ CHR '']'' # rest) = Some (v, CHR '']'' # rest)"
    using 2 by (intro reads_backD) auto
  with n show ?case by simp
next
  case (3 v w vs)
  let ?tail = "join_with '','' (map json_stringify (w # vs)) @ CHR '']'' # rest"
  from "3.prems" obtain m where n: "n = Suc m" "2 * length (json_stringify v) \<le> m"
      "2 * length (join_with '','' (map json_stringify (w # vs))) + 1 \<le> m"
    by (cases n) auto
  then have "parse_value m (json_stringify v @ CHR '','' # ?tail) = Some (v, CHR '','' # ?tail)"
    using "3.prems" by (intro reads_backD) auto
  moreover have "parse_elems m ?tail = Some (w # vs, rest)"
    by (rule "3.IH"(2)) (use "3.prems" n in auto)
  ultimately show ?case using n by simp
qed simp

definition member_text :: "string \<times> js \<Rightarrow> string" where
  "member_text p = json_quote (fst p) @ '':'' @ json_stringify (snd p)"

lemma parse_member_print:
  assumes "reads_back v" and "2 * length (member_text (k, v)) \<le> n" and "delimited rest"
  obtains ks where "member_text (k, v) @ rest = CHR 0x22 # ks"
    and "parse_str (Suc (length ks)) ks = Some (k, CHR '':'' # json_stringify v @ rest)"
    and "parse_value n (json_stringify v @ rest) = Some (v, rest)"
proof -
  let ?ks = "concat (map json_escape_char k) @ CHR 0x22 # CHR '':'' # json_stringify v @ rest"
  have "parse_str (Suc (length ?ks)) ?ks = Some (k, CHR '':'' # json_stringify v @ rest)"
    using length_concat_escape [of k] by (intro parse_str_quote) simp
  moreover have "parse_value n (json_stringify v @ rest) = Some (v, rest)"
    using assms by (intro reads_backD) (auto simp: member_text_def)
  ultimately show thesis
    using that [of ?ks] by (simp add: member_text_def json_quote_def)
qed

lemma parse_members_print:
  assumes "\<forall>p \<in> set ps. reads_back (snd p)" and "ps \<noteq> []"
    and "2 * length (join_with '','' (map member_text ps)) + 1 \<le> n"
  shows "parse_members n (join_with '','' (map member_text ps) @ CHR ''}'' # rest) = Some (ps, rest)"
  using assms
proof (induction ps arbitrary: n rule: induct_list012)
  case (2 p)
  obtain k v where p: "p = (k, v)" by force
  with 2 obtain m where n: "n = Suc m" "2 * length (member_text (k, v)) \<le> m" by (cases n) auto
  have "reads_back v" using 2 p by simp
  then obtain ks where ks: "member_text (k, v) @ CHR ''}'' # rest = CHR 0x22 # ks"
      "parse_str (Suc (length ks)) ks = Some (k, CHR '':'' # json_stringify v @ CHR ''}'' # rest)"
      "parse_value m (json_stringify v @ CHR ''}'' # rest) = Some (v, CHR ''}'' # rest)"
    using n(2) by (rule parse_member_print [where rest = "CHR ''}'' # rest"]) simp_all
  have "join_with '','' (map member_text [p]) @ CHR ''}'' # rest = CHR 0x22 # ks"
    using ks(1) p by simp
  with ks(2,3) n(1) p show ?case by (simp del: map_eq_Cons_conv join_with.simps list.map)
next
  case (3 p q ps)
  obtain k v where p: "p = (k, v)" by force
  let ?tail = "join_with '','' (map member_text (q # ps)) @ CHR ''}'' # rest"
  from "3.prems" p obtain m where n: "n = Suc m" "2 * length (member_text (k, v)) \<le> m"
      "2 * length (join_with '','' (map member_text (q # ps))) + 1 \<le> m"
    by (cases n) auto
  have tail: "parse_members m ?tail = Some (q # ps, rest)"
    by (rule "3.IH"(2)) (use "3.prems" n in auto)
  have "reads_back v" using "3.prems" p by simp
  then obtain ks where ks: "member_text (k, v) @ CHR '','' # ?tail = CHR 0x22 # ks"
      "parse_str (Suc (length ks)) ks = Some (k, CHR '':'' # json_stringify v @ CHR '','' # ?tail)"
      "parse_value m (json_stringify v @ CHR '','' # ?tail) = Some (v, CHR '','' # ?tail)"
    using n(2) by (rule parse_member_print [where rest = "CHR '','' # ?tail"]) simp_all
  have "join_with '','' (map member_text (p # q # ps)) @ CHR ''}'' # rest = CHR 0x22 # ks"
    using ks(1) p by simp
  with ks(2,3) n(1) p tail show ?case by (simp del: join_with.simps list.map)
qed simp

lemma reads_backI:
  assumes "json_stringify v \<noteq> []"
    and "\<And>k rest. parse_value (Suc k) (json_stringify v @ rest) = Some (v, rest)"
  shows "reads_back v"
  unfolding reads_back_def
proof (intro allI impI)
  fix n rest
  assume "2 * length (json_stringify v) \<le> n"
  with assms(1) obtain k where "n = Suc k" by (cases n) auto
  with assms(2) show "parse_value n (json_stringify v @ rest) = Some (v, rest)" by simp
qed

lemma reads_back_wf: "wf_json v \<Longrightarrow> reads_back v"
proof (induction v)
  case (JNum x)
  then obtain m where m: "x = Fin (of_nat m)" "m < 2 ^ 53" by auto
  then have t: "json_stringify (JNum x) = nat_to_string m"
    by (simp add: num_to_string_def int_to_string_def)
  show ?case unfolding reads_back_def
  proof (intro allI impI)
    fix n rest assume d: "delimited rest" and "2 * length (json_stringify (JNum x)) \<le> n"
    then have "0 < n" using t nat_to_string_nonempty [of m] by (cases n) (simp_all del: json_stringify.simps)
    then obtain k where n: "n = Suc k" by (cases n) auto
    obtain y ys where y: "nat_to_string m = y # ys" by (meson list.exhaust nat_to_string_nonempty)
    have "is_digit y" using nat_to_string_digits [of y m] y by simp
    then have "\<not> json_ws y" "y \<noteq> CHR ''n''" "y \<noteq> CHR ''t''" "y \<noteq> CHR ''f''" "y \<noteq> CHR 0x22"
        "y \<noteq> CHR ''[''" "y \<noteq> CHR ''{''"
      using is_digit_not_json_ws by (auto simp: is_digit_def)
    with json_number_nat [OF m(2) d] m y n t
    show "parse_value n (json_stringify (JNum x) @ rest) = Some (JNum x, rest)"
      by (simp add: starts_with_def Let_def)
  qed
next
  case (JStr s)
  show ?case unfolding reads_back_def
  proof (intro allI impI)
    fix n rest assume "2 * length (json_stringify (JStr s)) \<le> n"
    then obtain k where n: "n = Suc k" by (cases n) (auto simp: json_quote_def)
    let ?xs = "concat (map json_escape_char s) @ CHR 0x22 # rest"
    have "parse_str (Suc (length ?xs)) ?xs = Some (s, rest)"
      using length_concat_escape [of s] by (intro parse_str_quote) simp
    with n show "parse_value n (json_stringify (JStr s) @ rest) = Some (JStr s, rest)"
      by (simp add: json_quote_def starts_with_def Let_def)
  qed
next
  case (JArr vs)
  then have all: "\<forall>v \<in> set vs. reads_back v" by simp
  show ?case unfolding reads_back_def
  proof (intro allI impI)
    fix n rest assume len: "2 * length (json_stringify (JArr vs)) \<le> n"
    then obtain k where n: "n = Suc k" by (cases n) auto
    show "parse_value n (json_stringify (JArr vs) @ rest) = Some (JArr vs, rest)"
    proof (cases vs)
      case Nil
      with n show ?thesis by (simp add: starts_with_def Let_def)
    next
      case (Cons v ws)
      from JArr.prems Cons have "wf_json v" by simp
      then obtain x xs where x: "json_stringify v = x # xs" "\<not> json_ws x" "x \<noteq> CHR '']''"
        by (rule json_stringify_hd)
      have shape: "\<exists>t. join_with '','' (map json_stringify vs) @ CHR '']'' # rest = x # t"
        using Cons x(1) by (cases ws) auto
      have "parse_elems k (join_with '','' (map json_stringify vs) @ CHR '']'' # rest) = Some (vs, rest)"
        by (rule parse_elems_print) (use all len n Cons in auto)
      with shape x n show ?thesis by (auto simp: starts_with_def Let_def)
    qed
  qed
next
  case (JObj ps)
  have all: "\<forall>p \<in> set ps. reads_back (snd p)"
    using JObj by (metis prod_set_simps(2) singletonI surjective_pairing wf_json.simps(7))
  have "\<forall>p \<in> set ps. snd p \<noteq> JUndef" using JObj.prems by auto
  then have "filter (\<lambda>(k, v). v \<noteq> JUndef) ps = ps" by (auto simp: filter_id_conv)
  then have t: "json_stringify (JObj ps) = ''{'' @ join_with '','' (map member_text ps) @ ''}''"
    by (simp add: member_text_def [abs_def] case_prod_beta')
  show ?case unfolding reads_back_def t
  proof (intro allI impI)
    fix n rest assume len: "2 * length (''{'' @ join_with '','' (map member_text ps) @ ''}'') \<le> n"
    then obtain k where n: "n = Suc k" by (cases n) auto
    show "parse_value n ((''{'' @ join_with '','' (map member_text ps) @ ''}'') @ rest) = Some (JObj ps, rest)"
    proof (cases ps)
      case Nil
      with n show ?thesis by (simp add: starts_with_def Let_def)
    next
      case (Cons p qs)
      have shape: "\<exists>t. join_with '','' (map member_text ps) @ CHR ''}'' # rest = CHR 0x22 # t"
        using Cons by (cases qs) (auto simp: member_text_def json_quote_def)
      have "parse_members k (join_with '','' (map member_text ps) @ CHR ''}'' # rest) = Some (ps, rest)"
        by (rule parse_members_print) (use all len n Cons in auto)
      moreover have "fold (\<lambda>(k, v) m. AList.update k v m) ps [] = ps"
        using fold_update_distinct [of "[]" ps] JObj.prems by simp
      ultimately show ?thesis using shape n by (auto simp: starts_with_def Let_def)
    qed
  qed
qed (auto intro!: reads_backI simp: starts_with_def Let_def split: if_splits)

lemma json_roundtrip: "wf_json v \<Longrightarrow> json_parse (json_stringify v) = Some v"
  using reads_backD [OF reads_back_wf, of v "[]" "2 * length (json_stringify v) + 2"]
  by (simp add: json_parse_def delimited_def)

end
