(* ===== verification/Codec.thy ===== *)
theory Codec
  imports Js_Value
begin

text \<open>
  The byte encodings of the standard library that the services use, over \<open>char\<close> as byte: Node's
  base64 (its decoder takes both alphabets, skips what is not in either and stops at the first
  padding sign), hexadecimal digests and \<open>encodeURIComponent\<close>. The bytes of a text are the text
  (see \<open>Prelude_JS\<close>); bytes that are not UTF-8, which \<open>toString('utf8')\<close> would replace, are kept.
\<close>

section \<open>base64\<close>

definition b64_char :: "bool \<Rightarrow> nat \<Rightarrow> char" where
  "b64_char url v =
     (if v < 26 then char_of (65 + v) else if v < 52 then char_of (71 + v)
      else if v < 62 then char_of (v - 4)
      else if v = 62 then (if url then CHR ''-'' else CHR ''+'')
      else (if url then CHR ''_'' else CHR ''/''))"

definition b64_val :: "char \<Rightarrow> nat option" where
  "b64_val c =
     (if is_upper c then Some (char_code c - 65)
      else if is_lower c then Some (char_code c - 71)
      else if is_digit c then Some (char_code c + 4)
      else if c = CHR ''+'' \<or> c = CHR ''-'' then Some 62
      else if c = CHR ''/'' \<or> c = CHR ''_'' then Some 63 else None)"

text \<open>\<open>Buffer.toString('base64')\<close> pads, \<open>'base64url'\<close> does not.\<close>

fun b64_encode :: "bool \<Rightarrow> string \<Rightarrow> string" where
  "b64_encode url [] = []"
| "b64_encode url [a] =
     [b64_char url (char_code a div 4), b64_char url (char_code a mod 4 * 16)] @ (if url then [] else ''=='')"
| "b64_encode url [a, b] =
     [b64_char url (char_code a div 4), b64_char url (char_code a mod 4 * 16 + char_code b div 16),
      b64_char url (char_code b mod 16 * 4)] @ (if url then [] else ''='')"
| "b64_encode url (a # b # c # r) =
     b64_char url (char_code a div 4) # b64_char url (char_code a mod 4 * 16 + char_code b div 16)
     # b64_char url (char_code b mod 16 * 4 + char_code c div 64) # b64_char url (char_code c mod 64)
     # b64_encode url r"

fun b64_groups :: "nat list \<Rightarrow> string" where
  "b64_groups (a # b # c # d # r) =
     char_of (a * 4 + b div 16) # char_of (b mod 16 * 16 + c div 4) # char_of (c mod 4 * 64 + d) # b64_groups r"
| "b64_groups [a, b, c] = [char_of (a * 4 + b div 16), char_of (b mod 16 * 16 + c div 4)]"
| "b64_groups [a, b] = [char_of (a * 4 + b div 16)]"
| "b64_groups _ = []"

definition b64_decode :: "string \<Rightarrow> string" where
  "b64_decode s = b64_groups (List.map_filter b64_val (takeWhile (\<lambda>c. c \<noteq> CHR ''='') s))"

section \<open>Hexadecimal\<close>

definition hex_char :: "nat \<Rightarrow> char" where
  "hex_char d = (if d < 10 then char_of (48 + d) else char_of (87 + d))"

definition hex_encode :: "string \<Rightarrow> string" where
  "hex_encode s = concat (map (\<lambda>c. [hex_char (char_code c div 16), hex_char (char_code c mod 16)]) s)"

section \<open>encodeURIComponent\<close>

definition uri_unreserved :: "char \<Rightarrow> bool" where
  "uri_unreserved c \<longleftrightarrow> is_alnum c \<or> c \<in> set ''-_.!~*()'' \<or> char_code c = 39"

definition upper_hex_char :: "nat \<Rightarrow> char" where
  "upper_hex_char d = (if d < 10 then char_of (48 + d) else char_of (55 + d))"

definition percent :: "char \<Rightarrow> string" where
  "percent c = [CHR ''%'', upper_hex_char (char_code c div 16), upper_hex_char (char_code c mod 16)]"

definition encode_uri_component :: "string \<Rightarrow> string" where
  "encode_uri_component s = concat (map (\<lambda>c. if uri_unreserved c then [c] else percent c) s)"

text \<open>The reader's direction (what a URL parser does with a component).\<close>

fun decode_uri_component :: "string \<Rightarrow> string" where
  "decode_uri_component (p # h # l # r) =
     (if p = CHR ''%'' then
        (case (radix_digit 16 h, radix_digit 16 l) of
           (Some x, Some y) \<Rightarrow> char_of (16 * x + y) # decode_uri_component r
         | _ \<Rightarrow> p # decode_uri_component (h # l # r))
      else p # decode_uri_component (h # l # r))"
| "decode_uri_component s = s"

lemmas codec_defs [js_defs] =
  b64_char_def b64_val_def b64_decode_def hex_char_def hex_encode_def uri_unreserved_def
  upper_hex_char_def percent_def encode_uri_component_def

section \<open>Round trips\<close>

lemma b64_val_char: "v < 64 \<Longrightarrow> b64_val (b64_char url v) = Some v"
  by (auto simp: b64_val_def b64_char_def is_upper_def is_lower_def is_digit_def)

lemma b64_char_not_pad: "v < 64 \<Longrightarrow> b64_char url v \<noteq> CHR ''=''"
proof
  assume v: "v < 64" and "b64_char url v = CHR ''=''"
  then have "b64_val CHR ''='' = Some v" using b64_val_char [OF v, of url] by simp
  then show False by (simp add: b64_val_def is_upper_def is_lower_def is_digit_def)
qed

lemma code_lt: "char_code c < (256 :: nat)"
  by simp

text \<open>The three bytes behind four sextets.\<close>

lemma sextets:
  fixes a b c :: nat
  assumes "a < 256" and "b < 256" and "c < 256"
  shows "a div 4 < 64" and "a mod 4 * 16 + b div 16 < 64" and "b mod 16 * 4 + c div 64 < 64"
    and "a div 4 * 4 + (a mod 4 * 16 + b div 16) div 16 = a"
    and "(a mod 4 * 16 + b div 16) mod 16 * 16 + (b mod 16 * 4 + c div 64) div 4 = b"
    and "(b mod 16 * 4 + c div 64) mod 4 * 64 + c mod 64 = c"
proof -
  have a: "a div 4 < 64" and b: "b div 16 < 16" and c: "c div 64 < 4" using assms by linarith+
  have "a mod 4 < 4" "b mod 16 < 16" by simp_all
  with a b c show "a div 4 < 64" "a mod 4 * 16 + b div 16 < 64" "b mod 16 * 4 + c div 64 < 64"
    by linarith+
  have "(a mod 4 * 16 + b div 16) div 16 = a mod 4" using b by simp
  then show "a div 4 * 4 + (a mod 4 * 16 + b div 16) div 16 = a" by simp
  have "(a mod 4 * 16 + b div 16) mod 16 = b div 16" "(b mod 16 * 4 + c div 64) div 4 = b mod 16"
    using b c by simp_all
  then show "(a mod 4 * 16 + b div 16) mod 16 * 16 + (b mod 16 * 4 + c div 64) div 4 = b" by simp
  have "(b mod 16 * 4 + c div 64) mod 4 = c div 64" using c by simp
  then show "(b mod 16 * 4 + c div 64) mod 4 * 64 + c mod 64 = c" by simp
qed

definition sextet_list :: "string \<Rightarrow> nat list" where
  "sextet_list s = List.map_filter b64_val (takeWhile (\<lambda>c. c \<noteq> CHR ''='') s)"

lemma sextet_list_cons:
  "v < 64 \<Longrightarrow> sextet_list (b64_char url v # s) = v # sextet_list s"
  by (simp add: sextet_list_def b64_char_not_pad b64_val_char)

lemma sextet_list_pad: "sextet_list (CHR ''='' # s) = []" and sextet_list_nil: "sextet_list [] = []"
  by (simp_all add: sextet_list_def)

lemma b64_roundtrip: "b64_decode (b64_encode url s) = s"
proof -
  have "b64_groups (sextet_list (b64_encode url s)) = s"
  proof (induction url s rule: b64_encode.induct)
    case (2 url a)
    note x = sextets [OF code_lt [of a] code_lt [of a] code_lt [of a]]
    have "char_code a mod 4 * 16 < (64 :: nat)" by simp
    moreover have "char_code a div 4 * 4 + char_code a mod 4 * 16 div 16 = (char_code a :: nat)" by simp
    ultimately show ?case using x(1)
      by (simp add: sextet_list_cons sextet_list_pad sextet_list_nil)
  next
    case (3 url a b)
    note x = sextets [OF code_lt [of a] code_lt [of b], of 0, simplified]
    show ?case using x
      by (simp add: sextet_list_cons sextet_list_pad sextet_list_nil)
  next
    case (4 url a b c r)
    note x = sextets [OF code_lt [of a] code_lt [of b] code_lt [of c]]
    have "char_code c mod 64 < (64 :: nat)" by simp
    with 4 x show ?case by (simp add: sextet_list_cons)
  qed (simp add: sextet_list_nil)
  then show ?thesis by (simp add: b64_decode_def sextet_list_def)
qed

lemma upper_hex_char_digit: "d < 16 \<Longrightarrow> radix_digit 16 (upper_hex_char d) = Some d"
  by (auto simp: radix_digit_def upper_hex_char_def is_digit_def is_lower_def is_upper_def
      digit_val_def Let_def)

lemma decode_plain:
  assumes "c \<noteq> CHR ''%''"
  shows "decode_uri_component (c # s) = c # decode_uri_component s"
  using assms by (cases s; cases "tl s") auto

lemma decode_percent: "decode_uri_component (percent c @ s) = c # decode_uri_component s"
proof -
  have "char_code c div 16 < (16 :: nat)" using code_lt [of c] by linarith
  then show ?thesis by (simp add: percent_def upper_hex_char_digit)
qed

lemma uri_roundtrip: "decode_uri_component (encode_uri_component s) = s"
proof (induction s)
  case (Cons c s)
  show ?case
  proof (cases "uri_unreserved c")
    case True
    then have "c \<noteq> CHR ''%''" by (auto simp: uri_unreserved_def js_defs)
    with True Cons show ?thesis by (simp add: encode_uri_component_def decode_plain)
  next
    case False
    with Cons show ?thesis by (simp add: encode_uri_component_def decode_percent)
  qed
qed (simp add: encode_uri_component_def)

lemma encode_uri_component_inject:
  "encode_uri_component s = encode_uri_component t \<Longrightarrow> s = t"
  by (metis uri_roundtrip)

text \<open>An encoded component holds no delimiter of a URL.\<close>

lemma encode_uri_component_safe:
  assumes "c \<in> set (encode_uri_component s)"
  shows "uri_unreserved c \<or> c = CHR ''%''"
proof -
  have hex: "is_alnum (upper_hex_char d)" if "d < 16" for d
    using that by (auto simp: upper_hex_char_def is_alnum_def is_digit_def is_upper_def is_lower_def)
  from assms obtain x where "c \<in> set (if uri_unreserved x then [x] else percent x)"
    unfolding encode_uri_component_def set_concat set_map by blast
  moreover have "is_alnum (upper_hex_char (char_code x div 16))" "is_alnum (upper_hex_char (char_code x mod 16))"
    using code_lt [of x] by (intro hex; linarith)+
  ultimately show ?thesis
    by (auto simp: percent_def uri_unreserved_def split: if_splits)
qed

lemma hex_encode_length: "length (hex_encode s) = 2 * length s"
  by (induction s) (auto simp: hex_encode_def)

lemma hex_char_inject: "a < 16 \<Longrightarrow> b < 16 \<Longrightarrow> hex_char a = hex_char b \<Longrightarrow> a = b"
  by (auto simp: hex_char_def split: if_splits)

lemma hex_encode_inject: "hex_encode s = hex_encode t \<Longrightarrow> s = t"
proof (induction s arbitrary: t)
  case Nil
  then show ?case by (cases t) (auto simp: hex_encode_def)
next
  case (Cons a s)
  then obtain b u where t: "t = b # u" by (cases t) (auto simp: hex_encode_def)
  have lt: "char_code x div 16 < (16 :: nat)" for x :: char using code_lt [of x] by linarith
  from Cons.prems t have "hex_char (char_code a div 16) = hex_char (char_code b div 16)"
      "hex_char (char_code a mod 16) = hex_char (char_code b mod 16)" "hex_encode s = hex_encode u"
    by (auto simp: hex_encode_def)
  then have "char_code a div 16 = (char_code b div 16 :: nat)" "char_code a mod 16 = (char_code b mod 16 :: nat)"
    using hex_char_inject lt by auto
  then have "char_code a = (char_code b :: nat)" by (metis div_mult_mod_eq)
  with Cons t \<open>hex_encode s = hex_encode u\<close> show ?case by simp
qed

end
