(* ===== verification/Wrap.thy ===== *)
theory Wrap
  imports Json Codec
begin

text \<open>
  Wrapped upstream credentials, \<open>auth/src/upstreamAuth/wrap.ts\<close>: the key ring, the sealed
  envelope \<open>nonce || ciphertext || tag\<close>, and the identity under which proofs are cached.

  AES-256-GCM, SHA-256 and the random generator are Node's crypto library: the cipher is a pair
  of functions \<open>seal key nonce plaintext = (ciphertext, tag)\<close> and \<open>open_aead key nonce ciphertext tag\<close>
  (\<open>None\<close> is the exception of \<open>decipher.final()\<close>), the hash a function on bytes, the nonce an
  argument. The law used of the cipher is \<open>aead_law\<close>: what a key sealed it opens.
\<close>

definition AES_KEY_LEN :: nat where "AES_KEY_LEN = 32"
definition NONCE_LEN :: nat where "NONCE_LEN = 12"
definition TAG_LEN :: nat where "TAG_LEN = 16"
definition ENVELOPE_VERSION :: rat where "ENVELOPE_VERSION = 1"

lemmas wrap_constants [js_defs] = AES_KEY_LEN_def NONCE_LEN_def TAG_LEN_def ENVELOPE_VERSION_def

record upstream_credentials =
  uc_host :: string
  uc_username :: string
  uc_password :: string
  uc_scope :: string

record wrap_envelope =
  ev_v :: jsnum
  ev_ts :: jsnum
  ev_creds :: upstream_credentials

record wrap_key =
  wk_id :: string
  wk_bytes :: string

type_synonym wrap_key_ring = "wrap_key list"

type_synonym sealer = "string \<Rightarrow> string \<Rightarrow> string \<Rightarrow> string \<times> string"
type_synonym opener = "string \<Rightarrow> string \<Rightarrow> string \<Rightarrow> string \<Rightarrow> string option"

datatype wrap_code = InvalidFormat | UnknownKey | WrapExpired | BadEnvelope

datatype wrap_error = WrapError (wrap_message: string) (wrap_code: wrap_code)

definition wrap_code_text :: "wrap_code \<Rightarrow> string" where
  "wrap_code_text c = (case c of InvalidFormat \<Rightarrow> ''invalid_format'' | UnknownKey \<Rightarrow> ''unknown_key''
     | WrapExpired \<Rightarrow> ''expired'' | BadEnvelope \<Rightarrow> ''bad_envelope'')"

section \<open>The key ring\<close>

text \<open>Entry \<open>i\<close> of the list, \<open>None\<close> where the loop skips it.\<close>

definition parse_wrap_key :: "nat \<Rightarrow> string \<Rightarrow> wrap_key option" where
  "parse_wrap_key i entry =
     (let colon = index_of CHR '':'' entry;
          (id, b64) = (if colon > 0 \<and> colon < 16
                       then (slice 0 colon entry, slice_from (colon + 1) entry)
                       else (CHR ''k'' # nat_to_string i, entry));
          bytes = b64_decode b64
      in if length bytes \<noteq> AES_KEY_LEN then None else Some \<lparr>wk_id = id, wk_bytes = bytes\<rparr>)"

definition parse_wrap_key_ring :: "string option \<Rightarrow> wrap_key_ring" where
  "parse_wrap_key_ring raw =
     (case raw of None \<Rightarrow> []
      | Some r \<Rightarrow>
          (let entries = filter (\<lambda>e. length e > 0) (map trim (split_on (\<lambda>c. c = CHR '','') r))
           in List.map_filter (\<lambda>(i, e). parse_wrap_key i e) (List.enumerate 0 entries)))"

section \<open>Sealing\<close>

definition envelope_json :: "rat \<Rightarrow> rat \<Rightarrow> upstream_credentials \<Rightarrow> js" where
  "envelope_json v ts creds =
     JObj [(''v'', JNum (Fin v)), (''ts'', JNum (Fin ts)),
           (''creds'', JObj [(''upstreamHost'', JStr (uc_host creds)), (''username'', JStr (uc_username creds)),
                             (''password'', JStr (uc_password creds)), (''scope'', JStr (uc_scope creds))])]"

definition wrap :: "sealer \<Rightarrow> string \<Rightarrow> wrap_key_ring \<Rightarrow> upstream_credentials \<Rightarrow> nat \<Rightarrow> wrap_error + string" where
  "wrap seal nonce ring creds now =
     (case ring of
        [] \<Rightarrow> Inl (WrapError ''wrap key ring is empty'' UnknownKey)
      | key # _ \<Rightarrow>
          (let plaintext = json_stringify (envelope_json ENVELOPE_VERSION (of_nat now) creds);
               (ciphertext, tag) = seal (wk_bytes key) nonce plaintext
           in Inr (b64_encode True (nonce @ ciphertext @ tag))))"

section \<open>Opening\<close>

record unwrap_result =
  un_creds :: upstream_credentials
  un_wrapped_at :: jsnum
  un_age_ms :: jsnum
  un_key_id :: string

definition is_envelope :: "js \<Rightarrow> bool" where
  "is_envelope v =
     (let creds = js_prop v ''creds'' in
      (case js_prop v ''v'' of JNum _ \<Rightarrow> True | _ \<Rightarrow> False) \<and>
      (case js_prop v ''ts'' of JNum _ \<Rightarrow> True | _ \<Rightarrow> False) \<and>
      (case js_prop creds ''upstreamHost'' of JStr _ \<Rightarrow> True | _ \<Rightarrow> False) \<and>
      (case js_prop creds ''username'' of JStr _ \<Rightarrow> True | _ \<Rightarrow> False) \<and>
      (case js_prop creds ''password'' of JStr _ \<Rightarrow> True | _ \<Rightarrow> False) \<and>
      (case js_prop creds ''scope'' of JStr _ \<Rightarrow> True | _ \<Rightarrow> False))"

definition str_of :: "js \<Rightarrow> string" where
  "str_of v = (case v of JStr s \<Rightarrow> s | _ \<Rightarrow> [])"

definition num_of :: "js \<Rightarrow> jsnum" where
  "num_of v = (case v of JNum n \<Rightarrow> n | _ \<Rightarrow> NaN)"

definition envelope_of :: "js \<Rightarrow> wrap_envelope" where
  "envelope_of v =
     (let creds = js_prop v ''creds'' in
      \<lparr>ev_v = num_of (js_prop v ''v''), ev_ts = num_of (js_prop v ''ts''),
       ev_creds = \<lparr>uc_host = str_of (js_prop creds ''upstreamHost''),
                   uc_username = str_of (js_prop creds ''username''),
                   uc_password = str_of (js_prop creds ''password''),
                   uc_scope = str_of (js_prop creds ''scope'')\<rparr>\<rparr>)"

definition parse_envelope :: "string \<Rightarrow> wrap_error + wrap_envelope" where
  "parse_envelope plaintext =
     (case json_parse plaintext of
        None \<Rightarrow> Inl (WrapError ''decrypted envelope is not valid JSON'' BadEnvelope)
      | Some parsed \<Rightarrow>
          (if \<not> is_envelope parsed then Inl (WrapError ''decrypted envelope has wrong shape'' BadEnvelope)
           else if ev_v (envelope_of parsed) \<noteq> Fin ENVELOPE_VERSION then
             Inl (WrapError (''unsupported envelope version: '' @ num_to_string (ev_v (envelope_of parsed))) BadEnvelope)
           else Inr (envelope_of parsed)))"

text \<open>The loop over the ring: a key that fails to decrypt is passed over, a bad envelope is final.\<close>

fun try_keys :: "opener \<Rightarrow> nat \<Rightarrow> string \<Rightarrow> string \<Rightarrow> string \<Rightarrow> wrap_key_ring \<Rightarrow> wrap_error + unwrap_result" where
  "try_keys open_aead now nonce ciphertext tag [] =
     Inl (WrapError ''no key in ring could decrypt blob'' UnknownKey)"
| "try_keys open_aead now nonce ciphertext tag (key # ring) =
     (case open_aead (wk_bytes key) nonce ciphertext tag of
        None \<Rightarrow> try_keys open_aead now nonce ciphertext tag ring
      | Some plaintext \<Rightarrow>
          (case parse_envelope plaintext of
             Inl e \<Rightarrow> Inl e
           | Inr envelope \<Rightarrow>
               Inr \<lparr>un_creds = ev_creds envelope, un_wrapped_at = time_clip (ev_ts envelope),
                    un_age_ms = num_sub (Fin (of_nat now)) (ev_ts envelope), un_key_id = wk_id key\<rparr>))"

definition unwrap :: "opener \<Rightarrow> nat \<Rightarrow> wrap_key_ring \<Rightarrow> string \<Rightarrow> wrap_error + unwrap_result" where
  "unwrap open_aead now ring blob =
     (if ring = [] then Inl (WrapError ''wrap key ring is empty'' UnknownKey)
      else
        (let raw = b64_decode blob in
         if length raw < NONCE_LEN + TAG_LEN + 1 then
           Inl (WrapError (''blob too short: '' @ nat_to_string (length raw) @ '' bytes'') InvalidFormat)
         else
           (let nonce = take NONCE_LEN raw; tag = drop (length raw - TAG_LEN) raw;
                ciphertext = take (length raw - TAG_LEN - NONCE_LEN) (drop NONCE_LEN raw)
            in try_keys open_aead now nonce ciphertext tag ring)))"

section \<open>The credential identity\<close>

definition identity_text :: "upstream_credentials \<Rightarrow> string" where
  "identity_text creds = uc_host creds @ [CHR 0x00] @ uc_username creds @ [CHR 0x00] @ uc_password creds"

definition cred_identity :: "(string \<Rightarrow> string) \<Rightarrow> upstream_credentials \<Rightarrow> string" where
  "cred_identity sha256 creds = hex_encode (sha256 (identity_text creds))"

section \<open>Lemmas\<close>

definition aead_law :: "sealer \<Rightarrow> opener \<Rightarrow> bool" where
  "aead_law seal open_aead \<longleftrightarrow>
     (\<forall>k n p. length (snd (seal k n p)) = TAG_LEN \<and> length (fst (seal k n p)) = length p \<and>
        open_aead k n (fst (seal k n p)) (snd (seal k n p)) = Some p)"

lemma envelope_json_wf: "ts < 2 ^ 53 \<Longrightarrow> wf_json (envelope_json 1 (of_nat ts) creds)"
  by (auto simp: envelope_json_def intro: exI [of _ ts] exI [of _ 1])

lemma parse_envelope_of_json:
  "ts < 2 ^ 53 \<Longrightarrow> parse_envelope (json_stringify (envelope_json ENVELOPE_VERSION (of_nat ts) creds))
     = Inr \<lparr>ev_v = Fin 1, ev_ts = Fin (of_nat ts), ev_creds = creds\<rparr>"
  unfolding parse_envelope_def ENVELOPE_VERSION_def
  by (simp add: json_roundtrip envelope_json_wf)
     (simp add: envelope_json_def is_envelope_def envelope_of_def js_prop_def num_of_def str_of_def Let_def)

lemma json_stringify_envelope_nonempty: "0 < length (json_stringify (envelope_json v ts creds))"
  by (simp add: envelope_json_def)

lemma try_keys_skip:
  "\<forall>k \<in> set before. open_aead (wk_bytes k) nonce ct tag = None \<Longrightarrow>
     try_keys open_aead now nonce ct tag (before @ ring) = try_keys open_aead now nonce ct tag ring"
  by (induction before) auto

lemma time_clip_small: "ts < 2 ^ 52 \<Longrightarrow> time_clip (Fin (of_nat ts)) = Fin (of_nat ts)"
proof -
  assume "ts < 2 ^ 52"
  then have "(of_nat ts :: rat) < of_nat (2 ^ 52)" by (rule of_nat_less_iff [THEN iffD2])
  then have "(of_nat ts :: rat) < 2 ^ 52" by simp
  then show ?thesis by (simp add: time_clip_def trunc_rat_def)
qed

lemma append_sep_inject:
  "x @ c # s = y @ c # t \<Longrightarrow> c \<notin> set x \<Longrightarrow> c \<notin> set y \<Longrightarrow> x = y \<and> s = t"
proof (induction x arbitrary: y)
  case Nil
  then show ?case by (cases y) auto
next
  case (Cons a x)
  then show ?case by (cases y) auto
qed

lemma identity_text_inject:
  assumes "identity_text a = identity_text b"
    and "CHR 0x00 \<notin> set (uc_host a) \<union> set (uc_username a)"
    and "CHR 0x00 \<notin> set (uc_host b) \<union> set (uc_username b)"
  shows "uc_host a = uc_host b \<and> uc_username a = uc_username b \<and> uc_password a = uc_password b"
proof -
  note split = append_sep_inject [where c = "CHR 0x00"]
  have "uc_host a @ CHR 0x00 # (uc_username a @ CHR 0x00 # uc_password a)
      = uc_host b @ CHR 0x00 # (uc_username b @ CHR 0x00 # uc_password b)"
    using assms(1) by (simp add: identity_text_def)
  then have "uc_host a = uc_host b \<and>
      uc_username a @ CHR 0x00 # uc_password a = uc_username b @ CHR 0x00 # uc_password b"
    by (rule split) (use assms(2,3) in auto)
  moreover from this have "uc_username a = uc_username b \<and> uc_password a = uc_password b"
    by (intro split) (use assms(2,3) in auto)
  ultimately
  show ?thesis by simp
qed

lemma unwrap_after_rotation:
  assumes "aead_law seal open_aead" and "length nonce = NONCE_LEN" and "ts < 2 ^ 52"
    and "wrap seal nonce (key # ring) creds ts = Inr blob"
    and "\<forall>k \<in> set newer. open_aead (wk_bytes k) nonce
           (fst (seal (wk_bytes key) nonce (json_stringify (envelope_json ENVELOPE_VERSION (of_nat ts) creds))))
           (snd (seal (wk_bytes key) nonce (json_stringify (envelope_json ENVELOPE_VERSION (of_nat ts) creds)))) = None"
  shows "unwrap open_aead now (newer @ key # older) blob =
    Inr \<lparr>un_creds = creds, un_wrapped_at = Fin (of_nat ts),
         un_age_ms = Fin (of_nat now - of_nat ts), un_key_id = wk_id key\<rparr>"
proof -
  let ?p = "json_stringify (envelope_json ENVELOPE_VERSION (of_nat ts) creds)"
  let ?ct = "fst (seal (wk_bytes key) nonce ?p)" and ?tag = "snd (seal (wk_bytes key) nonce ?p)"
  have law: "length ?tag = TAG_LEN" "length ?ct = length ?p" "open_aead (wk_bytes key) nonce ?ct ?tag = Some ?p"
    using assms(1) by (auto simp: aead_law_def)
  have blob: "b64_decode blob = nonce @ ?ct @ ?tag"
    using assms(4) by (auto simp: wrap_def Let_def case_prod_beta' b64_roundtrip)
  have len: "\<not> length (nonce @ ?ct @ ?tag) < NONCE_LEN + TAG_LEN + 1"
    using json_stringify_envelope_nonempty [of ENVELOPE_VERSION "of_nat ts" creds] law(1,2) assms(2) by simp
  have parts: "take NONCE_LEN (nonce @ ?ct @ ?tag) = nonce"
      "drop (length (nonce @ ?ct @ ?tag) - TAG_LEN) (nonce @ ?ct @ ?tag) = ?tag"
      "take (length (nonce @ ?ct @ ?tag) - TAG_LEN - NONCE_LEN) (drop NONCE_LEN (nonce @ ?ct @ ?tag)) = ?ct"
    using law(1) assms(2) by simp_all
  have "ts < 2 ^ 53" using assms(3) by simp
  then have env: "parse_envelope ?p = Inr \<lparr>ev_v = Fin 1, ev_ts = Fin (of_nat ts), ev_creds = creds\<rparr>"
    by (rule parse_envelope_of_json)
  have "try_keys open_aead now nonce ?ct ?tag (newer @ key # older) =
      Inr \<lparr>un_creds = creds, un_wrapped_at = Fin (of_nat ts),
           un_age_ms = Fin (of_nat now - of_nat ts), un_key_id = wk_id key\<rparr>"
    using try_keys_skip [of newer open_aead nonce ?ct ?tag now "key # older", OF assms(5)]
      law(3) env time_clip_small [OF assms(3)] by simp
  with len parts show ?thesis
    unfolding unwrap_def blob Let_def by simp
qed

section \<open>Properties\<close>

text \<open>
  C26. Wrapping and unwrapping round trip across a key rotation: a blob sealed with the head of one
  ring opens with any ring that holds that key behind keys which do not open it, and gives back
  the credentials, the instant of wrapping, its age and the id of the key.
\<close>

theorem wrap_unwrap_roundtrip:
  assumes "aead_law seal open_aead" and "length nonce = NONCE_LEN" and "ts < 2 ^ 52"
    and "wrap seal nonce (key # ring) creds ts = Inr blob"
    and "\<forall>k \<in> set newer. open_aead (wk_bytes k) nonce
           (fst (seal (wk_bytes key) nonce (json_stringify (envelope_json ENVELOPE_VERSION (of_nat ts) creds))))
           (snd (seal (wk_bytes key) nonce (json_stringify (envelope_json ENVELOPE_VERSION (of_nat ts) creds)))) = None"
  shows "unwrap open_aead now (newer @ key # older) blob =
    Inr \<lparr>un_creds = creds, un_wrapped_at = Fin (of_nat ts),
         un_age_ms = Fin (of_nat now - of_nat ts), un_key_id = wk_id key\<rparr>"
  using assms by (rule unwrap_after_rotation)

text \<open>A transparent cipher that satisfies the law, and refuses every key but the sealing one.\<close>

definition demo_seal :: sealer where
  "demo_seal k n p = (p, take 16 (k @ replicate 16 CHR 0x00))"

definition demo_open :: opener where
  "demo_open k n c t = (if t = take 16 (k @ replicate 16 CHR 0x00) then Some c else None)"

lemma demo_aead_law: "aead_law demo_seal demo_open"
  unfolding aead_law_def demo_seal_def demo_open_def TAG_LEN_def by (simp add: min_def)

lemma demo_open_other_key:
  "demo_open k n c (snd (demo_seal k' n p)) = None \<longleftrightarrow>
     take 16 (k @ replicate 16 CHR 0x00) \<noteq> take 16 (k' @ replicate 16 CHR 0x00)"
  by (auto simp: demo_open_def demo_seal_def)

lemma wrap_head_projr: "wrap seal nonce (key # ring) creds ts = Inr (projr (wrap seal nonce (key # ring) creds ts))"
  by (simp add: wrap_def Let_def case_prod_beta')

theorem wrap_unwrap_roundtrip_witness:
  "unwrap demo_open 2500 [\<lparr>wk_id = ''new'', wk_bytes = ''N''\<rparr>, \<lparr>wk_id = ''old'', wk_bytes = ''O''\<rparr>]
     (projr (wrap demo_seal ''abcdefghijkl'' [\<lparr>wk_id = ''old'', wk_bytes = ''O''\<rparr>]
        \<lparr>uc_host = ''ghcr.io'', uc_username = ''u'', uc_password = ''p'', uc_scope = ''s''\<rparr> 1000))
   = Inr \<lparr>un_creds = \<lparr>uc_host = ''ghcr.io'', uc_username = ''u'', uc_password = ''p'', uc_scope = ''s''\<rparr>,
          un_wrapped_at = Fin (of_nat 1000), un_age_ms = Fin (of_nat 2500 - of_nat 1000), un_key_id = ''old''\<rparr>"
proof -
  let ?old = "\<lparr>wk_id = ''old'', wk_bytes = ''O''\<rparr>"
  have others: "\<forall>k \<in> set [\<lparr>wk_id = ''new'', wk_bytes = ''N''\<rparr>].
      demo_open (wk_bytes k) n c (snd (demo_seal (wk_bytes ?old) n p)) = None" for n c p
    by (simp add: demo_open_other_key)
  have nonce: "length ''abcdefghijkl'' = NONCE_LEN" by (simp add: NONCE_LEN_def)
  have "(1000 :: nat) < 2 ^ 52" by simp
  from wrap_unwrap_roundtrip [OF demo_aead_law nonce this wrap_head_projr [of _ _ ?old "[]"] others, of 2500 "[]"]
  show ?thesis by (simp only: append_Cons append_Nil wrap_key.simps)
qed

text \<open>
  C31. Two credentials have the same proof-cache identity only if they agree on host, user name and
  password, as long as the hash does not collide on them and neither host nor user name holds a
  NUL; the scope they were wrapped with plays no part.
\<close>

theorem cred_identity_inject:
  assumes "cred_identity sha256 a = cred_identity sha256 b"
    and "sha256 (identity_text a) = sha256 (identity_text b) \<longrightarrow> identity_text a = identity_text b"
    and "CHR 0x00 \<notin> set (uc_host a) \<union> set (uc_username a)"
    and "CHR 0x00 \<notin> set (uc_host b) \<union> set (uc_username b)"
  shows "a\<lparr>uc_scope := s\<rparr> = b\<lparr>uc_scope := s\<rparr>"
proof -
  from assms(1) have "hex_encode (sha256 (identity_text a)) = hex_encode (sha256 (identity_text b))"
    by (simp only: cred_identity_def)
  then have "sha256 (identity_text a) = sha256 (identity_text b)" by (rule hex_encode_inject)
  with assms(2) have "identity_text a = identity_text b" by simp
  from identity_text_inject [OF this assms(3,4)] show ?thesis by (cases a; cases b) simp
qed

theorem cred_identity_inject_witness:
  "\<lparr>uc_host = ''h'', uc_username = ''u'', uc_password = ''p'', uc_scope = ''x''\<rparr>\<lparr>uc_scope := []\<rparr>
   = \<lparr>uc_host = ''h'', uc_username = ''u'', uc_password = ''p'', uc_scope = ''y''\<rparr>\<lparr>uc_scope := []\<rparr>"
  by (rule cred_identity_inject [of "\<lambda>s. s"]) (simp_all add: cred_identity_def identity_text_def)

end
