(* ===== verification/World.thy ===== *)
theory World
  imports Js_Value
begin

text \<open>
  What lies outside the services' own code, and the part of the state both services share.

  The network is an oracle: the answer to a request may depend on every request sent before it.
  Clock readings are oracles indexed by the number of earlier readings. \<open>prom-client\<close> is a log of
  the calls the services make on their counters, histograms and gauges. \<open>axios\<close> sends a request,
  resolves with the response if \<open>validateStatus\<close> accepts its status, and otherwise rejects with an
  error that carries a message, an optional code and (for a refused status) the response.
\<close>

record http_request =
  rq_method :: string
  rq_url :: string
  rq_params :: "(string \<times> string) list"
  rq_headers :: "(string \<times> string) list"
  rq_timeout :: nat
  rq_body :: string

record http_response =
  rs_status :: int
  rs_headers :: "(string \<times> string) list"
  rs_data :: js

record http_error =
  er_message :: string
  er_code :: "string option"
  er_response :: "http_response option"

datatype metric_event =
    CounterInc string "(string \<times> string) list" rat
  | HistogramObserve string "(string \<times> string) list" rat
  | GaugeSet string "(string \<times> string) list" rat

record services =
  sv_net :: "http_request list \<Rightarrow> http_request \<Rightarrow> http_error + http_response"
  sv_hrtime :: "nat \<Rightarrow> int"
  sv_date :: "nat \<Rightarrow> int"
  sv_metrics_enabled :: bool

record world =
  w_sent :: "http_request list"
  w_hr_reads :: nat
  w_date_reads :: nat
  w_metrics :: "metric_event list"
  w_pool_bound :: bool

definition fresh_world :: world where
  "fresh_world = \<lparr>w_sent = [], w_hr_reads = 0, w_date_reads = 0, w_metrics = [], w_pool_bound = False\<rparr>"

section \<open>HTTP\<close>

definition http_get :: "string \<Rightarrow> http_request" where
  "http_get url = \<lparr>rq_method = ''GET'', rq_url = url, rq_params = [], rq_headers = [], rq_timeout = 0, rq_body = []\<rparr>"

definition status_error :: "http_response \<Rightarrow> http_error" where
  "status_error r =
     \<lparr>er_message = ''Request failed with status code '' @ int_to_string (rs_status r),
      er_code = (if 400 \<le> rs_status r \<and> rs_status r < 500 then Some ''ERR_BAD_REQUEST''
                 else if 500 \<le> rs_status r \<and> rs_status r < 600 then Some ''ERR_BAD_RESPONSE'' else None),
      er_response = Some r\<rparr>"

definition axios_request ::
  "'a services_scheme \<Rightarrow> (int \<Rightarrow> bool) \<Rightarrow> http_request \<Rightarrow> 'w world_scheme
     \<Rightarrow> (http_error + http_response) \<times> 'w world_scheme" where
  "axios_request sv validate_status req w =
     (let outcome = sv_net sv (w_sent w) req; w' = w\<lparr>w_sent := w_sent w @ [req]\<rparr> in
      case outcome of
        Inl e \<Rightarrow> (Inl e, w')
      | Inr r \<Rightarrow> (if validate_status (rs_status r) then Inr r else Inl (status_error r), w'))"

definition default_validate_status :: "int \<Rightarrow> bool" where
  "default_validate_status s \<longleftrightarrow> 200 \<le> s \<and> s < 300"

definition below_500 :: "int \<Rightarrow> bool" where
  "below_500 s \<longleftrightarrow> 200 \<le> s \<and> s < 500"

section \<open>Clocks\<close>

definition read_hrtime :: "'a services_scheme \<Rightarrow> 'w world_scheme \<Rightarrow> int \<times> 'w world_scheme" where
  "read_hrtime sv w = (sv_hrtime sv (w_hr_reads w), w\<lparr>w_hr_reads := Suc (w_hr_reads w)\<rparr>)"

definition read_date :: "'a services_scheme \<Rightarrow> 'w world_scheme \<Rightarrow> int \<times> 'w world_scheme" where
  "read_date sv w = (sv_date sv (w_date_reads w), w\<lparr>w_date_reads := Suc (w_date_reads w)\<rparr>)"

section \<open>Metric calls\<close>

definition emit :: "metric_event list \<Rightarrow> 'w world_scheme \<Rightarrow> 'w world_scheme" where
  "emit es w = w\<lparr>w_metrics := w_metrics w @ es\<rparr>"

lemma axios_request_world [simp]:
  "snd (axios_request sv ok req w) = w\<lparr>w_sent := w_sent w @ [req]\<rparr>"
  by (simp add: axios_request_def Let_def split: sum.split)

lemma axios_request_ok:
  "axios_request sv ok req w = (Inr r, w') \<Longrightarrow>
     sv_net sv (w_sent w) req = Inr r \<and> ok (rs_status r) \<and> w' = w\<lparr>w_sent := w_sent w @ [req]\<rparr>"
  by (auto simp: axios_request_def Let_def split: sum.splits if_splits)

lemma axios_request_failed:
  "axios_request sv ok req w = (Inl e, w') \<Longrightarrow> w' = w\<lparr>w_sent := w_sent w @ [req]\<rparr>"
  by (metis axios_request_world snd_conv)

end
