(* ===== verification/Metrics.thy ===== *)
theory Metrics
  imports World
begin

text \<open>
  \<open>auth/src/metrics.ts\<close> and \<open>hooks/src/metrics.ts\<close>: every recording function is a no-op unless
  metrics are enabled, and otherwise one or two calls on a counter, histogram or gauge. The names
  and labels are the code's. The prefix tells the two services' functions apart.
\<close>

definition parse_boolean :: "string option \<Rightarrow> bool" where
  "parse_boolean value = (to_lower (trim (or_else value '''')) \<in> set [''1'', ''true'', ''yes'', ''on''])"

definition auth_metrics_enabled :: "(string \<Rightarrow> string option) \<Rightarrow> bool" where
  "auth_metrics_enabled env =
     parse_boolean (Some (case env ''METRICS_ENABLED'' of None \<Rightarrow> ''false'' | Some v \<Rightarrow> v))"

definition hooks_metrics_enabled :: "(string \<Rightarrow> string option) \<Rightarrow> bool" where
  "hooks_metrics_enabled env = parse_boolean (Some (or_else (env ''METRICS_ENABLED'') ''false''))"

text \<open>\<open>Number(hrtime - startNs) / 1e9\<close>, without the rounding of the division.\<close>

definition elapsed_seconds_since ::
  "'a services_scheme \<Rightarrow> int \<Rightarrow> 'w world_scheme \<Rightarrow> rat \<times> 'w world_scheme" where
  "elapsed_seconds_since sv start_ns w =
     (let (now, w') = read_hrtime sv w in (of_int (now - start_ns) / 1000000000, w'))"

definition if_enabled :: "'a services_scheme \<Rightarrow> metric_event list \<Rightarrow> 'w world_scheme \<Rightarrow> 'w world_scheme" where
  "if_enabled sv es w = (if \<not> sv_metrics_enabled sv then w else emit es w)"

section \<open>The request middleware\<close>

record http_labels =
  hl_method :: string
  hl_path :: string
  hl_original_url :: string
  hl_base_url :: string
  hl_route_path :: "string option"

definition resolve_route_label :: "http_labels \<Rightarrow> string" where
  "resolve_route_label req =
     (case hl_route_path req of
        Some route_path \<Rightarrow> hl_base_url req @ route_path
      | None \<Rightarrow>
          (if hl_path req \<noteq> [] then hl_path req
           else if hl_original_url req \<noteq> [] then hl_original_url req else ''unknown''))"

text \<open>
  \<open>mountMetrics\<close>: the handler runs between the two clock readings; \<open>status_of\<close> reads the status of
  what it answered. A request for \<open>/metrics\<close> itself is passed through.
\<close>

definition mount_metrics ::
  "string \<Rightarrow> 'a services_scheme \<Rightarrow> http_labels \<Rightarrow> ('r \<Rightarrow> int) \<Rightarrow> ('w world_scheme \<Rightarrow> 'r \<times> 'w world_scheme)
     \<Rightarrow> 'w world_scheme \<Rightarrow> 'r \<times> 'w world_scheme" where
  "mount_metrics prefix sv req status_of handler w =
     (if \<not> sv_metrics_enabled sv then handler w
      else if hl_path req = ''/metrics'' then handler w
      else
        (let (started_at, w1) = read_hrtime sv w;
             (res, w2) = handler w1;
             labels = [(''method'', hl_method req), (''route'', resolve_route_label req),
                       (''status_code'', int_to_string (status_of res))];
             (duration, w3) = elapsed_seconds_since sv started_at w2
         in (res, emit [CounterInc (prefix @ ''http_requests_total'') labels 1,
                        HistogramObserve (prefix @ ''http_request_duration_seconds'') labels duration] w3)))"

definition bind_metrics_pool :: "'a services_scheme \<Rightarrow> 'w world_scheme \<Rightarrow> 'w world_scheme" where
  "bind_metrics_pool sv w = (if \<not> sv_metrics_enabled sv then w else w\<lparr>w_pool_bound := True\<rparr>)"

text \<open>The gauge's \<open>collect\<close> callback; the three counts are the pool's.\<close>

definition collect_pool_connections ::
  "string \<Rightarrow> nat \<Rightarrow> nat \<Rightarrow> nat \<Rightarrow> 'w world_scheme \<Rightarrow> 'w world_scheme" where
  "collect_pool_connections prefix total_count idle waiting w =
     (if \<not> w_pool_bound w then w
      else emit [GaugeSet (prefix @ ''postgres_pool_connections'') [(''state'', ''total'')] (of_nat total_count),
                 GaugeSet (prefix @ ''postgres_pool_connections'') [(''state'', ''idle'')] (of_nat idle),
                 GaugeSet (prefix @ ''postgres_pool_connections'') [(''state'', ''waiting'')] (of_nat waiting)] w)"

section \<open>The auth service\<close>

definition set_configured_pat_count :: "'a services_scheme \<Rightarrow> nat \<Rightarrow> 'w world_scheme \<Rightarrow> 'w world_scheme" where
  "set_configured_pat_count sv count = if_enabled sv [GaugeSet ''aocr_auth_configured_pat_count'' [] (of_nat count)]"

definition set_configured_cluster_pat_count ::
  "'a services_scheme \<Rightarrow> nat \<Rightarrow> 'w world_scheme \<Rightarrow> 'w world_scheme" where
  "set_configured_cluster_pat_count sv count =
     if_enabled sv [GaugeSet ''aocr_auth_configured_cluster_pat_count'' [] (of_nat count)]"

definition record_token_validation ::
  "'a services_scheme \<Rightarrow> string \<Rightarrow> string \<Rightarrow> rat \<Rightarrow> 'w world_scheme \<Rightarrow> 'w world_scheme" where
  "record_token_validation sv strategy outcome duration =
     if_enabled sv
       [CounterInc ''aocr_auth_token_validation_total'' [(''strategy'', strategy), (''outcome'', outcome)] 1,
        HistogramObserve ''aocr_auth_token_validation_duration_seconds''
          [(''strategy'', strategy), (''outcome'', outcome)] duration]"

definition record_upstream_validation ::
  "'a services_scheme \<Rightarrow> string \<Rightarrow> rat \<Rightarrow> 'w world_scheme \<Rightarrow> 'w world_scheme" where
  "record_upstream_validation sv outcome duration =
     if_enabled sv [HistogramObserve ''aocr_auth_upstream_validation_duration_seconds'' [(''outcome'', outcome)] duration]"

definition record_database_sync ::
  "'a services_scheme \<Rightarrow> string \<Rightarrow> rat \<Rightarrow> 'w world_scheme \<Rightarrow> 'w world_scheme" where
  "record_database_sync sv outcome duration =
     if_enabled sv [HistogramObserve ''aocr_auth_database_sync_duration_seconds'' [(''outcome'', outcome)] duration]"

definition record_token_issuance ::
  "'a services_scheme \<Rightarrow> string \<Rightarrow> string \<Rightarrow> 'w world_scheme \<Rightarrow> 'w world_scheme" where
  "record_token_issuance sv strategy outcome =
     if_enabled sv [CounterInc ''aocr_auth_token_issuance_total'' [(''strategy'', strategy), (''outcome'', outcome)] 1]"

section \<open>The hooks service\<close>

definition record_webhook_authorization ::
  "'a services_scheme \<Rightarrow> string \<Rightarrow> 'w world_scheme \<Rightarrow> 'w world_scheme" where
  "record_webhook_authorization sv outcome =
     if_enabled sv [CounterInc ''aocr_hooks_webhook_authorization_total'' [(''outcome'', outcome)] 1]"

definition record_registry_event :: "'a services_scheme \<Rightarrow> string \<Rightarrow> 'w world_scheme \<Rightarrow> 'w world_scheme" where
  "record_registry_event sv action =
     if_enabled sv [CounterInc ''aocr_hooks_registry_events_total''
       [(''action'', if action \<noteq> [] then action else ''unknown'')] 1]"

definition record_registry_event_batch :: "'a services_scheme \<Rightarrow> nat \<Rightarrow> 'w world_scheme \<Rightarrow> 'w world_scheme" where
  "record_registry_event_batch sv count =
     if_enabled sv [HistogramObserve ''aocr_hooks_registry_events_per_request'' [] (of_nat count)]"

definition record_redis_cache :: "'a services_scheme \<Rightarrow> string \<Rightarrow> rat \<Rightarrow> 'w world_scheme \<Rightarrow> 'w world_scheme" where
  "record_redis_cache sv outcome duration =
     if_enabled sv [HistogramObserve ''aocr_hooks_redis_cache_duration_seconds'' [(''outcome'', outcome)] duration]"

definition record_postgres_sync :: "'a services_scheme \<Rightarrow> string \<Rightarrow> rat \<Rightarrow> 'w world_scheme \<Rightarrow> 'w world_scheme" where
  "record_postgres_sync sv outcome duration =
     if_enabled sv [HistogramObserve ''aocr_hooks_postgres_sync_duration_seconds'' [(''outcome'', outcome)] duration]"

definition record_immediate_reap :: "'a services_scheme \<Rightarrow> string \<Rightarrow> rat \<Rightarrow> 'w world_scheme \<Rightarrow> 'w world_scheme" where
  "record_immediate_reap sv outcome duration =
     if_enabled sv [HistogramObserve ''aocr_hooks_immediate_reap_duration_seconds'' [(''outcome'', outcome)] duration]"

definition record_repositories_scheduled_for_reap ::
  "'a services_scheme \<Rightarrow> nat \<Rightarrow> 'w world_scheme \<Rightarrow> 'w world_scheme" where
  "record_repositories_scheduled_for_reap sv count =
     if_enabled sv [CounterInc ''aocr_hooks_repositories_scheduled_for_reap_total'' [] (of_nat count)]"

text \<open>\<open>Date.now()\<close> is read only when metrics are enabled.\<close>

definition mark_successful_webhook :: "'a services_scheme \<Rightarrow> 'w world_scheme \<Rightarrow> 'w world_scheme" where
  "mark_successful_webhook sv w =
     (if \<not> sv_metrics_enabled sv then w
      else (let (now, w') = read_date sv w in
        emit [GaugeSet ''aocr_hooks_last_successful_webhook_timestamp_seconds'' [] (of_int now / 1000)] w'))"

definition mark_successful_reap :: "'a services_scheme \<Rightarrow> 'w world_scheme \<Rightarrow> 'w world_scheme" where
  "mark_successful_reap sv w =
     (if \<not> sv_metrics_enabled sv then w
      else (let (now, w') = read_date sv w in
        emit [GaugeSet ''aocr_hooks_last_successful_reap_timestamp_seconds'' [] (of_int now / 1000)] w'))"

section \<open>Frame facts\<close>

named_theorems frame_simps \<open>what an operation leaves alone\<close>

lemma if_enabled_frame [frame_simps, simp]:
  "w_sent (if_enabled sv es w) = w_sent w" "w_hr_reads (if_enabled sv es w) = w_hr_reads w"
  "w_date_reads (if_enabled sv es w) = w_date_reads w" "world.more (if_enabled sv es w) = world.more w"
  by (simp_all add: if_enabled_def emit_def)

lemmas record_defs = set_configured_pat_count_def set_configured_cluster_pat_count_def
  record_token_validation_def record_upstream_validation_def record_database_sync_def
  record_token_issuance_def record_webhook_authorization_def record_registry_event_def
  record_registry_event_batch_def record_redis_cache_def record_postgres_sync_def
  record_immediate_reap_def record_repositories_scheduled_for_reap_def

end
