(* ===== verification/Probe.thy ===== *)
theory Probe
  imports Wrap Metrics
begin

text \<open>
  Upstream probes: \<open>auth/src/upstreamAuth/index.ts\<close> and \<open>adapters/tokenExchange.ts\<close>,
  \<open>adapters/anonymous.ts\<close>. A probe asks a registry whether credentials can read a repository. The
  default registry is the table \<open>PROBES\<close>; a probe is run by \<open>run_probe\<close> on the adapter found
  there.
\<close>

datatype probe_reason = Unauthorized | Unreachable | Unsupported

datatype probe_result =
    ProbeOk (upstream_bearer: js)
  | ProbeErr (probe_reason: probe_reason) (probe_detail: string)

record token_exchange_config =
  te_token_endpoint :: string
  te_manifest_base :: string
  te_service :: string
  te_timeout :: "nat option"

record anonymous_config =
  an_manifest_base :: string
  an_timeout :: "nat option"

datatype adapter = TokenExchange token_exchange_config | Anonymous anonymous_config | UnsupportedProbe

definition DEFAULT_TIMEOUT_MS :: nat where "DEFAULT_TIMEOUT_MS = 8000"
definition PROBE_REFERENCE :: string where "PROBE_REFERENCE = ''latest''"

definition trim_trailing_slash :: "string \<Rightarrow> string" where
  "trim_trailing_slash s = (if ends_with ''/'' s then butlast s else s)"

text \<open>What \<open>axios\<close> rejects with is always an \<open>AxiosError\<close>.\<close>

definition describe_axios_error :: "http_error \<Rightarrow> string" where
  "describe_axios_error e =
     (if truthy (er_code e) then the (er_code e) @ '': '' @ er_message e else er_message e)"

definition manifest_url :: "string \<Rightarrow> string \<Rightarrow> string" where
  "manifest_url base repo = trim_trailing_slash base @ ''/v2/'' @ repo @ ''/manifests/'' @ PROBE_REFERENCE"

definition readable_status :: "int \<Rightarrow> bool" where
  "readable_status s \<longleftrightarrow> s = 200 \<or> s = 202 \<or> s = 404"

definition refused_status :: "int \<Rightarrow> bool" where
  "refused_status s \<longleftrightarrow> s = 401 \<or> s = 403"

section \<open>The anonymous adapter\<close>

definition anonymous_request :: "anonymous_config \<Rightarrow> string \<Rightarrow> http_request" where
  "anonymous_request config repo =
     \<lparr>rq_method = ''HEAD'', rq_url = manifest_url (an_manifest_base config) repo, rq_params = [], rq_headers = [],
      rq_timeout = (case an_timeout config of None \<Rightarrow> DEFAULT_TIMEOUT_MS | Some t \<Rightarrow> t), rq_body = []\<rparr>"

definition anonymous_probe ::
  "'a services_scheme \<Rightarrow> anonymous_config \<Rightarrow> upstream_credentials \<Rightarrow> string \<Rightarrow> 'w world_scheme
     \<Rightarrow> probe_result \<times> 'w world_scheme" where
  "anonymous_probe sv config creds repo w =
     (if repo = [] then (ProbeErr Unsupported ''empty repo path'', w)
      else
        (let (resp, w1) = axios_request sv below_500 (anonymous_request config repo) w in
         case resp of
           Inl e \<Rightarrow> (ProbeErr Unreachable (describe_axios_error e), w1)
         | Inr r \<Rightarrow>
             (if refused_status (rs_status r) then
                (ProbeErr Unauthorized (''anonymous manifest HEAD returned '' @ int_to_string (rs_status r)), w1)
              else if readable_status (rs_status r) then (ProbeOk (JStr ''''), w1)
              else (ProbeErr Unreachable (''manifest HEAD returned '' @ int_to_string (rs_status r)), w1))))"

section \<open>The token exchange adapter\<close>

definition basic_header :: "upstream_credentials \<Rightarrow> string" where
  "basic_header creds = ''Basic '' @ b64_encode False (uc_username creds @ '':'' @ uc_password creds)"

definition token_request :: "token_exchange_config \<Rightarrow> upstream_credentials \<Rightarrow> string \<Rightarrow> http_request" where
  "token_request config creds repo =
     \<lparr>rq_method = ''GET'', rq_url = te_token_endpoint config,
      rq_params = [(''service'', te_service config), (''scope'', ''repository:'' @ repo @ '':pull'')],
      rq_headers = [(''Authorization'', basic_header creds)],
      rq_timeout = (case te_timeout config of None \<Rightarrow> DEFAULT_TIMEOUT_MS | Some t \<Rightarrow> t), rq_body = []\<rparr>"

definition manifest_request :: "token_exchange_config \<Rightarrow> js \<Rightarrow> string \<Rightarrow> http_request" where
  "manifest_request config bearer repo =
     \<lparr>rq_method = ''HEAD'', rq_url = manifest_url (te_manifest_base config) repo, rq_params = [],
      rq_headers = [(''Authorization'', ''Bearer '' @ js_String bearer)],
      rq_timeout = (case te_timeout config of None \<Rightarrow> DEFAULT_TIMEOUT_MS | Some t \<Rightarrow> t), rq_body = []\<rparr>"

text \<open>\<open>tokenBody.token ?? tokenBody.access_token\<close>, where \<open>tokenBody = resp.data ?? {}\<close>.\<close>

definition token_of_body :: "js \<Rightarrow> js" where
  "token_of_body body =
     (let token = js_prop body ''token'' in
      if js_nullish token then js_prop body ''access_token'' else token)"

definition confirm_bearer ::
  "'a services_scheme \<Rightarrow> token_exchange_config \<Rightarrow> js \<Rightarrow> string \<Rightarrow> 'w world_scheme
     \<Rightarrow> probe_result \<times> 'w world_scheme" where
  "confirm_bearer sv config bearer repo w =
     (let (resp, w1) = axios_request sv below_500 (manifest_request config bearer repo) w in
      case resp of
        Inl e \<Rightarrow> (ProbeErr Unreachable (describe_axios_error e), w1)
      | Inr r \<Rightarrow>
          (if refused_status (rs_status r) then
             (ProbeErr Unauthorized (''manifest HEAD returned '' @ int_to_string (rs_status r)), w1)
           else if readable_status (rs_status r) then (ProbeOk bearer, w1)
           else (ProbeErr Unreachable (''manifest HEAD returned '' @ int_to_string (rs_status r)), w1)))"

definition token_exchange_probe ::
  "'a services_scheme \<Rightarrow> token_exchange_config \<Rightarrow> upstream_credentials \<Rightarrow> string \<Rightarrow> 'w world_scheme
     \<Rightarrow> probe_result \<times> 'w world_scheme" where
  "token_exchange_probe sv config creds repo w =
     (if repo = [] then (ProbeErr Unsupported ''empty repo path'', w)
      else
        (let (resp, w1) = axios_request sv below_500 (token_request config creds repo) w in
         case resp of
           Inl e \<Rightarrow> (ProbeErr Unreachable (describe_axios_error e), w1)
         | Inr r \<Rightarrow>
             (if refused_status (rs_status r) then
                (ProbeErr Unauthorized (''token endpoint returned '' @ int_to_string (rs_status r)), w1)
              else if rs_status r \<noteq> 200 then
                (ProbeErr Unreachable (''token endpoint returned '' @ int_to_string (rs_status r)), w1)
              else
                (let bearer = token_of_body (rs_data r) in
                 if \<not> js_truthy bearer then
                   (ProbeErr Unreachable ''token endpoint response missing token field'', w1)
                 else confirm_bearer sv config bearer repo w1))))"

section \<open>The registry of probes\<close>

definition PROBES :: "(string \<times> adapter) list" where
  "PROBES =
     [(''docker.io'', TokenExchange \<lparr>te_token_endpoint = ''https://auth.docker.io/token'',
         te_manifest_base = ''https://registry-1.docker.io'', te_service = ''registry.docker.io'', te_timeout = None\<rparr>),
      (''ghcr.io'', TokenExchange \<lparr>te_token_endpoint = ''https://ghcr.io/token'',
         te_manifest_base = ''https://ghcr.io'', te_service = ''ghcr.io'', te_timeout = None\<rparr>),
      (''quay.io'', TokenExchange \<lparr>te_token_endpoint = ''https://quay.io/v2/auth'',
         te_manifest_base = ''https://quay.io'', te_service = ''quay.io'', te_timeout = None\<rparr>),
      (''gcr.io'', TokenExchange \<lparr>te_token_endpoint = ''https://gcr.io/v2/token'',
         te_manifest_base = ''https://gcr.io'', te_service = ''gcr.io'', te_timeout = None\<rparr>),
      (''registry.k8s.io'', Anonymous \<lparr>an_manifest_base = ''https://registry.k8s.io'', an_timeout = None\<rparr>)]"

definition get_probe_for_host :: "string \<Rightarrow> adapter" where
  "get_probe_for_host host =
     (case map_of PROBES (to_lower host) of None \<Rightarrow> UnsupportedProbe | Some a \<Rightarrow> a)"

definition run_probe ::
  "'a services_scheme \<Rightarrow> adapter \<Rightarrow> upstream_credentials \<Rightarrow> string \<Rightarrow> 'w world_scheme
     \<Rightarrow> probe_result \<times> 'w world_scheme" where
  "run_probe sv a creds repo w =
     (case a of
        TokenExchange config \<Rightarrow> token_exchange_probe sv config creds repo w
      | Anonymous config \<Rightarrow> anonymous_probe sv config creds repo w
      | UnsupportedProbe \<Rightarrow> (ProbeErr Unsupported ''no adapter registered for this upstream'', w))"

section \<open>What a probe promises\<close>

text \<open>
  The contract the strategy uses: a probe only sends requests (it leaves the rest of the state
  alone), and when it says yes the last thing that happened is that the registry answered a
  manifest request for that repository with a readable status.
\<close>

definition confirmed :: "'a services_scheme \<Rightarrow> string \<Rightarrow> http_request list \<Rightarrow> bool" where
  "confirmed sv url sent \<longleftrightarrow>
     (case rev sent of [] \<Rightarrow> False
      | req # earlier \<Rightarrow> rq_method req = ''HEAD'' \<and> rq_url req = url \<and>
          (case sv_net sv (rev earlier) req of Inl _ \<Rightarrow> False | Inr r \<Rightarrow> readable_status (rs_status r)))"

lemma confirmed_snoc [simp]:
  "confirmed sv url (sent @ [req]) \<longleftrightarrow> rq_method req = ''HEAD'' \<and> rq_url req = url \<and>
     (case sv_net sv sent req of Inl _ \<Rightarrow> False | Inr r \<Rightarrow> readable_status (rs_status r))"
  by (simp add: confirmed_def)

locale upstream_probe =
  fixes sv :: "'a services_scheme"
    and probe :: "upstream_credentials \<Rightarrow> string \<Rightarrow> 'w world_scheme \<Rightarrow> probe_result \<times> 'w world_scheme"
    and base :: string
    and to_upstream :: "http_request \<Rightarrow> bool"
  assumes probe_confirms: "probe creds repo w = (ProbeOk b, w') \<Longrightarrow>
      repo \<noteq> [] \<and> confirmed sv (manifest_url base repo) (w_sent w')"
    and probe_sends: "probe creds repo w = (res, w') \<Longrightarrow>
      \<exists>reqs. w' = w\<lparr>w_sent := w_sent w @ reqs\<rparr> \<and> (\<forall>req \<in> set reqs. to_upstream req)"
begin

lemma probe_keeps_rest: "world.more (snd (probe creds repo w)) = world.more w"
  using probe_sends [of creds repo w] by (cases "probe creds repo w") auto

text \<open>Probing in sequence: every positive answer is confirmed somewhere in the log.\<close>

fun probe_all :: "upstream_credentials \<Rightarrow> string list \<Rightarrow> 'w world_scheme \<Rightarrow> bool \<times> 'w world_scheme" where
  "probe_all creds [] w = (True, w)"
| "probe_all creds (r # rs) w =
     (case probe creds r w of (ProbeOk _, w1) \<Rightarrow> probe_all creds rs w1 | (ProbeErr _ _, w1) \<Rightarrow> (False, w1))"

lemma probe_all_sends:
  "probe_all creds rs w = (ok, w') \<Longrightarrow> \<exists>reqs. w_sent w' = w_sent w @ reqs \<and> (\<forall>req \<in> set reqs. to_upstream req)"
proof (induction rs arbitrary: w)
  case (Cons r rs)
  obtain res w1 where p: "probe creds r w = (res, w1)" by force
  from probe_sends [OF p] obtain reqs where reqs: "w_sent w1 = w_sent w @ reqs" "\<forall>req \<in> set reqs. to_upstream req"
    by auto
  show ?case
  proof (cases res)
    case (ProbeOk b)
    with Cons.prems p have "probe_all creds rs w1 = (ok, w')" by simp
    from Cons.IH [OF this] reqs show ?thesis by (metis Un_iff append.assoc set_append)
  next
    case (ProbeErr x d)
    with Cons.prems p reqs show ?thesis by auto
  qed
qed simp

lemma probe_all_confirms:
  "probe_all creds rs w = (True, w') \<Longrightarrow> r \<in> set rs \<Longrightarrow>
     r \<noteq> [] \<and> (\<exists>sent more. w_sent w' = sent @ more \<and> confirmed sv (manifest_url base r) sent)"
proof (induction rs arbitrary: w)
  case (Cons q rs)
  obtain res w1 where p: "probe creds q w = (res, w1)" by force
  with Cons.prems obtain b where ok: "res = ProbeOk b" and rest: "probe_all creds rs w1 = (True, w')"
    by (cases res) auto
  show ?case
  proof (cases "r = q")
    case True
    with probe_confirms [of creds q w b w1] p ok probe_all_sends [OF rest] show ?thesis by auto
  next
    case False
    with Cons.IH [OF rest] Cons.prems(2) show ?thesis by simp
  qed
qed simp

end

lemma confirm_bearer_cases:
  assumes "confirm_bearer sv config bearer repo w = (res, w')"
  shows "w' = w\<lparr>w_sent := w_sent w @ [manifest_request config bearer repo]\<rparr>
    \<and> (\<forall>b. res = ProbeOk b \<longrightarrow> b = bearer \<and>
         (\<exists>r. sv_net sv (w_sent w) (manifest_request config bearer repo) = Inr r \<and> readable_status (rs_status r)))"
  using assms
  by (auto simp: confirm_bearer_def Let_def split: sum.splits prod.splits if_splits
      dest!: axios_request_ok axios_request_failed)

definition token_exchange_request :: "token_exchange_config \<Rightarrow> http_request \<Rightarrow> bool" where
  "token_exchange_request config req \<longleftrightarrow>
     (\<exists>creds repo. req = token_request config creds repo) \<or> (\<exists>bearer repo. req = manifest_request config bearer repo)"

lemma token_exchange_cases:
  assumes "token_exchange_probe sv config creds repo w = (res, w')"
  obtains (empty) "repo = []" "res = ProbeErr Unsupported ''empty repo path''" "w' = w"
    | (no_token) reason detail where "repo \<noteq> []" "res = ProbeErr reason detail"
        "w' = w\<lparr>w_sent := w_sent w @ [token_request config creds repo]\<rparr>"
    | (token) r where "repo \<noteq> []" "sv_net sv (w_sent w) (token_request config creds repo) = Inr r"
        "rs_status r = 200" "js_truthy (token_of_body (rs_data r))"
        "confirm_bearer sv config (token_of_body (rs_data r)) repo
           (w\<lparr>w_sent := w_sent w @ [token_request config creds repo]\<rparr>) = (res, w')"
proof (cases "repo = []")
  case True
  then show thesis using assms empty by (simp add: token_exchange_probe_def)
next
  case False
  obtain resp w1 where ax: "axios_request sv below_500 (token_request config creds repo) w = (resp, w1)" by force
  have w1: "w1 = w\<lparr>w_sent := w_sent w @ [token_request config creds repo]\<rparr>"
    using ax by (metis axios_request_world snd_conv)
  show thesis
  proof (cases resp)
    case (Inl e)
    with False assms ax have "res = ProbeErr Unreachable (describe_axios_error e)" "w' = w1"
      by (simp_all add: token_exchange_probe_def)
    then show thesis using no_token False w1 by blast
  next
    case (Inr r)
    note ok = axios_request_ok [OF ax [unfolded Inr]]
    show thesis
    proof (cases "rs_status r = 200 \<and> js_truthy (token_of_body (rs_data r))")
      case True
      then show thesis using token [of r] False assms ax w1 Inr ok
        by (simp add: token_exchange_probe_def refused_status_def)
    next
      case False
      then show thesis using no_token \<open>repo \<noteq> []\<close> assms ax w1 Inr
        by (auto simp: token_exchange_probe_def Let_def split: if_splits)
    qed
  qed
qed

interpretation token_exchange: upstream_probe sv "token_exchange_probe sv config" "te_manifest_base config"
    "token_exchange_request config" for sv config
proof
  fix creds repo w b w'
  assume "token_exchange_probe sv config creds repo w = (ProbeOk b, w')"
  then show "repo \<noteq> [] \<and> confirmed sv (manifest_url (te_manifest_base config) repo) (w_sent w')"
  proof (cases rule: token_exchange_cases)
    case (token r)
    from confirm_bearer_cases [OF token(5)] token(1) show ?thesis
      by (auto simp del: append_assoc) (auto simp: manifest_request_def)
  qed auto
next
  fix creds repo w res w'
  assume "token_exchange_probe sv config creds repo w = (res, w')"
  then show "\<exists>reqs. w' = w\<lparr>w_sent := w_sent w @ reqs\<rparr> \<and> (\<forall>req \<in> set reqs. token_exchange_request config req)"
  proof (cases rule: token_exchange_cases)
    case empty
    then show ?thesis by (intro exI [of _ "[]"]) simp
  next
    case no_token
    then show ?thesis
      by (intro exI [of _ "[token_request config creds repo]"]) (auto simp: token_exchange_request_def)
  next
    case (token r)
    from confirm_bearer_cases [OF token(5)] show ?thesis
      by (intro exI [of _ "[token_request config creds repo, manifest_request config (token_of_body (rs_data r)) repo]"])
        (auto simp: token_exchange_request_def)
  qed
qed

interpretation anonymous: upstream_probe sv "anonymous_probe sv config" "an_manifest_base config"
    "\<lambda>req. \<exists>repo. req = anonymous_request config repo" for sv config
proof
  fix creds repo w b w'
  assume "anonymous_probe sv config creds repo w = (ProbeOk b, w')"
  then show "repo \<noteq> [] \<and> confirmed sv (manifest_url (an_manifest_base config) repo) (w_sent w')"
    by (auto simp: anonymous_probe_def Let_def split: if_splits sum.splits prod.splits dest!: axios_request_ok)
      (auto simp: anonymous_request_def)
next
  fix creds repo w res w'
  assume "anonymous_probe sv config creds repo w = (res, w')"
  then have "w' = w \<or> w' = w\<lparr>w_sent := w_sent w @ [anonymous_request config repo]\<rparr>"
    by (auto simp: anonymous_probe_def Let_def split: if_splits sum.splits prod.splits
        dest!: axios_request_ok axios_request_failed)
  then show "\<exists>reqs. w' = w\<lparr>w_sent := w_sent w @ reqs\<rparr> \<and> (\<forall>req \<in> set reqs. \<exists>repo. req = anonymous_request config repo)"
  proof
    assume "w' = w\<lparr>w_sent := w_sent w @ [anonymous_request config repo]\<rparr>"
    then show ?thesis by (intro exI [of _ "[anonymous_request config repo]"]) auto
  qed (intro exI [of _ "[]"], simp)
qed

section \<open>Properties\<close>

text \<open>
  The token exchange probe says yes exactly when the repository path is not empty, the token
  endpoint answered 200 with a non-empty token, and the manifest request made with that very token
  was answered 200, 202 or 404; the bearer it returns is that token.
\<close>

theorem token_exchange_probe_ok_iff:
  "fst (token_exchange_probe sv config creds repo w) = ProbeOk b \<longleftrightarrow>
     repo \<noteq> [] \<and> js_truthy b \<and>
     (\<exists>r m. sv_net sv (w_sent w) (token_request config creds repo) = Inr r \<and> rs_status r = 200 \<and>
        b = token_of_body (rs_data r) \<and>
        sv_net sv (w_sent w @ [token_request config creds repo]) (manifest_request config b repo) = Inr m \<and>
        readable_status (rs_status m))"
  (is "?probe \<longleftrightarrow> ?answers")
proof
  assume ?probe
  then obtain w' where "token_exchange_probe sv config creds repo w = (ProbeOk b, w')" by (metis prod.collapse)
  then show ?answers
  proof (cases rule: token_exchange_cases)
    case (token r)
    from confirm_bearer_cases [OF token(5)] token(1-4) show ?thesis by auto
  qed auto
next
  assume ?answers
  then obtain r m where r: "repo \<noteq> []" "js_truthy b" "sv_net sv (w_sent w) (token_request config creds repo) = Inr r"
      "rs_status r = 200" "token_of_body (rs_data r) = b"
    and m: "sv_net sv (w_sent w @ [token_request config creds repo]) (manifest_request config b repo) = Inr m"
      "readable_status (rs_status m)"
    by blast
  from m(2) have "below_500 (rs_status m) \<and> \<not> refused_status (rs_status m)"
    by (auto simp: readable_status_def refused_status_def below_500_def)
  with r m show ?probe
    by (simp add: token_exchange_probe_def confirm_bearer_def axios_request_def Let_def below_500_def refused_status_def)
qed

text \<open>
  C24. A probe sends at most two requests, and a request that carries the user's password (a Basic
  header) goes to the token endpoint of the very registry the probe is for, over TLS.
\<close>

theorem password_goes_to_own_token_endpoint:
  assumes "run_probe sv (get_probe_for_host host) creds repo w = (res, w')"
  shows "\<exists>reqs. w_sent w' = w_sent w @ reqs \<and> length reqs \<le> 2 \<and>
    (\<forall>req \<in> set reqs. \<forall>v. (''Authorization'', v) \<in> set (rq_headers req) \<and> starts_with ''Basic '' v \<longrightarrow>
       (to_lower host, rq_url req) \<in>
         {(''docker.io'', ''https://auth.docker.io/token''), (''ghcr.io'', ''https://ghcr.io/token''),
          (''quay.io'', ''https://quay.io/v2/auth''), (''gcr.io'', ''https://gcr.io/v2/token'')})"
proof (cases "get_probe_for_host host")
  case (TokenExchange config)
  then have endpoint: "(to_lower host, te_token_endpoint config) \<in>
         {(''docker.io'', ''https://auth.docker.io/token''), (''ghcr.io'', ''https://ghcr.io/token''),
          (''quay.io'', ''https://quay.io/v2/auth''), (''gcr.io'', ''https://gcr.io/v2/token'')}"
    by (auto simp: get_probe_for_host_def PROBES_def split: if_splits)
  have no_basic: "\<not> starts_with ''Basic '' (''Bearer '' @ b)" for b by simp
  from assms TokenExchange have "token_exchange_probe sv config creds repo w = (res, w')"
    by (simp add: run_probe_def)
  then show ?thesis
  proof (cases rule: token_exchange_cases)
    case empty
    then show ?thesis by auto
  next
    case no_token
    with endpoint show ?thesis
      by (intro exI [of _ "[token_request config creds repo]"]) (auto simp: token_request_def)
  next
    case (token r)
    from confirm_bearer_cases [OF token(5)] endpoint no_basic show ?thesis
      by (intro exI [of _ "[token_request config creds repo, manifest_request config (token_of_body (rs_data r)) repo]"])
        (auto simp: token_request_def manifest_request_def)
  qed
next
  case (Anonymous config)
  with assms have "anonymous_probe sv config creds repo w = (res, w')" by (simp add: run_probe_def)
  then have "w' = w \<or> w' = w\<lparr>w_sent := w_sent w @ [anonymous_request config repo]\<rparr>"
    by (auto simp: anonymous_probe_def Let_def split: if_splits sum.splits prod.splits
        dest!: axios_request_ok axios_request_failed)
  then show ?thesis
  proof
    assume "w' = w\<lparr>w_sent := w_sent w @ [anonymous_request config repo]\<rparr>"
    then show ?thesis
      by (intro exI [of _ "[anonymous_request config repo]"]) (auto simp: anonymous_request_def)
  qed auto
next
  case UnsupportedProbe
  with assms show ?thesis by (auto simp: run_probe_def)
qed

definition demo_net :: "http_request list \<Rightarrow> http_request \<Rightarrow> http_error + http_response" where
  "demo_net sent req =
     (if rq_method req = ''GET'' then Inr \<lparr>rs_status = 200, rs_headers = [], rs_data = JObj [(''token'', JStr ''T'')]\<rparr>
      else Inr \<lparr>rs_status = 404, rs_headers = [], rs_data = JStr ''''\<rparr>)"

definition demo_services :: services where
  "demo_services = \<lparr>sv_net = demo_net, sv_hrtime = (\<lambda>i. int i), sv_date = (\<lambda>i. 1000 + int i), sv_metrics_enabled = True\<rparr>"

definition demo_creds :: upstream_credentials where
  "demo_creds = \<lparr>uc_host = ''ghcr.io'', uc_username = ''u'', uc_password = ''p'', uc_scope = ''s''\<rparr>"

theorem password_goes_to_own_token_endpoint_witness:
  "\<exists>reqs. w_sent (snd (run_probe demo_services (get_probe_for_host ''GHCR.io'') demo_creds ''o/r'' fresh_world))
       = w_sent fresh_world @ reqs \<and> length reqs \<le> 2"
  using password_goes_to_own_token_endpoint [OF prod.collapse [symmetric],
      of demo_services "''GHCR.io''" demo_creds "''o/r''" fresh_world] by blast

end
