(* ===== verification/Strategy.thy ===== *)
theory Strategy
  imports Route ProofCache Probe
begin

text \<open>
  The wrapped-upstream strategy, \<open>auth/src/upstreamAuth/strategy.ts\<close>: unwrap the blob, check its
  age, route every requested repository, and answer from the proof cache or by probing the upstream.
  The proof cache is part of the state (\<open>cw_cache\<close>); its clock is \<open>Date.now\<close>. A bearer that is not
  a string makes \<open>Buffer.from\<close> throw (\<open>RecordTypeError\<close>).
\<close>

section \<open>State and errors\<close>

record cached_world = world +
  cw_cache :: proof_cache

record auth_services = services +
  as_open :: opener
  as_sha256 :: "string \<Rightarrow> string"

datatype wu_code = NotConfigured | InvalidBlob | BlobExpired | WuUnauthorized | WuUnreachable | WuUnsupported | RouteMismatch

datatype wu_error = WrappedUpstreamError (wu_message: string) (wu_code: wu_code) | RecordTypeError

record wrapped_success =
  ws_identity :: string
  ws_cache_hit :: bool

definition WRAPPED_UPSTREAM_TOKEN_TTL_SECONDS :: int where "WRAPPED_UPSTREAM_TOKEN_TTL_SECONDS = 15 * 60"
definition WRAPPED_UPSTREAM_MAX_AGE_MS :: int where "WRAPPED_UPSTREAM_MAX_AGE_MS = 10 * 60 * 1000"
definition WRAPPED_UPSTREAM_TOKEN_PREFIX :: string where "WRAPPED_UPSTREAM_TOKEN_PREFIX = ''aocrwrap:''"

definition is_wrapped_upstream_token :: "string \<Rightarrow> bool" where
  "is_wrapped_upstream_token token = starts_with WRAPPED_UPSTREAM_TOKEN_PREFIX token"

definition extract_repos_from_scope :: "js \<Rightarrow> string list" where
  "extract_repos_from_scope scope = uniq (map sc_name (parse_requested_scopes scope))"

definition reason_code :: "probe_reason \<Rightarrow> wu_code" where
  "reason_code r = (case r of Unauthorized \<Rightarrow> WuUnauthorized | Unreachable \<Rightarrow> WuUnreachable | Unsupported \<Rightarrow> WuUnsupported)"

definition reason_text :: "probe_reason \<Rightarrow> string" where
  "reason_text r = (case r of Unauthorized \<Rightarrow> ''unauthorized'' | Unreachable \<Rightarrow> ''unreachable'' | Unsupported \<Rightarrow> ''unsupported'')"

section \<open>The cache behind its clock\<close>

definition cache_get :: "'a services_scheme \<Rightarrow> string \<Rightarrow> string \<Rightarrow> 'w cached_world_scheme
     \<Rightarrow> proof_lookup option \<times> 'w cached_world_scheme" where
  "cache_get sv identity repo w =
     (case map_of (pc_entries (cw_cache w)) identity of
        None \<Rightarrow> (None, w)
      | Some _ \<Rightarrow>
          (let (now, w1) = read_date sv w; (found, c) = get_proof now identity repo (cw_cache w1)
           in (found, w1\<lparr>cw_cache := c\<rparr>)))"

definition cache_record :: "'a services_scheme \<Rightarrow> string \<Rightarrow> string \<Rightarrow> string \<Rightarrow> 'w cached_world_scheme
     \<Rightarrow> 'w cached_world_scheme" where
  "cache_record sv identity repo bearer w =
     (let (now, w1) = read_date sv w in w1\<lparr>cw_cache := record_proof now identity repo bearer (cw_cache w1)\<rparr>)"

definition cache_invalidate :: "string \<Rightarrow> 'w cached_world_scheme \<Rightarrow> 'w cached_world_scheme" where
  "cache_invalidate identity w = w\<lparr>cw_cache := invalidate identity (cw_cache w)\<rparr>"

section \<open>The strategy\<close>

text \<open>The \<open>map\<close> over the repositories; the first bad one throws.\<close>

fun route_all :: "string \<Rightarrow> string list \<Rightarrow> wu_error + upstream_route list" where
  "route_all upstream_host [] = Inr []"
| "route_all upstream_host (mirror_repo # repos) =
     (case route_mirror_repo_to_upstream mirror_repo of
        None \<Rightarrow> Inl (WrappedUpstreamError (''unsupported mirror scope: '' @ mirror_repo) RouteMismatch)
      | Some route \<Rightarrow>
          (if \<not> route_matches_wrapped_host route upstream_host then
             Inl (WrappedUpstreamError (''scope routes to '' @ ur_host route @ '' but envelope says '' @ upstream_host) RouteMismatch)
           else
             (case route_all upstream_host repos of
                Inl e \<Rightarrow> Inl e
              | Inr routes \<Rightarrow> Inr (route # routes))))"

text \<open>The loop over the routes; the flag is \<open>cacheHit\<close>.\<close>

fun prove_routes ::
  "'a services_scheme \<Rightarrow> (string \<Rightarrow> adapter) \<Rightarrow> upstream_credentials \<Rightarrow> string \<Rightarrow> bool \<Rightarrow> upstream_route list
     \<Rightarrow> 'w cached_world_scheme \<Rightarrow> (wu_error + wrapped_success) \<times> 'w cached_world_scheme" where
  "prove_routes sv resolve_probe creds identity cache_hit [] w =
     (Inr \<lparr>ws_identity = identity, ws_cache_hit = cache_hit\<rparr>, w)"
| "prove_routes sv resolve_probe creds identity cache_hit (route # routes) w =
     (let (found, w1) = cache_get sv identity (ur_repo route) w in
      case found of
        Some _ \<Rightarrow> prove_routes sv resolve_probe creds identity cache_hit routes w1
      | None \<Rightarrow>
          (let (result, w2) = run_probe sv (resolve_probe (ur_host route)) creds (ur_repo route) w1 in
           case result of
             ProbeErr reason detail \<Rightarrow>
               (Inl (WrappedUpstreamError
                  (''probe failed: '' @ reason_text reason @ (if detail \<noteq> [] then '': '' @ detail else []))
                  (reason_code reason)),
                if reason = Unauthorized then cache_invalidate identity w2 else w2)
           | ProbeOk bearer \<Rightarrow>
               (case bearer of
                  JStr b \<Rightarrow>
                    prove_routes sv resolve_probe creds identity False routes (cache_record sv identity (ur_repo route) b w2)
                | _ \<Rightarrow> (Inl RecordTypeError, w2))))"

definition validate_wrapped_upstream ::
  "'a auth_services_scheme \<Rightarrow> wrap_key_ring \<Rightarrow> (string \<Rightarrow> adapter) \<Rightarrow> string \<Rightarrow> js \<Rightarrow> 'w cached_world_scheme
     \<Rightarrow> (wu_error + wrapped_success) \<times> 'w cached_world_scheme" where
  "validate_wrapped_upstream sv key_ring resolve_probe presented_token scope w =
     (if key_ring = [] then
        (Inl (WrappedUpstreamError ''wrapped-upstream auth is not configured (no wrap keys)'' NotConfigured), w)
      else if \<not> is_wrapped_upstream_token presented_token then
        (Inl (WrappedUpstreamError ''presented token is not a wrapped-upstream blob'' InvalidBlob), w)
      else
        (let blob = slice_from (int (length WRAPPED_UPSTREAM_TOKEN_PREFIX)) presented_token in
         case unwrap (as_open sv) (nat (sv_date sv (w_date_reads w))) key_ring blob of
           Inl e \<Rightarrow> (Inl (WrappedUpstreamError (''wrap error: '' @ wrap_code_text (wrap_code e)) InvalidBlob), w)
         | Inr unwrapped \<Rightarrow>
             (let (_, w1) = read_date sv w; (now_ms, w2) = read_date sv w1;
                  age_ms = num_sub (Fin (of_int now_ms)) (un_wrapped_at unwrapped) in
              if num_gt age_ms (Fin (of_int WRAPPED_UPSTREAM_MAX_AGE_MS)) then
                (Inl (WrappedUpstreamError
                   (''blob too old ('' @ num_to_string age_ms @ ''ms > '' @ int_to_string WRAPPED_UPSTREAM_MAX_AGE_MS @ ''ms)'')
                   BlobExpired), w2)
              else
                (let creds = un_creds unwrapped; identity = cred_identity (as_sha256 sv) creds;
                     mirror_repos = extract_repos_from_scope scope in
                 if mirror_repos = [] then
                   (Inl (WrappedUpstreamError ''scope missing repository name'' RouteMismatch), w2)
                 else
                   (case route_all (uc_host creds) mirror_repos of
                      Inl e \<Rightarrow> (Inl e, w2)
                    | Inr routes \<Rightarrow> prove_routes sv resolve_probe creds identity True routes w2)))))"

section \<open>Lemmas\<close>

text \<open>Whatever adapter the registry resolves to is a probe in the sense of \<open>upstream_probe\<close>.\<close>

definition adapter_base :: "adapter \<Rightarrow> string" where
  "adapter_base a = (case a of TokenExchange c \<Rightarrow> te_manifest_base c | Anonymous c \<Rightarrow> an_manifest_base c | UnsupportedProbe \<Rightarrow> [])"

definition adapter_sends :: "adapter \<Rightarrow> http_request \<Rightarrow> bool" where
  "adapter_sends a req = (case a of TokenExchange c \<Rightarrow> token_exchange_request c req
     | Anonymous c \<Rightarrow> \<exists>repo. req = anonymous_request c repo | UnsupportedProbe \<Rightarrow> False)"

interpretation registry: upstream_probe sv "run_probe sv a" "adapter_base a" "adapter_sends a" for sv a
proof
  fix creds repo w b w'
  assume "run_probe sv a creds repo w = (ProbeOk b, w')"
  then show "repo \<noteq> [] \<and> confirmed sv (manifest_url (adapter_base a) repo) (w_sent w')"
    using token_exchange.probe_confirms anonymous.probe_confirms
    by (cases a) (simp_all add: run_probe_def adapter_base_def)
next
  fix creds repo w res w'
  assume *: "run_probe sv a creds repo w = (res, w')"
  show "\<exists>reqs. w' = w\<lparr>w_sent := w_sent w @ reqs\<rparr> \<and> (\<forall>req \<in> set reqs. adapter_sends a req)"
  proof (cases a)
    case (TokenExchange c)
    with * token_exchange.probe_sends [of sv c creds repo w res w'] show ?thesis
      by (simp add: run_probe_def adapter_sends_def)
  next
    case (Anonymous c)
    with * anonymous.probe_sends [of sv c creds repo w res w'] show ?thesis
      by (simp add: run_probe_def adapter_sends_def)
  next
    case UnsupportedProbe
    with * show ?thesis by (intro exI [of _ "[]"]) (simp add: run_probe_def)
  qed
qed

lemma run_probe_world:
  assumes "run_probe sv a creds repo w = (res, w')"
  obtains reqs where "w' = w\<lparr>w_sent := w_sent w @ reqs\<rparr>"
  using registry.probe_sends [OF assms] by blast

lemma route_all_Inr:
  "route_all h repos = Inr routes \<Longrightarrow>
     list_all2 (\<lambda>m r. route_mirror_repo_to_upstream m = Some r \<and> route_matches_wrapped_host r h) repos routes"
  by (induction repos arbitrary: routes) (auto split: option.splits if_splits sum.splits)

lemma list_all2_left: "list_all2 P xs ys \<Longrightarrow> x \<in> set xs \<Longrightarrow> \<exists>y \<in> set ys. P x y"
  by (induction rule: list_all2_induct) auto

lemma list_all2_right: "list_all2 P xs ys \<Longrightarrow> y \<in> set ys \<Longrightarrow> \<exists>x \<in> set xs. P x y"
  by (induction rule: list_all2_induct) auto

lemma route_all_Inl:
  "route_all h repos = Inl e \<Longrightarrow> \<exists>m. e = WrappedUpstreamError m RouteMismatch"
  by (induction repos) (auto split: option.splits if_splits sum.splits)

lemma read_date_world [simp]:
  "w_sent (snd (read_date sv w)) = w_sent w"
  "cw_cache (snd (read_date sv v)) = cw_cache v"
  by (simp_all add: read_date_def)

lemma cache_get_world:
  assumes "cache_get sv i r w = (found, w1)"
  shows "w_sent w1 = w_sent w"
    and "covers (cw_cache w1) i' r' \<Longrightarrow> covers (cw_cache w) i' r'"
    and "found = Some l \<Longrightarrow> covers (cw_cache w) i r"
    and "proof_cache_inv (cw_cache w) \<Longrightarrow> proof_cache_inv (cw_cache w1)"
proof -
  have "w_sent w1 = w_sent w \<and> (cw_cache w1 = cw_cache w \<and> found = None \<or>
      (\<exists>now. get_proof now i r (cw_cache w) = (found, cw_cache w1)))"
    using assms by (auto simp: cache_get_def read_date_def Let_def split: option.splits prod.splits)
  then show "w_sent w1 = w_sent w" "covers (cw_cache w1) i' r' \<Longrightarrow> covers (cw_cache w) i' r'"
      "found = Some l \<Longrightarrow> covers (cw_cache w) i r" "proof_cache_inv (cw_cache w) \<Longrightarrow> proof_cache_inv (cw_cache w1)"
    using get_proof_covers get_proof_hit pstore.inv_get by (metis fst_conv snd_conv option.distinct(1))+
qed

lemma cache_record_world [simp]: "w_sent (cache_record sv i r b w) = w_sent w"
  by (simp add: cache_record_def read_date_def)

lemma cache_record_covers:
  "covers (cw_cache (cache_record sv i r b w)) i' r' \<Longrightarrow> i' = i \<and> r' = r \<or> covers (cw_cache w) i' r'"
  by (auto simp: cache_record_def read_date_def dest: record_proof_covers)

lemma cache_invalidate_world [simp]: "w_sent (cache_invalidate i w) = w_sent w"
  by (simp add: cache_invalidate_def)

lemma cache_invalidate_covers: "covers (cw_cache (cache_invalidate i w)) i' r' \<longleftrightarrow> i' \<noteq> i \<and> covers (cw_cache w) i' r'"
  by (simp add: cache_invalidate_def invalidate_def evict_covers)

text \<open>A route is proven in a log that extends another when the registry confirmed it in between.\<close>

definition proven_between ::
  "'a services_scheme \<Rightarrow> (string \<Rightarrow> adapter) \<Rightarrow> http_request list \<Rightarrow> http_request list \<Rightarrow> upstream_route \<Rightarrow> bool" where
  "proven_between sv resolve before after route \<longleftrightarrow>
     (\<exists>mid rest. after = before @ mid @ rest \<and>
        confirmed sv (manifest_url (adapter_base (resolve (ur_host route))) (ur_repo route)) (before @ mid))"

lemma proven_between_widen:
  "proven_between sv resolve (before @ x) after r \<Longrightarrow> proven_between sv resolve before after r"
  unfolding proven_between_def by (metis append.assoc)

lemma proven_between_later:
  "proven_between sv resolve before mid r \<Longrightarrow> proven_between sv resolve before (mid @ x) r"
  unfolding proven_between_def by (metis append.assoc)

lemma reason_code_neq: "reason_code r \<notin> {NotConfigured, InvalidBlob, BlobExpired, RouteMismatch}"
  by (cases r) (simp_all add: reason_code_def)

lemma prove_routes_error:
  "prove_routes sv resolve creds identity hit routes w = (Inl (WrappedUpstreamError m c), w') \<Longrightarrow>
     c \<in> range reason_code \<and> (c = WuUnauthorized \<longrightarrow> \<not> covers (cw_cache w') identity q)"
proof (induction routes arbitrary: hit w)
  case (Cons r routes)
  obtain found w1 where g: "cache_get sv identity (ur_repo r) w = (found, w1)" by force
  obtain result w2 where p: "run_probe sv (resolve (ur_host r)) creds (ur_repo r) w1 = (result, w2)" by force
  show ?case
  proof (cases found)
    case (Some l)
    with Cons g show ?thesis by auto
  next
    case None
    show ?thesis
    proof (cases result)
      case (ProbeOk b)
      with Cons g p None show ?thesis by (auto split: js.splits)
    next
      case (ProbeErr reason detail)
      with Cons.prems g p None show ?thesis
        by (auto simp: cache_invalidate_covers reason_code_def split: probe_reason.splits)
    qed
  qed
qed simp

lemma prove_routes_sound:
  assumes "prove_routes sv resolve creds identity hit routes w = (res, w')"
  shows "(\<exists>reqs. w_sent w' = w_sent w @ reqs)
    \<and> (\<forall>s. res = Inr s \<longrightarrow> ws_identity s = identity \<and>
         (\<forall>r \<in> set routes. covers (cw_cache w) identity (ur_repo r) \<or>
            (\<exists>r' \<in> set routes. ur_repo r' = ur_repo r \<and> proven_between sv resolve (w_sent w) (w_sent w') r')))
    \<and> (\<forall>i q. covers (cw_cache w') i q \<longrightarrow> covers (cw_cache w) i q \<or>
         i = identity \<and> (\<exists>r \<in> set routes. ur_repo r = q \<and> proven_between sv resolve (w_sent w) (w_sent w') r))"
  using assms
proof (induction routes arbitrary: hit w)
  case Nil
  then show ?case by auto
next
  case (Cons r routes)
  obtain found w1 where g: "cache_get sv identity (ur_repo r) w = (found, w1)" by force
  note g1 = cache_get_world(1) [OF g] and g2 = cache_get_world(2) [OF g] and g3 = cache_get_world(3) [OF g]
  show ?case
  proof (cases found)
    case (Some l)
    with Cons.prems g have "prove_routes sv resolve creds identity hit routes w1 = (res, w')" by simp
    from Cons.IH [OF this] show ?thesis using g1 g2 g3 [OF Some] by (simp, blast)
  next
    case None
    obtain result w2 where p: "run_probe sv (resolve (ur_host r)) creds (ur_repo r) w1 = (result, w2)" by force
    from run_probe_world [OF p] obtain reqs where w2: "w2 = w1\<lparr>w_sent := w_sent w1 @ reqs\<rparr>" .
    then have sent2: "w_sent w2 = w_sent w @ reqs" and cache2: "cw_cache w2 = cw_cache w1" using g1 by simp_all
    show ?thesis
    proof (cases "\<exists>b. result = ProbeOk (JStr b)")
      case False
      with Cons.prems g None p have "w' = w2 \<or> w' = cache_invalidate identity w2" "\<And>s. res \<noteq> Inr s"
        by (auto split: probe_result.splits js.splits if_splits)
      then show ?thesis using sent2 cache2 g2 cache_invalidate_covers [of identity w2] by auto
    next
      case True
      then obtain b where b: "result = ProbeOk (JStr b)" by blast
      let ?w3 = "cache_record sv identity (ur_repo r) b w2"
      from registry.probe_confirms [OF p [unfolded b]] sent2
      have pr: "proven_between sv resolve (w_sent w) (w_sent w2) r"
        unfolding proven_between_def by (intro exI [of _ reqs] exI [of _ "[]"]) simp
      have "prove_routes sv resolve creds identity False routes ?w3 = (res, w')" using Cons.prems g None p b by simp
      note IH = Cons.IH [OF this]
      have c3: "covers (cw_cache ?w3) i q \<Longrightarrow> i = identity \<and> q = ur_repo r \<or> covers (cw_cache w) i q" for i q
        using cache_record_covers [of sv identity "ur_repo r" b w2 i q] cache2 g2 by auto
      from IH obtain more where more: "w_sent w' = w_sent w2 @ more" by auto
      then have pr': "proven_between sv resolve (w_sent w) (w_sent w') r"
        using pr proven_between_later by fastforce
      have widen: "proven_between sv resolve (w_sent ?w3) (w_sent w') q \<Longrightarrow> proven_between sv resolve (w_sent w) (w_sent w') q" for q
        using sent2 proven_between_widen by fastforce
      show ?thesis
      proof (intro conjI allI impI)
        show "\<exists>reqs. w_sent w' = w_sent w @ reqs" using more sent2 by simp
        fix s assume "res = Inr s"
        with IH show "ws_identity s = identity" by blast
        show "\<forall>q \<in> set (r # routes). covers (cw_cache w) identity (ur_repo q) \<or>
            (\<exists>r' \<in> set (r # routes). ur_repo r' = ur_repo q \<and> proven_between sv resolve (w_sent w) (w_sent w') r')"
        proof
          fix q assume "q \<in> set (r # routes)"
          then consider "q = r" | "q \<in> set routes" by auto
          then show "covers (cw_cache w) identity (ur_repo q) \<or>
            (\<exists>r' \<in> set (r # routes). ur_repo r' = ur_repo q \<and> proven_between sv resolve (w_sent w) (w_sent w') r')"
          proof cases
            case 1
            then show ?thesis using pr' by auto
          next
            case 2
            with IH \<open>res = Inr s\<close> have "covers (cw_cache ?w3) identity (ur_repo q) \<or>
              (\<exists>r' \<in> set routes. ur_repo r' = ur_repo q \<and> proven_between sv resolve (w_sent ?w3) (w_sent w') r')" by blast
            then show ?thesis using c3 [of identity "ur_repo q"] pr' widen by auto
          qed
        qed
      next
        fix i q assume "covers (cw_cache w') i q"
        then show "covers (cw_cache w) i q \<or>
         i = identity \<and> (\<exists>r' \<in> set (r # routes). ur_repo r' = q \<and> proven_between sv resolve (w_sent w) (w_sent w') r')"
          using IH c3 pr' widen by (metis list.set_intros(1) list.set_intros(2))
      qed
    qed
  qed
qed


text \<open>A route is determined by its host and its repository.\<close>

lemma to_lower_hosts:
  "to_lower ''ghcr.io'' = ''ghcr.io''" "to_lower ''gcr.io'' = ''gcr.io''" "to_lower ''quay.io'' = ''quay.io''"
  "to_lower ''registry.k8s.io'' = ''registry.k8s.io''" "to_lower ''docker.io'' = ''docker.io''"
  by code_simp+

lemma route_host_canonical:
  assumes "route_mirror_repo_to_upstream m = Some r"
  shows "to_lower (ur_host r) = ur_host r"
  using assms
proof (cases rule: route_cases)
  case (prefix p)
  then show ?thesis by (auto simp: PREFIX_TABLE_def to_lower_hosts)
next
  case hub
  then show ?thesis by (simp add: to_lower_hosts)
qed

lemma validate_wrapped_upstream_cases:
  assumes "validate_wrapped_upstream sv ring resolve token scope w = (res, w')"
  obtains (early) m c where "res = Inl (WrappedUpstreamError m c)"
      "c \<in> {NotConfigured, InvalidBlob, BlobExpired, RouteMismatch}" "w_sent w' = w_sent w" "cw_cache w' = cw_cache w"
    | (prove) blob u now routes w2 where "token = WRAPPED_UPSTREAM_TOKEN_PREFIX @ blob"
        "unwrap (as_open sv) (nat (sv_date sv (w_date_reads w))) ring blob = Inr u"
        "now = sv_date sv (Suc (w_date_reads w))"
        "\<not> num_gt (num_sub (Fin (of_int now)) (un_wrapped_at u)) (Fin (of_int WRAPPED_UPSTREAM_MAX_AGE_MS))"
        "extract_repos_from_scope scope \<noteq> []"
        "route_all (uc_host (un_creds u)) (extract_repos_from_scope scope) = Inr routes"
        "w_sent w2 = w_sent w" "cw_cache w2 = cw_cache w"
        "prove_routes sv resolve (un_creds u) (cred_identity (as_sha256 sv) (un_creds u)) True routes w2 = (res, w')"
proof (cases "ring = [] \<or> \<not> is_wrapped_upstream_token token")
  case True
  then show thesis using early assms by (auto simp: validate_wrapped_upstream_def split: if_splits)
next
  case False
  then obtain blob where token: "token = WRAPPED_UPSTREAM_TOKEN_PREFIX @ blob"
    by (auto simp: is_wrapped_upstream_token_def starts_with_iff)
  then have blob: "slice_from (int (length WRAPPED_UPSTREAM_TOKEN_PREFIX)) token = blob"
    by (simp add: slice_from_def)
  let ?un = "unwrap (as_open sv) (nat (sv_date sv (w_date_reads w))) ring blob"
  show thesis
  proof (cases ?un)
    case (Inl e)
    then show thesis using early assms False blob by (simp add: validate_wrapped_upstream_def) blast
  next
    case (Inr u)
    let ?w2 = "snd (read_date sv (snd (read_date sv w)))"
    let ?now = "sv_date sv (Suc (w_date_reads w))"
    let ?age = "num_sub (Fin (of_int ?now)) (un_wrapped_at u)"
    have w2: "w_sent ?w2 = w_sent w" "cw_cache ?w2 = cw_cache w" by simp_all
    have now: "fst (read_date sv (snd (read_date sv w))) = ?now" by (simp add: read_date_def)
    consider (old) "num_gt ?age (Fin (of_int WRAPPED_UPSTREAM_MAX_AGE_MS))"
      | (norepo) "\<not> num_gt ?age (Fin (of_int WRAPPED_UPSTREAM_MAX_AGE_MS))" "extract_repos_from_scope scope = []"
      | (noroute) e where "\<not> num_gt ?age (Fin (of_int WRAPPED_UPSTREAM_MAX_AGE_MS))"
          "extract_repos_from_scope scope \<noteq> []"
          "route_all (uc_host (un_creds u)) (extract_repos_from_scope scope) = Inl e"
      | (routes) routes where "\<not> num_gt ?age (Fin (of_int WRAPPED_UPSTREAM_MAX_AGE_MS))"
          "extract_repos_from_scope scope \<noteq> []"
          "route_all (uc_host (un_creds u)) (extract_repos_from_scope scope) = Inr routes"
      by (cases "route_all (uc_host (un_creds u)) (extract_repos_from_scope scope)") auto
    then show thesis
    proof cases
      case old
      then have "w' = ?w2" "\<exists>m. res = Inl (WrappedUpstreamError m BlobExpired)"
        using assms False blob Inr now by (auto simp: validate_wrapped_upstream_def Let_def case_prod_beta')
      then show thesis using early w2 by auto
    next
      case norepo
      then have "w' = ?w2" "\<exists>m. res = Inl (WrappedUpstreamError m RouteMismatch)"
        using assms False blob Inr now by (auto simp: validate_wrapped_upstream_def Let_def case_prod_beta')
      then show thesis using early w2 by auto
    next
      case noroute
      then have "w' = ?w2" "res = Inl e"
        using assms False blob Inr now by (auto simp: validate_wrapped_upstream_def Let_def case_prod_beta')
      moreover have "\<exists>m. e = WrappedUpstreamError m RouteMismatch"
        using noroute(3) route_all_Inl by blast
      ultimately show thesis using early w2 by auto
    next
      case routes
      then have "prove_routes sv resolve (un_creds u) (cred_identity (as_sha256 sv) (un_creds u)) True routes ?w2 = (res, w')"
        using assms False blob Inr now by (simp add: validate_wrapped_upstream_def Let_def case_prod_beta')
      then show thesis using prove [OF token Inr refl routes(1-3) w2] by blast
    qed
  qed
qed

section \<open>Properties\<close>

text \<open>
  C15. A wrapped credential is honoured only for what it proves: if validation succeeds, the blob was
  opened by the key ring and is not older than ten minutes, and every resource the request
  names routes to the very host the envelope was sealed for and was either in the proof cache under
  this credential's identity, or confirmed by that registry during this request.
\<close>

theorem wrapped_upstream_sound:
  assumes "validate_wrapped_upstream sv ring resolve token scope w = (Inr s, w')"
  shows "\<exists>blob u. token = WRAPPED_UPSTREAM_TOKEN_PREFIX @ blob
    \<and> unwrap (as_open sv) (nat (sv_date sv (w_date_reads w))) ring blob = Inr u
    \<and> \<not> num_gt (num_sub (Fin (of_int (sv_date sv (Suc (w_date_reads w))))) (un_wrapped_at u)) (Fin 600000)
    \<and> ws_identity s = cred_identity (as_sha256 sv) (un_creds u)
    \<and> parse_requested_scopes scope \<noteq> []
    \<and> (\<forall>sc \<in> set (parse_requested_scopes scope). \<exists>route.
          route_mirror_repo_to_upstream (sc_name sc) = Some route
        \<and> to_lower (ur_host route) = to_lower (uc_host (un_creds u))
        \<and> (covers (cw_cache w) (ws_identity s) (ur_repo route)
           \<or> proven_between sv resolve (w_sent w) (w_sent w') route))"
  using assms
proof (cases rule: validate_wrapped_upstream_cases)
  case (prove blob u now routes w2)
  let ?h = "uc_host (un_creds u)" and ?id = "cred_identity (as_sha256 sv) (un_creds u)"
  note all2 = route_all_Inr [OF prove(6)]
  note sound = prove_routes_sound [OF prove(9)]
  have "\<exists>route. route_mirror_repo_to_upstream (sc_name sc) = Some route
        \<and> to_lower (ur_host route) = to_lower ?h
        \<and> (covers (cw_cache w) ?id (ur_repo route) \<or> proven_between sv resolve (w_sent w) (w_sent w') route)"
    if sc: "sc \<in> set (parse_requested_scopes scope)" for sc
  proof -
    from sc have "sc_name sc \<in> set (extract_repos_from_scope scope)" by (simp add: extract_repos_from_scope_def)
    from list_all2_left [OF all2 this] obtain r where r: "r \<in> set routes"
        "route_mirror_repo_to_upstream (sc_name sc) = Some r" "route_matches_wrapped_host r ?h"
      by blast
    have same: "r' = r" if r': "r' \<in> set routes" "ur_repo r' = ur_repo r" for r'
    proof -
      from list_all2_right [OF all2 r'(1)]
      obtain m' where m': "route_mirror_repo_to_upstream m' = Some r'" "route_matches_wrapped_host r' ?h"
        by blast
      have "ur_host r' = ur_host r"
        using route_host_canonical [OF m'(1)] route_host_canonical [OF r(2)] m'(2) r(3)
        by (simp add: route_matches_wrapped_host_def)
      with r'(2) show ?thesis by simp
    qed
    from sound prove(7,8) r(1) have "covers (cw_cache w) ?id (ur_repo r) \<or>
        (\<exists>r' \<in> set routes. ur_repo r' = ur_repo r \<and> proven_between sv resolve (w_sent w) (w_sent w') r')"
      by metis
    with same have "covers (cw_cache w) ?id (ur_repo r) \<or> proven_between sv resolve (w_sent w) (w_sent w') r" by blast
    with r show ?thesis by (auto simp: route_matches_wrapped_host_def)
  qed
  moreover have "ws_identity s = ?id" using sound by simp
  moreover have "parse_requested_scopes scope \<noteq> []" using prove(5) by (auto simp: extract_repos_from_scope_def uniq_def)
  moreover have "\<not> num_gt (num_sub (Fin (of_int (sv_date sv (Suc (w_date_reads w))))) (un_wrapped_at u)) (Fin 600000)"
    using prove(3,4) by (simp add: WRAPPED_UPSTREAM_MAX_AGE_MS_def)
  ultimately show ?thesis using prove(1,2) by metis
qed simp



section \<open>Instances\<close>

definition demo_ring :: wrap_key_ring where
  "demo_ring = [\<lparr>wk_id = ''k0'', wk_bytes = ''O''\<rparr>]"

definition demo_blob :: string where
  "demo_blob = projr (wrap demo_seal ''abcdefghijkl'' demo_ring demo_creds 1000)"

definition demo_auth :: auth_services where
  "demo_auth = \<lparr>sv_net = demo_net, sv_hrtime = int, sv_date = (\<lambda>i. 1000 + int i), sv_metrics_enabled = True,
     as_open = demo_open, as_sha256 = (\<lambda>s. s)\<rparr>"

definition demo_world :: cached_world where
  "demo_world = \<lparr>w_sent = [], w_hr_reads = 0, w_date_reads = 0, w_metrics = [], w_pool_bound = False,
     cw_cache = new_proof_cache None None\<rparr>"

lemma demo_unwrap:
  "unwrap demo_open now demo_ring demo_blob =
     Inr \<lparr>un_creds = demo_creds, un_wrapped_at = Fin (of_nat 1000), un_age_ms = Fin (of_nat now - of_nat 1000), un_key_id = ''k0''\<rparr>"
proof -
  let ?key = "\<lparr>wk_id = ''k0'', wk_bytes = ''O''\<rparr>"
  have nonce: "length ''abcdefghijkl'' = NONCE_LEN" by (simp add: NONCE_LEN_def)
  have ts: "(1000 :: nat) < 2 ^ 52" by simp
  have blob: "wrap demo_seal ''abcdefghijkl'' (?key # []) demo_creds 1000 = Inr demo_blob"
    unfolding demo_blob_def demo_ring_def by (rule wrap_head_projr)
  have "unwrap demo_open now ([] @ ?key # []) demo_blob =
     Inr \<lparr>un_creds = demo_creds, un_wrapped_at = Fin (of_nat 1000), un_age_ms = Fin (of_nat now - of_nat 1000), un_key_id = wk_id ?key\<rparr>"
    by (rule unwrap_after_rotation [OF demo_aead_law nonce ts blob]) simp
  then show ?thesis by (simp add: demo_ring_def)
qed

lemma demo_scope: "extract_repos_from_scope (JStr ''repository:aocr/ghcr/o/r:pull'') = [''aocr/ghcr/o/r'']"
  by code_simp

lemma demo_routes: "route_all ''ghcr.io'' [''aocr/ghcr/o/r''] = Inr [\<lparr>ur_host = ''ghcr.io'', ur_repo = ''o/r''\<rparr>]"
  by code_simp

lemma demo_bad_scope: "extract_repos_from_scope (JStr ''repository:aocr/x:pull'') = [''aocr/x'']"
  by code_simp

lemma demo_no_route: "\<exists>m. route_all ''ghcr.io'' [''aocr/x''] = Inl (WrappedUpstreamError m RouteMismatch)"
proof -
  have "route_mirror_repo_to_upstream ''aocr/x'' = None" by code_simp
  then show ?thesis by simp
qed

lemma demo_probe:
  "run_probe demo_auth (get_probe_for_host ''ghcr.io'') creds ''o/r'' w =
     (ProbeOk (JStr ''T''), w\<lparr>w_sent := w_sent w @
        [token_request (case get_probe_for_host ''ghcr.io'' of TokenExchange c \<Rightarrow> c) creds ''o/r'',
         manifest_request (case get_probe_for_host ''ghcr.io'' of TokenExchange c \<Rightarrow> c) (JStr ''T'') ''o/r'']\<rparr>)"
  by (simp add: get_probe_for_host_def to_lower_hosts PROBES_def run_probe_def token_exchange_probe_def axios_request_def
      demo_auth_def demo_net_def token_request_def manifest_request_def below_500_def refused_status_def readable_status_def
      token_of_body_def js_prop_def js_nullish_def js_truthy_def confirm_bearer_def)

definition demo_token :: string where
  "demo_token = WRAPPED_UPSTREAM_TOKEN_PREFIX @ demo_blob"

lemma demo_token_parts:
  "is_wrapped_upstream_token demo_token"
  "slice_from (int (length WRAPPED_UPSTREAM_TOKEN_PREFIX)) demo_token = demo_blob"
  by (simp_all add: demo_token_def WRAPPED_UPSTREAM_TOKEN_PREFIX_def is_wrapped_upstream_token_def slice_from_def)

lemma demo_world_cache [simp]: "map_of (pc_entries (cw_cache demo_world)) i = None"
  by (simp add: demo_world_def new_proof_cache_def)

lemma demo_validate_shape:
  assumes "extract_repos_from_scope scope = repos" and "repos \<noteq> []"
  shows "validate_wrapped_upstream demo_auth demo_ring get_probe_for_host demo_token scope demo_world =
    (case route_all ''ghcr.io'' repos of
       Inl e \<Rightarrow> (Inl e, demo_world\<lparr>w_date_reads := 2\<rparr>)
     | Inr routes \<Rightarrow> prove_routes demo_auth get_probe_for_host demo_creds
         (cred_identity (\<lambda>s. s) demo_creds) True routes (demo_world\<lparr>w_date_reads := 2\<rparr>))"
proof -
  have ring: "demo_ring \<noteq> []" by (simp add: demo_ring_def)
  have auth: "as_open demo_auth = demo_open" "as_sha256 demo_auth = (\<lambda>s. s)" "sv_date demo_auth = (\<lambda>i. 1000 + int i)"
    by (simp_all add: demo_auth_def)
  have world: "w_date_reads demo_world = 0" by (simp add: demo_world_def)
  show ?thesis
    using assms ring
    by (simp add: validate_wrapped_upstream_def demo_token_parts demo_unwrap auth world read_date_def Let_def
        WRAPPED_UPSTREAM_MAX_AGE_MS_def demo_creds_def numeral_2_eq_2 split: sum.split)
qed

lemma demo_prove:
  "\<exists>w'. prove_routes demo_auth get_probe_for_host demo_creds (cred_identity (\<lambda>s. s) demo_creds) True
      [\<lparr>ur_host = ''ghcr.io'', ur_repo = ''o/r''\<rparr>] demo_world
    = (Inr \<lparr>ws_identity = cred_identity (\<lambda>s. s) demo_creds, ws_cache_hit = False\<rparr>, w')"
  by (simp add: cache_get_def demo_probe)

lemma demo_validate:
  "\<exists>w'. validate_wrapped_upstream demo_auth demo_ring get_probe_for_host demo_token
      (JStr ''repository:aocr/ghcr/o/r:pull'') demo_world
    = (Inr \<lparr>ws_identity = cred_identity (\<lambda>s. s) demo_creds, ws_cache_hit = False\<rparr>, w')"
proof -
  have ne: "[''aocr/ghcr/o/r''] \<noteq> []" by simp
  show ?thesis
    unfolding demo_validate_shape [OF demo_scope ne] demo_routes sum.case prove_routes.simps
    by (simp add: cache_get_def demo_probe)
qed

lemma demo_validate_refused:
  "\<exists>m. validate_wrapped_upstream demo_auth demo_ring get_probe_for_host demo_token
      (JStr ''repository:aocr/x:pull'') demo_world
    = (Inl (WrappedUpstreamError m RouteMismatch), demo_world\<lparr>w_date_reads := 2\<rparr>)"
proof -
  have ne: "[''aocr/x''] \<noteq> []" by simp
  from demo_no_route obtain m where "route_all ''ghcr.io'' [''aocr/x''] = Inl (WrappedUpstreamError m RouteMismatch)"
    by blast
  then show ?thesis unfolding demo_validate_shape [OF demo_bad_scope ne] by simp
qed

theorem wrapped_upstream_sound_witness:
  "\<exists>w' :: cached_world. \<forall>sc \<in> set (parse_requested_scopes (JStr ''repository:aocr/ghcr/o/r:pull'')). \<exists>route.
     route_mirror_repo_to_upstream (sc_name sc) = Some route
     \<and> proven_between demo_auth get_probe_for_host [] (w_sent w') route"
proof -
  from demo_validate obtain w' where
    v: "validate_wrapped_upstream demo_auth demo_ring get_probe_for_host demo_token
      (JStr ''repository:aocr/ghcr/o/r:pull'') demo_world
    = (Inr \<lparr>ws_identity = cred_identity (\<lambda>s. s) demo_creds, ws_cache_hit = False\<rparr>, w')" by blast
  have nocache: "\<not> covers (cw_cache demo_world) i q" and nosent: "w_sent demo_world = []" for i q
    by (simp_all add: demo_world_def)
  from wrapped_upstream_sound [OF v, unfolded nosent] nocache show ?thesis by blast
qed


end
