(* ===== verification/Interleave.thy ===== *)
theory Interleave
  imports Strategy
begin

text \<open>
  Concurrent wrapped-upstream requests on one proof cache. A request runs \<open>prove_routes\<close> of
  \<open>auth/src/upstreamAuth/strategy.ts\<close>, and gives way to the others wherever that loop awaits its
  probe: between the miss and the recording the cache may have changed. The steps below cut the
  loop at its awaits; \<open>sys_proofs\<close> is a ghost, the probes answered with yes. The system is
  parametric in the hash that names a credential.
\<close>

datatype phase = Checking "upstream_route list" | Probing upstream_route "upstream_route list" | Served | Refused wu_code

record proof_request =
  pr_creds :: upstream_credentials
  pr_routes :: "upstream_route list"
  pr_phase :: phase

record proof_system =
  sys_cache :: proof_cache
  sys_requests :: "proof_request list"
  sys_proofs :: "(upstream_credentials \<times> upstream_route) list"

definition initial_system :: "int option \<Rightarrow> int option \<Rightarrow> proof_system" where
  "initial_system ttl mx = \<lparr>sys_cache = new_proof_cache ttl mx, sys_requests = [], sys_proofs = []\<rparr>"

definition set_phase :: "nat \<Rightarrow> phase \<Rightarrow> proof_system \<Rightarrow> proof_system" where
  "set_phase k p s = s\<lparr>sys_requests := (sys_requests s)[k := (sys_requests s ! k)\<lparr>pr_phase := p\<rparr>]\<rparr>"

abbreviation req_identity :: "(string \<Rightarrow> string) \<Rightarrow> proof_system \<Rightarrow> nat \<Rightarrow> string" where
  "req_identity sha s k \<equiv> cred_identity sha (pr_creds (sys_requests s ! k))"

inductive proof_step :: "(string \<Rightarrow> string) \<Rightarrow> proof_system \<Rightarrow> proof_system \<Rightarrow> bool" for sha where
  arrive: "route_all (uc_host creds) repos = Inr routes \<Longrightarrow>
    proof_step sha s (s\<lparr>sys_requests := sys_requests s @ [\<lparr>pr_creds = creds, pr_routes = routes, pr_phase = Checking routes\<rparr>]\<rparr>)"
| hit: "k < length (sys_requests s) \<Longrightarrow> pr_phase (sys_requests s ! k) = Checking (r # rs) \<Longrightarrow>
    get_proof now (req_identity sha s k) (ur_repo r) (sys_cache s) = (Some l, c) \<Longrightarrow>
    proof_step sha s (set_phase k (Checking rs) (s\<lparr>sys_cache := c\<rparr>))"
| miss: "k < length (sys_requests s) \<Longrightarrow> pr_phase (sys_requests s ! k) = Checking (r # rs) \<Longrightarrow>
    get_proof now (req_identity sha s k) (ur_repo r) (sys_cache s) = (None, c) \<Longrightarrow>
    proof_step sha s (set_phase k (Probing r rs) (s\<lparr>sys_cache := c\<rparr>))"
| proved: "k < length (sys_requests s) \<Longrightarrow> pr_phase (sys_requests s ! k) = Probing r rs \<Longrightarrow>
    proof_step sha s (set_phase k (Checking rs)
      (s\<lparr>sys_cache := record_proof now (req_identity sha s k) (ur_repo r) bearer (sys_cache s),
         sys_proofs := (pr_creds (sys_requests s ! k), r) # sys_proofs s\<rparr>))"
| refused: "k < length (sys_requests s) \<Longrightarrow> pr_phase (sys_requests s ! k) = Probing r rs \<Longrightarrow>
    proof_step sha s (set_phase k (Refused (reason_code reason))
      (if reason = Unauthorized then s\<lparr>sys_cache := invalidate (req_identity sha s k) (sys_cache s)\<rparr> else s))"
| served: "k < length (sys_requests s) \<Longrightarrow> pr_phase (sys_requests s ! k) = Checking [] \<Longrightarrow>
    proof_step sha s (set_phase k Served s)"

inductive_cases proof_stepE: "proof_step sha s s'"

definition proof_reachable :: "(string \<Rightarrow> string) \<Rightarrow> int option \<Rightarrow> int option \<Rightarrow> proof_system \<Rightarrow> bool" where
  "proof_reachable sha ttl mx s \<longleftrightarrow> (proof_step sha)\<^sup>*\<^sup>* (initial_system ttl mx) s"

section \<open>The invariant\<close>

definition was_proven :: "(string \<Rightarrow> string) \<Rightarrow> proof_system \<Rightarrow> string \<Rightarrow> string \<Rightarrow> bool" where
  "was_proven sha s identity repo \<longleftrightarrow>
     (\<exists>(c, r) \<in> set (sys_proofs s). cred_identity sha c = identity \<and> ur_repo r = repo \<and> route_matches_wrapped_host r (uc_host c))"

definition pending :: "phase \<Rightarrow> upstream_route set" where
  "pending p = (case p of Checking rs \<Rightarrow> set rs | Probing r rs \<Rightarrow> insert r (set rs) | Served \<Rightarrow> {} | Refused _ \<Rightarrow> UNIV)"

definition request_ok :: "(string \<Rightarrow> string) \<Rightarrow> proof_system \<Rightarrow> proof_request \<Rightarrow> bool" where
  "request_ok sha s q \<longleftrightarrow>
     (\<forall>r \<in> set (pr_routes q). route_matches_wrapped_host r (uc_host (pr_creds q)) \<and>
        (r \<in> pending (pr_phase q) \<or> was_proven sha s (cred_identity sha (pr_creds q)) (ur_repo r)))
     \<and> (case pr_phase q of Refused _ \<Rightarrow> True | p \<Rightarrow> pending p \<subseteq> set (pr_routes q))"

definition system_inv :: "(string \<Rightarrow> string) \<Rightarrow> proof_system \<Rightarrow> bool" where
  "system_inv sha s \<longleftrightarrow> proof_cache_inv (sys_cache s)
     \<and> (\<forall>i q. covers (sys_cache s) i q \<longrightarrow> was_proven sha s i q)
     \<and> (\<forall>q \<in> set (sys_requests s). request_ok sha s q)"

lemma request_ok_mono:
  "request_ok sha s q \<Longrightarrow> set (sys_proofs s) \<subseteq> set (sys_proofs s') \<Longrightarrow> request_ok sha s' q"
  unfolding request_ok_def was_proven_def by (auto; blast)

lemma was_proven_same_proofs: "sys_proofs s' = sys_proofs s \<Longrightarrow> was_proven sha s' = was_proven sha s"
  by (intro ext) (simp add: was_proven_def)

text \<open>One step changes the cache, the ghost and the phase of one request; the rest is monotone.\<close>

lemma system_inv_step:
  assumes "system_inv sha s" and "k < length (sys_requests s)"
    and "proof_cache_inv c" and "set (sys_proofs s) \<subseteq> set ps"
    and "\<And>i q. covers c i q \<Longrightarrow> was_proven sha (s\<lparr>sys_cache := c, sys_proofs := ps\<rparr>) i q"
    and "request_ok sha (s\<lparr>sys_cache := c, sys_proofs := ps\<rparr>) ((sys_requests s ! k)\<lparr>pr_phase := p\<rparr>)"
  shows "system_inv sha (set_phase k p (s\<lparr>sys_cache := c, sys_proofs := ps\<rparr>))"
proof -
  let ?s = "s\<lparr>sys_cache := c, sys_proofs := ps\<rparr>" and ?s' = "set_phase k p (s\<lparr>sys_cache := c, sys_proofs := ps\<rparr>)"
  have proofs: "sys_proofs ?s' = sys_proofs ?s" by (simp add: set_phase_def)
  have reqs: "set (sys_requests ?s') \<subseteq> insert ((sys_requests s ! k)\<lparr>pr_phase := p\<rparr>) (set (sys_requests s))"
    using set_update_subset_insert by (fastforce simp: set_phase_def)
  have "request_ok sha ?s' q" if "q \<in> set (sys_requests ?s')" for q
  proof -
    from reqs that consider "q = (sys_requests s ! k)\<lparr>pr_phase := p\<rparr>" | "q \<in> set (sys_requests s)" by blast
    then show ?thesis
    proof cases
      case 1
      with assms(6) proofs show ?thesis by (auto intro: request_ok_mono)
    next
      case 2
      with assms(1) have "request_ok sha s q" by (simp add: system_inv_def)
      then show ?thesis using assms(4) proofs by (rule_tac request_ok_mono) auto
    qed
  qed
  with assms(3,5) proofs show ?thesis
    unfolding system_inv_def by (auto simp: set_phase_def was_proven_def)
qed

lemma system_inv_request: "system_inv sha s \<Longrightarrow> k < length (sys_requests s) \<Longrightarrow> request_ok sha s (sys_requests s ! k)"
  by (simp add: system_inv_def)

lemma system_inv_proven: "system_inv sha s \<Longrightarrow> covers (sys_cache s) i q \<Longrightarrow> was_proven sha s i q"
  by (simp add: system_inv_def)

lemma proof_step_inv: "proof_step sha s s' \<Longrightarrow> system_inv sha s \<Longrightarrow> system_inv sha s'"
proof (induction rule: proof_step.induct)
  case (arrive creds repos routes s)
  let ?q = "\<lparr>pr_creds = creds, pr_routes = routes, pr_phase = Checking routes\<rparr>"
  have "request_ok sha s ?q"
    using list_all2_right [OF route_all_Inr [OF arrive(1)]] by (auto simp: request_ok_def pending_def)
  then show ?case using arrive(2) by (auto simp: system_inv_def request_ok_def was_proven_def)
next
  case (hit k s r rs now l c)
  note q = system_inv_request [OF hit(4,1)]
  from hit(3) have "covers (sys_cache s) (req_identity sha s k) (ur_repo r)" using get_proof_hit by (metis fst_conv)
  with hit(4) have "was_proven sha s (req_identity sha s k) (ur_repo r)" by (rule system_inv_proven)
  then have "request_ok sha s ((sys_requests s ! k)\<lparr>pr_phase := Checking rs\<rparr>)"
    using q hit(2) by (auto simp: request_ok_def pending_def)
  then have ok: "request_ok sha (s\<lparr>sys_cache := c, sys_proofs := sys_proofs s\<rparr>) ((sys_requests s ! k)\<lparr>pr_phase := Checking rs\<rparr>)"
    by (rule request_ok_mono) simp
  have cov: "was_proven sha (s\<lparr>sys_cache := c, sys_proofs := sys_proofs s\<rparr>) i q" if "covers c i q" for i q
    using that system_inv_proven [OF hit(4)] get_proof_covers hit(3) by (metis snd_conv was_proven_same_proofs [of "s\<lparr>sys_cache := c, sys_proofs := sys_proofs s\<rparr>" s] proof_system.select_convs(3) proof_system.surjective proof_system.update_convs(1) proof_system.update_convs(3))
  have inv: "proof_cache_inv c" using pstore.inv_get hit(3,4) by (metis snd_conv system_inv_def)
  from system_inv_step [OF hit(4,1) inv order_refl cov ok] show ?case by simp
next
  case (miss k s r rs now c)
  note q = system_inv_request [OF miss(4,1)]
  have "request_ok sha s ((sys_requests s ! k)\<lparr>pr_phase := Probing r rs\<rparr>)"
    using q miss(2) by (auto simp: request_ok_def pending_def)
  then have ok: "request_ok sha (s\<lparr>sys_cache := c, sys_proofs := sys_proofs s\<rparr>) ((sys_requests s ! k)\<lparr>pr_phase := Probing r rs\<rparr>)"
    by (rule request_ok_mono) simp
  have cov: "was_proven sha (s\<lparr>sys_cache := c, sys_proofs := sys_proofs s\<rparr>) i q" if "covers c i q" for i q
    using that system_inv_proven [OF miss(4)] get_proof_covers miss(3) by (metis snd_conv was_proven_same_proofs [of "s\<lparr>sys_cache := c, sys_proofs := sys_proofs s\<rparr>" s] proof_system.select_convs(3) proof_system.surjective proof_system.update_convs(1) proof_system.update_convs(3))
  have inv: "proof_cache_inv c" using pstore.inv_get miss(3,4) by (metis snd_conv system_inv_def)
  from system_inv_step [OF miss(4,1) inv order_refl cov ok] show ?case by simp
next
  case (proved k s r rs now bearer)
  let ?id = "req_identity sha s k"
  let ?c = "record_proof now ?id (ur_repo r) bearer (sys_cache s)"
  let ?ps = "(pr_creds (sys_requests s ! k), r) # sys_proofs s"
  let ?s = "s\<lparr>sys_cache := ?c, sys_proofs := ?ps\<rparr>"
  note q = system_inv_request [OF proved(3,1)]
  have new: "was_proven sha ?s ?id (ur_repo r)"
    using q proved(2) by (auto simp: request_ok_def pending_def was_proven_def)
  have old: "was_proven sha s i p \<Longrightarrow> was_proven sha ?s i p" for i p by (auto simp: was_proven_def)
  have "request_ok sha ?s (sys_requests s ! k)" using q by (rule request_ok_mono) auto
  with new proved(2) have ok: "request_ok sha ?s ((sys_requests s ! k)\<lparr>pr_phase := Checking rs\<rparr>)"
    by (auto simp: request_ok_def pending_def)
  have cov: "was_proven sha ?s i p" if "covers ?c i p" for i p
    using record_proof_covers [OF that] new old system_inv_proven [OF proved(3)] by blast
  have inv: "proof_cache_inv ?c" using pstore.inv_rec proved(3) by (metis system_inv_def)
  have "set (sys_proofs s) \<subseteq> set ?ps" by auto
  from system_inv_step [OF proved(3,1) inv this cov ok] show ?case by simp
next
  case (refused k s r rs reason)
  let ?c = "if reason = Unauthorized then invalidate (req_identity sha s k) (sys_cache s) else sys_cache s"
  let ?s = "s\<lparr>sys_cache := ?c, sys_proofs := sys_proofs s\<rparr>"
  note q = system_inv_request [OF refused(3,1)]
  have ok: "request_ok sha ?s ((sys_requests s ! k)\<lparr>pr_phase := Refused (reason_code reason)\<rparr>)"
    using q by (auto simp: request_ok_def pending_def)
  have cov: "was_proven sha ?s i p" if "covers ?c i p" for i p
    using that system_inv_proven [OF refused(3), of i p]
    by (auto simp: was_proven_def invalidate_def evict_covers split: if_splits)
  have inv: "proof_cache_inv ?c" using pstore.inv_inval refused(3) by (auto simp: system_inv_def)
  from system_inv_step [OF refused(3,1) inv order_refl cov ok] show ?case by (simp split: if_splits)
next
  case (served k s)
  note q = system_inv_request [OF served(3,1)]
  have "request_ok sha s ((sys_requests s ! k)\<lparr>pr_phase := Served\<rparr>)"
    using q served(2) by (auto simp: request_ok_def pending_def)
  then show ?case
    using system_inv_step [OF served(3,1), of "sys_cache s" "sys_proofs s" Served] served(3)
    by (simp add: system_inv_def)
qed

text \<open>The sequential loop is one run of the system: the steps refine it.\<close>

lemma set_phase_nth [simp]:
  "k < length (sys_requests s) \<Longrightarrow> sys_requests (set_phase k p s) ! k = (sys_requests s ! k)\<lparr>pr_phase := p\<rparr>"
  "length (sys_requests (set_phase k p s)) = length (sys_requests s)"
  "sys_cache (set_phase k p s) = sys_cache s"
  by (simp_all add: set_phase_def)

lemma cache_get_as_get_proof:
  assumes "cache_get sv i q w = (found, w1)"
  shows "\<exists>now. get_proof now i q (cw_cache w) = (found, cw_cache w1)"
proof (cases "map_of (pc_entries (cw_cache w)) i")
  case None
  with assms show ?thesis by (auto simp: cache_get_def get_proof_def)
next
  case (Some e)
  with assms have "get_proof (sv_date sv (w_date_reads w)) i q (cw_cache w) = (found, cw_cache w1)"
    by (cases "get_proof (sv_date sv (w_date_reads w)) i q (cw_cache w)") (auto simp: cache_get_def read_date_def)
  then show ?thesis by blast
qed

lemma prove_routes_simulated:
  assumes "prove_routes sv resolve creds identity hit routes w = (res, w')" and "res \<noteq> Inl RecordTypeError"
    and "k < length (sys_requests s)" and "pr_creds (sys_requests s ! k) = creds"
    and "pr_phase (sys_requests s ! k) = Checking routes" and "sys_cache s = cw_cache w" and "identity = cred_identity sha creds"
  shows "\<exists>s'. (proof_step sha)\<^sup>*\<^sup>* s s' \<and> sys_cache s' = cw_cache w' \<and>
           pr_phase (sys_requests s' ! k) = (case res of Inr _ \<Rightarrow> Served | Inl e \<Rightarrow> Refused (wu_code e))"
  using assms
proof (induction routes arbitrary: hit w s)
  case Nil
  then have "proof_step sha s (set_phase k Served s)" by (intro served) auto
  with Nil show ?case by (intro exI [of _ "set_phase k Served s"]) auto
next
  case (Cons r rs)
  obtain found w1 where g: "cache_get sv identity (ur_repo r) w = (found, w1)" by force
  from cache_get_as_get_proof [OF g] obtain now where
    gp: "get_proof now (req_identity sha s k) (ur_repo r) (sys_cache s) = (found, cw_cache w1)"
    using Cons.prems by auto
  show ?case
  proof (cases found)
    case (Some l)
    let ?s1 = "set_phase k (Checking rs) (s\<lparr>sys_cache := cw_cache w1\<rparr>)"
    have st: "proof_step sha s ?s1" using hit [OF Cons.prems(3,5) gp [unfolded Some]] .
    have run: "prove_routes sv resolve creds identity hit rs w1 = (res, w')" using Cons.prems(1) g Some by simp
    have "\<exists>s'. (proof_step sha)\<^sup>*\<^sup>* ?s1 s' \<and> sys_cache s' = cw_cache w' \<and>
           pr_phase (sys_requests s' ! k) = (case res of Inr _ \<Rightarrow> Served | Inl e \<Rightarrow> Refused (wu_code e))"
      by (rule Cons.IH [OF run Cons.prems(2)]) (use Cons.prems in simp_all)
    with st show ?thesis by (meson converse_rtranclp_into_rtranclp)
  next
    case None
    let ?s1 = "set_phase k (Probing r rs) (s\<lparr>sys_cache := cw_cache w1\<rparr>)"
    have st: "proof_step sha s ?s1" using miss [OF Cons.prems(3,5) gp [unfolded None]] .
    have s1: "k < length (sys_requests ?s1)" "pr_phase (sys_requests ?s1 ! k) = Probing r rs"
        "pr_creds (sys_requests ?s1 ! k) = creds" "sys_cache ?s1 = cw_cache w1"
      using Cons.prems by simp_all
    obtain result w2 where p: "run_probe sv (resolve (ur_host r)) creds (ur_repo r) w1 = (result, w2)" by force
    then have c2: "cw_cache w2 = cw_cache w1" by (elim run_probe_world) simp
    show ?thesis
    proof (cases result)
      case (ProbeOk b)
      with Cons.prems(1,2) g None p obtain t where t: "b = JStr t"
        and run: "prove_routes sv resolve creds identity False rs (cache_record sv identity (ur_repo r) t w2) = (res, w')"
        by (auto split: js.splits)
      obtain t0 where t0: "cw_cache (cache_record sv identity (ur_repo r) t w2) = record_proof t0 identity (ur_repo r) t (cw_cache w1)"
        using c2 by (auto simp: cache_record_def read_date_def)
      let ?s2 = "set_phase k (Checking rs) (?s1\<lparr>sys_cache := record_proof t0 (req_identity sha ?s1 k) (ur_repo r) t (sys_cache ?s1),
        sys_proofs := (pr_creds (sys_requests ?s1 ! k), r) # sys_proofs ?s1\<rparr>)"
      have st2: "proof_step sha ?s1 ?s2" by (rule proved [OF s1(1,2)])
      have "\<exists>s'. (proof_step sha)\<^sup>*\<^sup>* ?s2 s' \<and> sys_cache s' = cw_cache w' \<and>
           pr_phase (sys_requests s' ! k) = (case res of Inr _ \<Rightarrow> Served | Inl e \<Rightarrow> Refused (wu_code e))"
        by (rule Cons.IH [OF run Cons.prems(2)]) (use s1 t0 Cons.prems(3,4,7) in simp_all)
      with st st2 show ?thesis by (meson converse_rtranclp_into_rtranclp)
    next
      case (ProbeErr reason detail)
      let ?s2 = "set_phase k (Refused (reason_code reason))
        (if reason = Unauthorized then ?s1\<lparr>sys_cache := invalidate (req_identity sha ?s1 k) (sys_cache ?s1)\<rparr> else ?s1)"
      have st2: "proof_step sha ?s1 ?s2" by (rule refused [OF s1(1,2)])
      have res: "(\<exists>m. res = Inl (WrappedUpstreamError m (reason_code reason))) \<and>
          w' = (if reason = Unauthorized then cache_invalidate identity w2 else w2)"
        using Cons.prems(1) g None p ProbeErr by auto
      have "sys_cache ?s2 = cw_cache w' \<and> pr_phase (sys_requests ?s2 ! k) = Refused (reason_code reason)"
        using res s1 c2 Cons.prems(7) by (auto simp: cache_invalidate_def)
      moreover have "(proof_step sha)\<^sup>*\<^sup>* s ?s2" using st st2 by (meson converse_rtranclp_into_rtranclp rtranclp.rtrancl_refl)
      ultimately show ?thesis using res by (intro exI [of _ ?s2]) auto
    qed
  qed
qed

lemma reachable_inv: "proof_reachable sha ttl mx s \<Longrightarrow> system_inv sha s"
  unfolding proof_reachable_def
proof (induction rule: rtranclp_induct)
  case base
  show ?case by (simp add: system_inv_def initial_system_def new_proof_cache_inv)
next
  case (step s s')
  then show ?case using proof_step_inv by blast
qed


section \<open>Properties\<close>

text \<open>
  C8. Concurrency does not forge access: in every interleaving of any number of requests on one
  cache, an answer the cache holds goes back to a probe that the upstream answered yes for
  credentials of that identity, and a request that was served has such a probe for every
  repository it asked for, each at the host its own credentials are for.
\<close>

theorem interleaved_proofs_sound:
  assumes "proof_reachable sha ttl mx s"
  shows "(covers (sys_cache s) i q \<longrightarrow> was_proven sha s i q)
    \<and> (\<forall>req \<in> set (sys_requests s). pr_phase req = Served \<longrightarrow>
         (\<forall>r \<in> set (pr_routes req). route_matches_wrapped_host r (uc_host (pr_creds req)) \<and>
            was_proven sha s (cred_identity sha (pr_creds req)) (ur_repo r)))
    \<and> within_capacity (sys_cache s)"
  using reachable_inv [OF assms]
  by (auto simp: system_inv_def request_ok_def pending_def proof_cache_inv_def)

definition demo_arrived :: proof_system where
  "demo_arrived = \<lparr>sys_cache = new_proof_cache None None,
     sys_requests = [\<lparr>pr_creds = demo_creds, pr_routes = [\<lparr>ur_host = ''ghcr.io'', ur_repo = ''o/r''\<rparr>],
                      pr_phase = Checking [\<lparr>ur_host = ''ghcr.io'', ur_repo = ''o/r''\<rparr>]\<rparr>], sys_proofs = []\<rparr>"

lemma demo_arrives: "proof_step sha (initial_system None None) demo_arrived"
proof -
  have "route_all (uc_host demo_creds) [''aocr/ghcr/o/r''] = Inr [\<lparr>ur_host = ''ghcr.io'', ur_repo = ''o/r''\<rparr>]"
    using demo_routes by (simp add: demo_creds_def del: route_all.simps)
  from arrive [OF this, of sha "initial_system None None"] show ?thesis
    by (simp add: initial_system_def demo_arrived_def)
qed

lemma demo_arrived_simps:
  "sys_requests demo_arrived ! 0 = \<lparr>pr_creds = demo_creds, pr_routes = [\<lparr>ur_host = ''ghcr.io'', ur_repo = ''o/r''\<rparr>],
      pr_phase = Checking [\<lparr>ur_host = ''ghcr.io'', ur_repo = ''o/r''\<rparr>]\<rparr>"
  "length (sys_requests demo_arrived) = 1" "sys_cache demo_arrived = cw_cache demo_world"
  by (simp_all add: demo_arrived_def demo_world_def)

lemma demo_served:
  "\<exists>s. proof_reachable (\<lambda>s. s) None None s \<and> pr_phase (sys_requests s ! 0) = Served"
proof -
  from demo_prove obtain w' where "prove_routes demo_auth get_probe_for_host demo_creds (cred_identity (\<lambda>s. s) demo_creds) True
      [\<lparr>ur_host = ''ghcr.io'', ur_repo = ''o/r''\<rparr>] demo_world
    = (Inr \<lparr>ws_identity = cred_identity (\<lambda>s. s) demo_creds, ws_cache_hit = False\<rparr>, w')" by blast
  from prove_routes_simulated [OF this, of 0 demo_arrived "\<lambda>s. s"]
  obtain s where "(proof_step (\<lambda>s. s))\<^sup>*\<^sup>* demo_arrived s" "pr_phase (sys_requests s ! 0) = Served"
    by (auto simp: demo_arrived_simps)
  then show ?thesis using demo_arrives [of "\<lambda>s. s"] unfolding proof_reachable_def
    by (meson converse_rtranclp_into_rtranclp)
qed

theorem interleaved_proofs_sound_witness:
  "\<exists>s :: proof_system. pr_phase (sys_requests s ! 0) = Served \<and> within_capacity (sys_cache s)"
  using demo_served interleaved_proofs_sound by blast

text \<open>
  C28. The step system implements the code's loop: a request that runs \<open>prove_routes\<close> alone ends, in
  some run of the steps, with the same cache and with the phase that its result stands for.
\<close>

theorem prove_routes_refined:
  assumes "prove_routes sv resolve creds (cred_identity sha creds) hit routes w = (res, w')" and "res \<noteq> Inl RecordTypeError"
    and "k < length (sys_requests s)" and "sys_requests s ! k = \<lparr>pr_creds = creds, pr_routes = all, pr_phase = Checking routes\<rparr>"
    and "sys_cache s = cw_cache w"
  shows "\<exists>s'. (proof_step sha)\<^sup>*\<^sup>* s s' \<and> sys_cache s' = cw_cache w' \<and>
           pr_phase (sys_requests s' ! k) = (case res of Inr _ \<Rightarrow> Served | Inl e \<Rightarrow> Refused (wu_code e))"
  by (rule prove_routes_simulated [OF assms(1,2,3)]) (simp_all add: assms)

theorem prove_routes_refined_witness:
  "\<exists>s'. (proof_step (\<lambda>s. s))\<^sup>*\<^sup>* demo_arrived s' \<and> pr_phase (sys_requests s' ! 0) = Served"
proof -
  from demo_prove obtain w' where "prove_routes demo_auth get_probe_for_host demo_creds (cred_identity (\<lambda>s. s) demo_creds) True
      [\<lparr>ur_host = ''ghcr.io'', ur_repo = ''o/r''\<rparr>] demo_world
    = (Inr \<lparr>ws_identity = cred_identity (\<lambda>s. s) demo_creds, ws_cache_hit = False\<rparr>, w')" by blast
  from prove_routes_refined [OF this, of 0 demo_arrived] show ?thesis by (auto simp: demo_arrived_simps)
qed

end
