(* ===== verification/Toast.thy ===== *)
theory Toast
  imports Js_Value
begin

text \<open>
  The notification state of the web front end, \<open>web/src/hooks/use-toast.ts\<close>: the reducer, the module's state (the counter, the toasts, the pending
  timers, the listeners) and the operations on it. React nodes and the other properties of a toast are opaque values.
\<close>

section \<open>Data\<close>

definition TOAST_LIMIT :: nat where "TOAST_LIMIT = 1"

definition MAX_SAFE_INTEGER :: nat where "MAX_SAFE_INTEGER = 9007199254740991"

text \<open>The callback \<open>toast\<close> installs dismisses one toast when it is told of a closing; any other is the caller's.\<close>

datatype 'v open_handler = DismissOnClose string | Given 'v

record 'v toaster_toast =
  tt_id :: string
  tt_open :: "bool option"
  tt_on_open_change :: "'v open_handler option"
  tt_props :: "(string \<times> 'v) list"

text \<open>A \<open>Partial<ToasterToast>\<close>: what is absent stays when it is spread over a toast.\<close>

record 'v toast_patch =
  tp_id :: "string option"
  tp_open :: "bool option"
  tp_on_open_change :: "'v open_handler option"
  tp_props :: "(string \<times> 'v) list"

datatype 'v action =
    AddToast "'v toaster_toast"
  | UpdateToast "'v toast_patch"
  | DismissToast "string option"
  | RemoveToast "string option"

definition spread_patch :: "'v toast_patch \<Rightarrow> 'v toaster_toast \<Rightarrow> 'v toaster_toast" where
  "spread_patch p t =
     \<lparr>tt_id = (case tp_id p of None \<Rightarrow> tt_id t | Some i \<Rightarrow> i),
      tt_open = (case tp_open p of None \<Rightarrow> tt_open t | Some b \<Rightarrow> Some b),
      tt_on_open_change = (case tp_on_open_change p of None \<Rightarrow> tt_on_open_change t | Some h \<Rightarrow> Some h),
      tt_props = fold (\<lambda>(k, v). AList.update k v) (tp_props p) (tt_props t)\<rparr>"

section \<open>The reducer\<close>

text \<open>\<open>toastTimeouts\<close> by its keys; a timer that is pending is not set again.\<close>

definition add_to_remove_queue :: "string \<Rightarrow> string list \<Rightarrow> string list" where
  "add_to_remove_queue toast_id timeouts = (if toast_id \<in> set timeouts then timeouts else timeouts @ [toast_id])"

definition reducer :: "'v action \<Rightarrow> 'v toaster_toast list \<Rightarrow> string list \<Rightarrow> 'v toaster_toast list \<times> string list" where
  "reducer a toasts timeouts =
     (case a of
        AddToast t \<Rightarrow> (take TOAST_LIMIT (t # toasts), timeouts)
      | UpdateToast p \<Rightarrow> (map (\<lambda>t. if Some (tt_id t) = tp_id p then spread_patch p t else t) toasts, timeouts)
      | DismissToast toast_id \<Rightarrow>
          (map (\<lambda>t. if toast_id = Some (tt_id t) \<or> toast_id = None then t\<lparr>tt_open := Some False\<rparr> else t) toasts,
           if truthy toast_id then add_to_remove_queue (the toast_id) timeouts
           else fold (\<lambda>t. add_to_remove_queue (tt_id t)) toasts timeouts)
      | RemoveToast toast_id \<Rightarrow>
          (case toast_id of None \<Rightarrow> ([], timeouts) | Some i \<Rightarrow> (filter (\<lambda>t. tt_id t \<noteq> i) toasts, timeouts)))"

section \<open>The module\<close>

text \<open>Listeners are the \<open>setState\<close> functions of mounted components, by name; what each was last told is kept.\<close>

record 'v toast_module =
  tm_count :: nat
  tm_toasts :: "'v toaster_toast list"
  tm_timeouts :: "string list"
  tm_listeners :: "nat list"
  tm_told :: "nat \<Rightarrow> 'v toaster_toast list"

definition initial_module :: "'v toast_module" where
  "initial_module = \<lparr>tm_count = 0, tm_toasts = [], tm_timeouts = [], tm_listeners = [], tm_told = (\<lambda>_. [])\<rparr>"

definition dispatch :: "'v action \<Rightarrow> 'v toast_module \<Rightarrow> 'v toast_module" where
  "dispatch a m =
     (let (toasts, timeouts) = reducer a (tm_toasts m) (tm_timeouts m) in
      m\<lparr>tm_toasts := toasts, tm_timeouts := timeouts,
        tm_told := fold (\<lambda>l told. told(l := toasts)) (tm_listeners m) (tm_told m)\<rparr>)"

definition gen_id :: "'v toast_module \<Rightarrow> string \<times> 'v toast_module" where
  "gen_id m = (let count = (tm_count m + 1) mod MAX_SAFE_INTEGER in (nat_to_string count, m\<lparr>tm_count := count\<rparr>))"

definition toast :: "(string \<times> 'v) list \<Rightarrow> 'v toast_module \<Rightarrow> string \<times> 'v toast_module" where
  "toast props m =
     (let (ident, m1) = gen_id m in
      (ident, dispatch (AddToast \<lparr>tt_id = ident, tt_open = Some True, tt_on_open_change = Some (DismissOnClose ident), tt_props = props\<rparr>) m1))"

text \<open>The two functions \<open>toast\<close> returns, for the id it returned; \<open>update\<close> overrides the id it is given.\<close>

definition toast_update :: "string \<Rightarrow> 'v toast_patch \<Rightarrow> 'v toast_module \<Rightarrow> 'v toast_module" where
  "toast_update ident props = dispatch (UpdateToast (props\<lparr>tp_id := Some ident\<rparr>))"

definition toast_dismiss :: "string \<Rightarrow> 'v toast_module \<Rightarrow> 'v toast_module" where
  "toast_dismiss ident = dispatch (DismissToast (Some ident))"

definition hook_dismiss :: "string option \<Rightarrow> 'v toast_module \<Rightarrow> 'v toast_module" where
  "hook_dismiss toast_id = dispatch (DismissToast toast_id)"

definition timer_fires :: "string \<Rightarrow> 'v toast_module \<Rightarrow> 'v toast_module" where
  "timer_fires toast_id m =
     dispatch (RemoveToast (Some toast_id)) (m\<lparr>tm_timeouts := removeAll toast_id (tm_timeouts m)\<rparr>)"

text \<open>The effect of \<open>useToast\<close> and its clean-up; a component starts from the current state.\<close>

definition subscribe :: "nat \<Rightarrow> 'v toast_module \<Rightarrow> 'v toast_module" where
  "subscribe l m = m\<lparr>tm_listeners := tm_listeners m @ [l]\<rparr>"

definition unsubscribe :: "nat \<Rightarrow> 'v toast_module \<Rightarrow> 'v toast_module" where
  "unsubscribe l m = m\<lparr>tm_listeners := remove1 l (tm_listeners m)\<rparr>"

inductive module_step :: "'v toast_module \<Rightarrow> 'v toast_module \<Rightarrow> bool" where
  show_toast: "module_step m (snd (toast props m))"
| change: "module_step m (toast_update ident p m)"
| close: "module_step m (toast_dismiss ident m)"
| close_any: "module_step m (hook_dismiss toast_id m)"
| fire: "i \<in> set (tm_timeouts m) \<Longrightarrow> module_step m (timer_fires i m)"
| mount: "module_step m (subscribe l m)"
| unmount: "module_step m (unsubscribe l m)"

section \<open>Lemmas\<close>

text \<open>At most one toast, and it is the one the counter numbered last.\<close>

definition module_inv :: "'v toast_module \<Rightarrow> bool" where
  "module_inv m \<longleftrightarrow> length (tm_toasts m) \<le> TOAST_LIMIT \<and> distinct (tm_timeouts m) \<and> tm_count m < MAX_SAFE_INTEGER
     \<and> (\<forall>t \<in> set (tm_toasts m). tt_id t = nat_to_string (tm_count m))"

lemma queue_distinct: "distinct ts \<Longrightarrow> distinct (add_to_remove_queue i ts)"
  by (simp add: add_to_remove_queue_def)

lemma queue_set [simp]: "set (add_to_remove_queue i ts) = insert i (set ts)"
  by (auto simp: add_to_remove_queue_def)

lemma queue_all_distinct: "distinct ts \<Longrightarrow> distinct (fold (\<lambda>t. add_to_remove_queue (tt_id t)) xs ts)"
  by (induction xs arbitrary: ts) (auto intro: queue_distinct)

lemma dispatch_parts:
  "tm_toasts (dispatch a m) = fst (reducer a (tm_toasts m) (tm_timeouts m))"
  "tm_timeouts (dispatch a m) = snd (reducer a (tm_toasts m) (tm_timeouts m))"
  "tm_count (dispatch a m) = tm_count m" "tm_listeners (dispatch a m) = tm_listeners m"
  by (simp_all add: dispatch_def case_prod_beta' Let_def)

lemma take_limit: "take TOAST_LIMIT (t # ts) = [t]"
  by (simp add: TOAST_LIMIT_def)

lemma dispatch_inv:
  assumes "module_inv m" and "\<And>t. a \<noteq> AddToast t"
  shows "module_inv (dispatch a m)"
proof -
  have "length (filter P ts) \<le> TOAST_LIMIT" if "length ts \<le> TOAST_LIMIT" for P and ts :: "'a toaster_toast list"
    using length_filter_le le_trans that by blast
  with assms show ?thesis
    by (cases a) (auto simp: module_inv_def dispatch_parts reducer_def spread_patch_def queue_distinct queue_all_distinct
        split: option.splits)
qed

lemma counter_small: "n mod MAX_SAFE_INTEGER < MAX_SAFE_INTEGER"
  by (rule mod_less_divisor) (simp add: MAX_SAFE_INTEGER_def)

lemma next_count:
  assumes "c < MAX_SAFE_INTEGER"
  shows "(c + 1) mod MAX_SAFE_INTEGER \<noteq> c"
proof (cases "c + 1 = MAX_SAFE_INTEGER")
  case True
  moreover have "1 < MAX_SAFE_INTEGER" by (simp add: MAX_SAFE_INTEGER_def)
  ultimately show ?thesis by auto
next
  case False
  with assms have "c + 1 < MAX_SAFE_INTEGER" by simp
  then show ?thesis by simp
qed

lemma shown_toast:
  assumes "module_inv m"
  shows "tm_toasts (snd (toast props m)) = [\<lparr>tt_id = fst (toast props m), tt_open = Some True,
      tt_on_open_change = Some (DismissOnClose (fst (toast props m))), tt_props = props\<rparr>]
    \<and> module_inv (snd (toast props m)) \<and> fst (toast props m) \<notin> tt_id ` set (tm_toasts m)"
proof -
  have "tm_count m < MAX_SAFE_INTEGER" using assms by (simp add: module_inv_def)
  then have "(tm_count m + 1) mod MAX_SAFE_INTEGER \<noteq> tm_count m" by (rule next_count)
  then have "nat_to_string ((tm_count m + 1) mod MAX_SAFE_INTEGER) \<noteq> nat_to_string (tm_count m)"
    using nat_to_string_inject by blast
  with assms show ?thesis
    by (auto simp: toast_def gen_id_def Let_def dispatch_parts reducer_def take_limit module_inv_def TOAST_LIMIT_def counter_small)
qed

lemma module_step_inv: "module_step m m' \<Longrightarrow> module_inv m \<Longrightarrow> module_inv m'"
proof (induction rule: module_step.induct)
  case (show_toast m props)
  then show ?case using shown_toast by blast
next
  case (fire i m)
  then have "module_inv (m\<lparr>tm_timeouts := removeAll i (tm_timeouts m)\<rparr>)" by (simp add: module_inv_def distinct_removeAll)
  then show ?case unfolding timer_fires_def by (rule dispatch_inv) simp
next
  case mount
  then show ?case by (simp add: module_inv_def subscribe_def)
next
  case unmount
  then show ?case by (simp add: module_inv_def unsubscribe_def)
qed (auto simp: toast_update_def toast_dismiss_def hook_dismiss_def intro: dispatch_inv)

lemma module_reachable_inv: "module_step\<^sup>*\<^sup>* initial_module m \<Longrightarrow> module_inv m"
proof (induction rule: rtranclp_induct)
  case base
  then show ?case by (simp add: module_inv_def initial_module_def MAX_SAFE_INTEGER_def)
next
  case step
  then show ?case using module_step_inv by blast
qed

lemma told_fold: "fold (\<lambda>l told. told(l := x)) ls told l = (if l \<in> set ls then x else told l)"
  by (induction ls arbitrary: told) auto

section \<open>Properties\<close>

text \<open>
  C39. In every state the front end can reach there is at most one toast and no timer is set twice; showing a toast makes it, open, the
  only one, under an id the one before did not have; dismissing the toast on display closes it and sets
  its timer; a timer takes its toast away and leaves any other as it is; and after every action each
  mounted component has been told the current toasts.
\<close>

theorem toast_module_safe:
  assumes "module_step\<^sup>*\<^sup>* initial_module m"
  shows "length (tm_toasts m) \<le> 1 \<and> distinct (tm_timeouts m)
    \<and> (\<forall>props ident m'. toast props m = (ident, m') \<longrightarrow>
         tm_toasts m' = [\<lparr>tt_id = ident, tt_open = Some True, tt_on_open_change = Some (DismissOnClose ident), tt_props = props\<rparr>]
         \<and> ident \<notin> tt_id ` set (tm_toasts m))
    \<and> (\<forall>t \<in> set (tm_toasts m).
         tm_toasts (toast_dismiss (tt_id t) m) = [t\<lparr>tt_open := Some False\<rparr>] \<and> tt_id t \<in> set (tm_timeouts (toast_dismiss (tt_id t) m)))
    \<and> (\<forall>i. tm_toasts (timer_fires i m) = filter (\<lambda>t. tt_id t \<noteq> i) (tm_toasts m) \<and> i \<notin> set (tm_timeouts (timer_fires i m)))
    \<and> (\<forall>a l. l \<in> set (tm_listeners m) \<longrightarrow> tm_told (dispatch a m) l = tm_toasts (dispatch a m))"
proof (intro conjI ballI allI impI)
  note inv = module_reachable_inv [OF assms]
  then show "length (tm_toasts m) \<le> 1" "distinct (tm_timeouts m)" by (simp_all add: module_inv_def TOAST_LIMIT_def)
  show "tm_toasts m' = [\<lparr>tt_id = ident, tt_open = Some True, tt_on_open_change = Some (DismissOnClose ident), tt_props = props\<rparr>]"
    "ident \<notin> tt_id ` set (tm_toasts m)" if "toast props m = (ident, m')" for props ident m'
    using shown_toast [OF inv, of props] that by simp_all
  show "tm_toasts (timer_fires i m) = filter (\<lambda>t. tt_id t \<noteq> i) (tm_toasts m)" "i \<notin> set (tm_timeouts (timer_fires i m))" for i
    by (simp_all add: timer_fires_def dispatch_parts reducer_def)
  show "tm_told (dispatch a m) l = tm_toasts (dispatch a m)" if "l \<in> set (tm_listeners m)" for a l
    using that by (simp add: dispatch_def case_prod_beta' Let_def told_fold del: fun_upd_apply)
  fix t assume t: "t \<in> set (tm_toasts m)"
  with inv have one: "tm_toasts m = [t]" by (cases "tm_toasts m") (auto simp: module_inv_def TOAST_LIMIT_def)
  from t inv have "tt_id t \<noteq> []" by (auto simp: module_inv_def)
  with one show "tm_toasts (toast_dismiss (tt_id t) m) = [t\<lparr>tt_open := Some False\<rparr>]"
    "tt_id t \<in> set (tm_timeouts (toast_dismiss (tt_id t) m))"
    by (simp_all add: toast_dismiss_def dispatch_parts reducer_def truthy_def)
qed

theorem toast_module_safe_witness:
  "tm_toasts (snd (toast [] (snd (toast [(''title'', True)] initial_module))))
     = [\<lparr>tt_id = ''2'', tt_open = Some True, tt_on_open_change = Some (DismissOnClose ''2''), tt_props = []\<rparr>]"
proof -
  let ?m = "snd (toast [(''title'', True)] initial_module)"
  have "module_step\<^sup>*\<^sup>* initial_module ?m" by (rule r_into_rtranclp) (rule show_toast)
  moreover have "fst (toast [] ?m) = nat_to_string 2"
    by (simp add: toast_def gen_id_def dispatch_parts initial_module_def MAX_SAFE_INTEGER_def case_prod_beta' numeral_2_eq_2)
  moreover have "nat_to_string 2 = ''2''" by code_simp
  ultimately show ?thesis using toast_module_safe [of ?m] by (metis prod.collapse)
qed

end
