(* ===== verification/MobileHook.thy ===== *)
theory MobileHook
  imports Js_Value
begin

text \<open>
  \<open>web/src/hooks/use-mobile.ts\<close> in its window. The width of a viewport need not be whole: the media query compares
  it as it is, \<open>innerWidth\<close> is its whole part. The query reports a change only when its answer changes, and
  the hook looks at the width only then and when it is mounted.
\<close>

section \<open>The hook\<close>

definition MOBILE_BREAKPOINT :: int where "MOBILE_BREAKPOINT = 768"

record mobile_window =
  mw_width :: rat
  mw_is_mobile :: "bool option"
  mw_listening :: bool

definition inner_width :: "mobile_window \<Rightarrow> int" where
  "inner_width w = \<lfloor>mw_width w\<rfloor>"

text \<open>\<open>(max-width: 767px)\<close>\<close>

definition mql_matches :: "rat \<Rightarrow> bool" where
  "mql_matches width \<longleftrightarrow> width \<le> of_int (MOBILE_BREAKPOINT - 1)"

definition mobile_on_change :: "mobile_window \<Rightarrow> mobile_window" where
  "mobile_on_change w = w\<lparr>mw_is_mobile := Some (inner_width w < MOBILE_BREAKPOINT)\<rparr>"

definition mobile_init :: "rat \<Rightarrow> mobile_window" where
  "mobile_init width = \<lparr>mw_width = width, mw_is_mobile = None, mw_listening = False\<rparr>"

text \<open>The effect and its cleanup.\<close>

definition mobile_mount :: "mobile_window \<Rightarrow> mobile_window" where
  "mobile_mount w = (w\<lparr>mw_listening := True\<rparr>)\<lparr>mw_is_mobile := Some (inner_width w < MOBILE_BREAKPOINT)\<rparr>"

definition mobile_unmount :: "mobile_window \<Rightarrow> mobile_window" where
  "mobile_unmount w = w\<lparr>mw_listening := False\<rparr>"

definition window_resized :: "rat \<Rightarrow> mobile_window \<Rightarrow> mobile_window" where
  "window_resized width w =
     (let w1 = w\<lparr>mw_width := width\<rparr> in
      if mw_listening w \<and> mql_matches width \<noteq> mql_matches (mw_width w) then mobile_on_change w1 else w1)"

definition use_is_mobile :: "mobile_window \<Rightarrow> bool" where
  "use_is_mobile w = (mw_is_mobile w = Some True)"

section \<open>Properties\<close>

definition mobile_current :: "mobile_window \<Rightarrow> bool" where
  "mobile_current w \<longleftrightarrow> mw_listening w \<and> mw_width w \<in> \<int> \<and> mw_is_mobile w = Some (mql_matches (mw_width w))"

lemma whole_width: "x \<in> \<int> \<Longrightarrow> \<lfloor>x\<rfloor> < MOBILE_BREAKPOINT \<longleftrightarrow> mql_matches x"
  by (auto simp: mql_matches_def MOBILE_BREAKPOINT_def elim!: Ints_cases)

lemma resized_current: "mobile_current w \<Longrightarrow> x \<in> \<int> \<Longrightarrow> mobile_current (window_resized x w) \<and> mw_width (window_resized x w) = x"
  by (auto simp: mobile_current_def window_resized_def mobile_on_change_def inner_width_def whole_width Let_def)

text \<open>While it is mounted the hook tells the width: at any whole width, after any resizing over whole widths.\<close>

theorem mobile_hook_current:
  assumes "width \<in> \<int>" and "set widths \<subseteq> \<int>"
  shows "use_is_mobile (fold window_resized widths (mobile_mount (mobile_init width))) \<longleftrightarrow> last (width # widths) < 768"
proof -
  have "mobile_current (fold window_resized widths w) \<and> mw_width (fold window_resized widths w) = last (mw_width w # widths)"
    if "mobile_current w" for w
    using assms(2) that by (induction widths arbitrary: w) (auto simp: resized_current)
  moreover have "mobile_current (mobile_mount (mobile_init width))" "mw_width (mobile_mount (mobile_init width)) = width"
    using assms(1) by (simp_all add: mobile_current_def mobile_mount_def mobile_init_def inner_width_def whole_width)
  moreover have "last (width # widths) \<in> \<int>" using assms by (metis insert_subset last_in_set list.simps(3,15) subset_iff)
  then have "mql_matches (last (width # widths)) \<longleftrightarrow> last (width # widths) < 768"
    by (auto simp: mql_matches_def MOBILE_BREAKPOINT_def elim!: Ints_cases)
  ultimately show ?thesis by (auto simp: use_is_mobile_def mobile_current_def)
qed

theorem mobile_hook_current_witness:
  "use_is_mobile (fold window_resized [1000, 400, 767] (mobile_mount (mobile_init 1024))) \<longleftrightarrow> last [1024, 1000, 400, 767 :: rat] < 768"
  by (rule mobile_hook_current) auto

text \<open>Between 767 and 768 it depends on the way there.\<close>

lemma mobile_hook_gap:
  "use_is_mobile (mobile_mount (mobile_init (1535/2)))"
  "\<not> use_is_mobile (window_resized (1535/2) (mobile_mount (mobile_init 800)))"
  by (simp_all add: use_is_mobile_def mobile_mount_def mobile_init_def window_resized_def mql_matches_def
      MOBILE_BREAKPOINT_def inner_width_def Let_def)

end
