(* ===== verification/ServerHelpers.thy ===== *)
theory ServerHelpers
  imports Strategy
begin

text \<open>
  \<open>auth/src/serverHelpers.ts\<close> (without the libtrust key id): connection string, configuration of the
  static and cluster tokens, reading of the Authorization header, the four validation strategies
  and their dispatch, and the check of the identity a client presents. \<open>crypto.timingSafeEqual\<close>
  is equality of byte strings.
\<close>

section \<open>Data\<close>

record validation_user_profile =
  vp_external_id :: string
  vp_username :: "string option"
  vp_email :: "string option"
  vp_display_name :: "string option"
  vp_avatar_url :: "string option"
  vp_auth_provider :: "string option"
  vp_raw :: js

record static_pat_config =
  sp_tokens :: "string list"
  sp_profile :: validation_user_profile

datatype validation_strategy = Api | Pat | ClusterPatStrategy | WrappedUpstream

definition strategy_text :: "validation_strategy \<Rightarrow> string" where
  "strategy_text s = (case s of Api \<Rightarrow> ''api'' | Pat \<Rightarrow> ''pat'' | ClusterPatStrategy \<Rightarrow> ''cluster-pat''
     | WrappedUpstream \<Rightarrow> ''wrapped-upstream'')"

record validation_result =
  vr_strategy :: validation_strategy
  vr_profile :: validation_user_profile
  vr_cluster_id :: "string option"
  vr_cred_identity :: "string option"

record auth_validation_context =
  vc_static :: "static_pat_config option"
  vc_cluster :: "cluster_pat_entry list option"
  vc_url :: "string option"
  vc_key_ring :: wrap_key_ring

datatype app_error = PlainError string | WrappedError wu_error | AxiosFailed http_error

definition STATIC_PAT_SUBJECT :: string where "STATIC_PAT_SUBJECT = ''static-pat''"
definition STATIC_PAT_PROVIDER :: string where "STATIC_PAT_PROVIDER = ''static-pat''"
definition CLUSTER_PAT_PROVIDER :: string where "CLUSTER_PAT_PROVIDER = ''cluster-pat''"
definition WRAPPED_UPSTREAM_PROVIDER :: string where "WRAPPED_UPSTREAM_PROVIDER = ''wrapped-upstream''"

section \<open>Configuration\<close>

definition get_database_connection_string :: "env \<Rightarrow> app_error + string" where
  "get_database_connection_string env =
     (if truthy (env ''DATABASE_URL'') then Inr (the (env ''DATABASE_URL''))
      else
        (let host = env ''POSTGRES_HOST''; database = env ''POSTGRES_DB'';
             user = env ''POSTGRES_USER''; password = env ''POSTGRES_PASSWORD'';
             db_port = or_else (env ''POSTGRES_PORT'') ''5432'' in
         if \<not> truthy host \<or> \<not> truthy database \<or> \<not> truthy user \<or> \<not> truthy password then
           Inl (PlainError ''DATABASE_URL or POSTGRES_HOST/POSTGRES_DB/POSTGRES_USER/POSTGRES_PASSWORD must be configured'')
         else Inr (''postgres://'' @ encode_uri_component (the user) @ '':'' @ encode_uri_component (the password)
                @ ''@'' @ the host @ '':'' @ db_port @ ''/'' @ the database)))"

definition static_tokens_of :: "string option \<Rightarrow> string list" where
  "static_tokens_of raw_value =
     (if \<not> truthy raw_value then []
      else filter (\<lambda>t. t \<noteq> []) (map trim (split_on (\<lambda>c. c = CHR 0x0A \<or> c = CHR '','') (the raw_value))))"

definition parse_static_pat_tokens :: "string option list \<Rightarrow> string list" where
  "parse_static_pat_tokens raw_values = uniq (concat (map static_tokens_of raw_values))"

definition build_static_pat_config :: "string option \<Rightarrow> string option \<Rightarrow> static_pat_config option" where
  "build_static_pat_config auth_pat_token auth_pat_tokens =
     (let tokens = parse_static_pat_tokens [auth_pat_token, auth_pat_tokens] in
      if tokens = [] then None
      else Some
        \<lparr>sp_tokens = tokens,
         sp_profile =
           \<lparr>vp_external_id = STATIC_PAT_SUBJECT, vp_username = None, vp_email = None,
            vp_display_name = Some STATIC_PAT_SUBJECT, vp_avatar_url = None,
            vp_auth_provider = Some STATIC_PAT_PROVIDER,
            vp_raw = JObj [(''source'', JStr ''static-pat''),
                           (''user'', JObj [(''id'', JStr STATIC_PAT_SUBJECT)]),
                           (''authProvider'', JStr STATIC_PAT_PROVIDER)]\<rparr>\<rparr>)"

definition build_cluster_pat_config :: "string option \<Rightarrow> cluster_pat_entry list option" where
  "build_cluster_pat_config auth_cluster_pat_tokens =
     (let entries = parse_cluster_pat_entries auth_cluster_pat_tokens in
      if entries = [] then None else Some entries)"

definition build_cluster_pat_profile :: "string \<Rightarrow> validation_user_profile" where
  "build_cluster_pat_profile cluster_id =
     (let subject = ''cluster:'' @ cluster_id in
      \<lparr>vp_external_id = subject, vp_username = None, vp_email = None, vp_display_name = Some subject,
       vp_avatar_url = None, vp_auth_provider = Some CLUSTER_PAT_PROVIDER,
       vp_raw = JObj [(''source'', JStr CLUSTER_PAT_PROVIDER), (''user'', JObj [(''id'', JStr subject)]),
                      (''authProvider'', JStr CLUSTER_PAT_PROVIDER), (''clusterId'', JStr cluster_id)]\<rparr>)"

definition build_wrapped_upstream_profile :: "string \<Rightarrow> validation_user_profile" where
  "build_wrapped_upstream_profile identity =
     (let subject = ''wrapped:'' @ slice 0 16 identity in
      \<lparr>vp_external_id = subject, vp_username = None, vp_email = None, vp_display_name = Some subject,
       vp_avatar_url = None, vp_auth_provider = Some WRAPPED_UPSTREAM_PROVIDER,
       vp_raw = JObj [(''source'', JStr WRAPPED_UPSTREAM_PROVIDER), (''user'', JObj [(''id'', JStr subject)]),
                      (''authProvider'', JStr WRAPPED_UPSTREAM_PROVIDER)]\<rparr>)"

definition get_validation_info_url :: "string option \<Rightarrow> app_error + string" where
  "get_validation_info_url validation_service_url =
     (if \<not> truthy validation_service_url then Inl (PlainError ''VALIDATION_SERVICE_URL not configured'')
      else
        (let trimmed_url = rev (dropWhile (\<lambda>c. c = CHR ''/'') (rev (the validation_service_url))) in
         Inr (if ends_with ''/api/auth/info'' trimmed_url then trimmed_url else trimmed_url @ ''/api/auth/info'')))"

section \<open>Requests\<close>

record presented_credentials =
  pc_token :: string
  pc_identity :: "string option"

definition extract_presented_credentials :: "string option \<Rightarrow> app_error + presented_credentials" where
  "extract_presented_credentials auth_header =
     (if \<not> truthy auth_header then Inl (PlainError ''Auth token required'')
      else
        (let header = the auth_header in
         if starts_with ''Bearer '' header then
           Inr \<lparr>pc_token = trim (slice_from (int (length ''Bearer '')) header), pc_identity = None\<rparr>
         else if starts_with ''Basic '' header then
           (let decoded = b64_decode (trim (slice_from (int (length ''Basic '')) header));
                separator_index = index_of CHR '':'' decoded in
            if separator_index < 0 then Inl (PlainError ''Invalid basic auth payload'')
            else
              (let username = trim (slice 0 separator_index decoded);
                   password = trim (slice_from (separator_index + 1) decoded) in
               if password = [] then Inl (PlainError ''Registry token required'')
               else Inr \<lparr>pc_token = password, pc_identity = (if username = [] then None else Some username)\<rparr>))
         else Inl (PlainError ''Unsupported authorization scheme'')))"

definition opt_string :: "js \<Rightarrow> string option" where
  "opt_string v = (if js_truthy v then Some (js_String v) else None)"

definition normalize_validation_profile :: "js \<Rightarrow> app_error + validation_user_profile" where
  "normalize_validation_profile payload =
     (let user = js_prop payload ''user''; user_payload = (if js_nullish user then payload else user) in
      if \<not> js_truthy (js_prop user_payload ''id'') then
        Inl (PlainError ''Validation service did not return a user id'')
      else
        Inr \<lparr>vp_external_id = js_String (js_prop user_payload ''id''),
             vp_username = opt_string (js_prop user_payload ''username''),
             vp_email = opt_string (js_prop user_payload ''email''),
             vp_display_name = (if js_truthy (js_prop user_payload ''name'')
               then Some (js_String (js_prop user_payload ''name'')) else opt_string (js_prop user_payload ''username'')),
             vp_avatar_url = opt_string (js_prop user_payload ''avatar''),
             vp_auth_provider = (if js_truthy (js_prop payload ''authProvider'')
               then Some (js_String (js_prop payload ''authProvider'')) else opt_string (js_prop user_payload ''authProvider'')),
             vp_raw = payload\<rparr>)"

definition timing_safe_equal :: "string \<Rightarrow> string \<Rightarrow> bool" where
  "timing_safe_equal a b \<longleftrightarrow> a = b"

definition tokens_match :: "string \<Rightarrow> string \<Rightarrow> bool" where
  "tokens_match expected presented =
     (if length expected \<noteq> length presented then False else timing_safe_equal expected presented)"

section \<open>Strategies\<close>

definition validate_using_static_pat :: "string \<Rightarrow> static_pat_config option \<Rightarrow> validation_result option" where
  "validate_using_static_pat validation_token config =
     (case config of None \<Rightarrow> None
      | Some c \<Rightarrow>
          (case find (\<lambda>configured. tokens_match configured validation_token) (sp_tokens c) of
             None \<Rightarrow> None
           | Some _ \<Rightarrow> Some \<lparr>vr_strategy = Pat, vr_profile = sp_profile c, vr_cluster_id = None, vr_cred_identity = None\<rparr>))"

definition validate_using_cluster_pat :: "string \<Rightarrow> cluster_pat_entry list option \<Rightarrow> validation_result option" where
  "validate_using_cluster_pat validation_token config =
     (case config of None \<Rightarrow> None
      | Some entries \<Rightarrow>
          (case find (\<lambda>entry. tokens_match (cp_token entry) validation_token) entries of
             None \<Rightarrow> None
           | Some entry \<Rightarrow> Some \<lparr>vr_strategy = ClusterPatStrategy,
               vr_profile = build_cluster_pat_profile (cp_cluster_id entry),
               vr_cluster_id = Some (cp_cluster_id entry), vr_cred_identity = None\<rparr>))"

definition validate_using_wrapped_upstream ::
  "'a auth_services_scheme \<Rightarrow> auth_validation_context \<Rightarrow> string \<Rightarrow> js \<Rightarrow> 'w cached_world_scheme
     \<Rightarrow> (app_error + validation_result) \<times> 'w cached_world_scheme" where
  "validate_using_wrapped_upstream sv ctx presented_token scope w =
     (let (outcome, w1) = validate_wrapped_upstream sv (vc_key_ring ctx) get_probe_for_host presented_token scope w in
      case outcome of
        Inl e \<Rightarrow> (Inl (WrappedError e), w1)
      | Inr s \<Rightarrow> (Inr \<lparr>vr_strategy = WrappedUpstream, vr_profile = build_wrapped_upstream_profile (ws_identity s),
                   vr_cluster_id = None, vr_cred_identity = Some (ws_identity s)\<rparr>, w1))"

definition api_request :: "string \<Rightarrow> string \<Rightarrow> http_request" where
  "api_request url token =
     \<lparr>rq_method = ''GET'', rq_url = url, rq_params = [], rq_headers = [(''Authorization'', ''Bearer '' @ token)],
      rq_timeout = 10000, rq_body = []\<rparr>"

text \<open>
  The \<open>catch\<close> block, entered from the URL check, from the request and from the normalisation. The
  last one comes after \<open>success\<close> has been recorded.
\<close>

definition api_failed :: "'a services_scheme \<Rightarrow> int \<Rightarrow> app_error \<Rightarrow> 'w world_scheme
     \<Rightarrow> (app_error + validation_result) \<times> 'w world_scheme" where
  "api_failed sv started_at e w =
     (let (duration, w1) = elapsed_seconds_since sv started_at w in
      (Inl e, record_upstream_validation sv ''error'' duration w1))"

definition validate_using_api :: "'a services_scheme \<Rightarrow> string \<Rightarrow> string option \<Rightarrow> 'w world_scheme
     \<Rightarrow> (app_error + validation_result) \<times> 'w world_scheme" where
  "validate_using_api sv validation_token validation_service_url w =
     (let (started_at, w1) = read_hrtime sv w in
      case get_validation_info_url validation_service_url of
        Inl e \<Rightarrow> api_failed sv started_at e w1
      | Inr url \<Rightarrow>
          (let (response, w2) = axios_request sv default_validate_status (api_request url validation_token) w1 in
           case response of
             Inl e \<Rightarrow> api_failed sv started_at (AxiosFailed e) w2
           | Inr r \<Rightarrow>
               (let (duration, w3) = elapsed_seconds_since sv started_at w2;
                    w4 = record_upstream_validation sv ''success'' duration w3 in
                case normalize_validation_profile (rs_data r) of
                  Inl e \<Rightarrow> api_failed sv started_at e w4
                | Inr profile \<Rightarrow>
                    (Inr \<lparr>vr_strategy = Api, vr_profile = profile, vr_cluster_id = None, vr_cred_identity = None\<rparr>, w4))))"

text \<open>One strategy's stopwatch and counter around its outcome.\<close>

definition note_validation :: "'a services_scheme \<Rightarrow> int \<Rightarrow> validation_strategy \<Rightarrow> string \<Rightarrow> 'w world_scheme
     \<Rightarrow> 'w world_scheme" where
  "note_validation sv started_at strategy outcome w =
     (let (duration, w1) = elapsed_seconds_since sv started_at w in
      record_token_validation sv (strategy_text strategy) outcome duration w1)"

definition outcome_of :: "'e + 'b \<Rightarrow> string" where
  "outcome_of r = (case r of Inl _ \<Rightarrow> ''error'' | Inr _ \<Rightarrow> ''success'')"

definition validate_with_api_or_fail ::
  "'a services_scheme \<Rightarrow> auth_validation_context \<Rightarrow> string \<Rightarrow> 'w world_scheme
     \<Rightarrow> (app_error + validation_result) \<times> 'w world_scheme" where
  "validate_with_api_or_fail sv ctx validation_token w =
     (if truthy (vc_url ctx) then
        (let (started_at, w1) = read_hrtime sv w;
             (result, w2) = validate_using_api sv validation_token (vc_url ctx) w1
         in (result, note_validation sv started_at Api (outcome_of result) w2))
      else if vc_static ctx \<noteq> None \<or> vc_cluster ctx \<noteq> None then (Inl (PlainError ''Invalid PAT token''), w)
      else (Inl (PlainError ''No validation method configured''), w))"

definition validate_with_cluster_pat_or_next ::
  "'a services_scheme \<Rightarrow> auth_validation_context \<Rightarrow> string \<Rightarrow> 'w world_scheme
     \<Rightarrow> (app_error + validation_result) \<times> 'w world_scheme" where
  "validate_with_cluster_pat_or_next sv ctx validation_token w =
     (if vc_cluster ctx \<noteq> None then
        (let (started_at, w1) = read_hrtime sv w in
         case validate_using_cluster_pat validation_token (vc_cluster ctx) of
           Some result \<Rightarrow> (Inr result, note_validation sv started_at ClusterPatStrategy ''success'' w1)
         | None \<Rightarrow> validate_with_api_or_fail sv ctx validation_token
                     (note_validation sv started_at ClusterPatStrategy ''miss'' w1))
      else validate_with_api_or_fail sv ctx validation_token w)"

definition validate_presented_token ::
  "'a auth_services_scheme \<Rightarrow> auth_validation_context \<Rightarrow> string \<Rightarrow> js \<Rightarrow> 'w cached_world_scheme
     \<Rightarrow> (app_error + validation_result) \<times> 'w cached_world_scheme" where
  "validate_presented_token sv ctx validation_token scope w =
     (if is_wrapped_upstream_token validation_token then
        (let (started_at, w1) = read_hrtime sv w;
             (result, w2) = validate_using_wrapped_upstream sv ctx validation_token scope w1
         in (result, note_validation sv started_at WrappedUpstream (outcome_of result) w2))
      else if vc_static ctx \<noteq> None then
        (let (started_at, w1) = read_hrtime sv w in
         case validate_using_static_pat validation_token (vc_static ctx) of
           Some result \<Rightarrow> (Inr result, note_validation sv started_at Pat ''success'' w1)
         | None \<Rightarrow> validate_with_cluster_pat_or_next sv ctx validation_token
                     (note_validation sv started_at Pat ''miss'' w1))
      else validate_with_cluster_pat_or_next sv ctx validation_token w)"

section \<open>The presented identity\<close>

definition identities :: "string option list \<Rightarrow> string list" where
  "identities xs = map (\<lambda>x. to_lower (trim (the x))) (filter (\<lambda>x. x \<noteq> None \<and> trim (the x) \<noteq> []) xs)"

definition presented_identity_matches_user ::
  "string option \<Rightarrow> js \<Rightarrow> validation_user_profile \<Rightarrow> bool" where
  "presented_identity_matches_user presented_identity account profile =
     (let to_check = identities [presented_identity, case account of JStr s \<Rightarrow> Some s | _ \<Rightarrow> None] in
      if to_check = [] then True
      else
        (let valid = identities [Some (vp_external_id profile), vp_username profile, vp_email profile] in
         list_all (\<lambda>identity. identity \<in> set valid) to_check))"


section \<open>Lemmas\<close>

lemma tokens_match_eq [simp]: "tokens_match a b \<longleftrightarrow> a = b"
  by (auto simp: tokens_match_def timing_safe_equal_def)

lemma static_tokens_of_mem:
  "t \<in> set (static_tokens_of raw) \<longleftrightarrow> t \<noteq> [] \<and>
     (\<exists>r. raw = Some r \<and> (\<exists>piece \<in> set (split_on (\<lambda>c. c = CHR 0x0A \<or> c = CHR '','') r). trim piece = t))"
  by (cases raw) (auto simp: static_tokens_of_def truthy_def)

lemma find_mem: "find P xs = Some x \<Longrightarrow> x \<in> set xs \<and> P x"
  by (induction xs) (auto split: if_splits)

lemma static_pat_Some:
  "validate_using_static_pat t (Some c) = (if t \<in> set (sp_tokens c)
     then Some \<lparr>vr_strategy = Pat, vr_profile = sp_profile c, vr_cluster_id = None, vr_cred_identity = None\<rparr> else None)"
  by (auto simp: validate_using_static_pat_def find_None_iff split: option.splits dest: find_mem)

lemma static_pat_config_tokens:
  "build_static_pat_config a b = None \<and> parse_static_pat_tokens [a, b] = [] \<or>
   (\<exists>c. build_static_pat_config a b = Some c \<and> sp_tokens c = parse_static_pat_tokens [a, b])"
  by (simp add: build_static_pat_config_def Let_def)

lemma static_accepts:
  "validate_using_static_pat t (build_static_pat_config a b) \<noteq> None \<longleftrightarrow> t \<in> set (parse_static_pat_tokens [a, b])"
  using static_pat_config_tokens [of a b] by (auto simp: static_pat_Some validate_using_static_pat_def [of t None] split: if_splits)

lemma cluster_pat_Some:
  "validate_using_cluster_pat t (Some entries) =
     (case find (\<lambda>e. cp_token e = t) entries of None \<Rightarrow> None
      | Some e \<Rightarrow> Some \<lparr>vr_strategy = ClusterPatStrategy, vr_profile = build_cluster_pat_profile (cp_cluster_id e),
                  vr_cluster_id = Some (cp_cluster_id e), vr_cred_identity = None\<rparr>)"
  by (simp add: validate_using_cluster_pat_def)

lemma note_validation_sent [simp]: "w_sent (note_validation sv t s out w) = w_sent w"
  by (simp add: note_validation_def elapsed_seconds_since_def read_hrtime_def record_defs)

lemma read_hrtime_sent [simp]: "w_sent (snd (read_hrtime sv w)) = w_sent w"
  by (simp add: read_hrtime_def)

lemma elapsed_sent [simp]: "w_sent (snd (elapsed_seconds_since sv t w)) = w_sent w"
  by (simp add: elapsed_seconds_since_def read_hrtime_def)

lemma api_failed_sent [simp]:
  "fst (api_failed sv t e w) = Inl e" "w_sent (snd (api_failed sv t e w)) = w_sent w"
  by (simp_all add: api_failed_def case_prod_beta' record_defs Let_def)

text \<open>The API strategy: one request at most, and a profile only from a 2xx answer.\<close>

lemma validate_using_api_cases:
  assumes "validate_using_api sv token url w = (res, w')"
  shows "(w_sent w' = w_sent w \<or> (\<exists>u. get_validation_info_url url = Inr u \<and> w_sent w' = w_sent w @ [api_request u token]))
    \<and> (\<forall>r. res = Inr r \<longrightarrow> (\<exists>u resp. get_validation_info_url url = Inr u \<and> w_sent w' = w_sent w @ [api_request u token]
         \<and> sv_net sv (w_sent w) (api_request u token) = Inr resp \<and> 200 \<le> rs_status resp \<and> rs_status resp < 300
         \<and> normalize_validation_profile (rs_data resp) = Inr (vr_profile r) \<and> vr_strategy r = Api))"
proof (cases "get_validation_info_url url")
  case (Inl e)
  with assms have "(res, w') = api_failed sv (fst (read_hrtime sv w)) e (snd (read_hrtime sv w))"
    by (simp add: validate_using_api_def case_prod_beta' Let_def)
  then have "res = Inl e" "w_sent w' = w_sent w"
    by (metis api_failed_sent(1) fst_conv) (metis \<open>(res, w') = _\<close> api_failed_sent(2) read_hrtime_sent snd_conv)
  then show ?thesis by simp
next
  case (Inr u)
  let ?w1 = "snd (read_hrtime sv w)"
  obtain out w2 where ax: "axios_request sv default_validate_status (api_request u token) ?w1 = (out, w2)" by force
  then have w2: "w_sent w2 = w_sent w @ [api_request u token]"
    by (metis axios_request_world read_hrtime_sent snd_conv world.select_convs(1) world.surjective world.update_convs(1))
  show ?thesis
  proof (cases out)
    case (Inl e)
    with assms Inr ax have "(res, w') = api_failed sv (fst (read_hrtime sv w)) (AxiosFailed e) w2"
      by (simp add: validate_using_api_def case_prod_beta' Let_def)
    then have "res = Inl (AxiosFailed e)" "w_sent w' = w_sent w2"
      by (metis api_failed_sent(1) fst_conv) (metis \<open>(res, w') = _\<close> api_failed_sent(2) snd_conv)
    then show ?thesis using Inr w2 by simp
  next
    case (Inr r)
    note ok = axios_request_ok [OF ax [unfolded Inr]]
    let ?w4 = "record_upstream_validation sv ''success'' (fst (elapsed_seconds_since sv (fst (read_hrtime sv w)) w2))
        (snd (elapsed_seconds_since sv (fst (read_hrtime sv w)) w2))"
    have w4: "w_sent ?w4 = w_sent w2" by (simp add: record_defs)
    show ?thesis
    proof (cases "normalize_validation_profile (rs_data r)")
      case (Inl e)
      with assms Inr ax \<open>get_validation_info_url url = Inr u\<close>
      have "(res, w') = api_failed sv (fst (read_hrtime sv w)) e ?w4"
        by (simp add: validate_using_api_def case_prod_beta' Let_def)
      then have "res = Inl e" "w_sent w' = w_sent w2"
        by (metis api_failed_sent(1) fst_conv) (metis \<open>(res, w') = _\<close> api_failed_sent(2) snd_conv w4)
      then show ?thesis using \<open>get_validation_info_url url = Inr u\<close> w2 by simp
    next
      case norm: (Inr profile)
      with assms Inr ax \<open>get_validation_info_url url = Inr u\<close>
      have "res = Inr \<lparr>vr_strategy = Api, vr_profile = profile, vr_cluster_id = None, vr_cred_identity = None\<rparr>" "w' = ?w4"
        by (simp_all add: validate_using_api_def case_prod_beta' Let_def)
      then show ?thesis
        using \<open>get_validation_info_url url = Inr u\<close> w2 w4 ok norm by (simp add: default_validate_status_def)
    qed
  qed
qed

lemma b64_char_not_ws: "\<not> is_ws (b64_char url v)"
proof (cases "v < 64")
  case True
  have "is_ws c \<Longrightarrow> b64_val c = None" for c
    by (auto simp: is_ws_def b64_val_def is_upper_def is_lower_def is_digit_def)
  then show ?thesis using b64_val_char [OF True, of url] by force
next
  case False
  then show ?thesis by (simp add: b64_char_def is_ws_def)
qed

lemma pad_not_ws: "\<not> is_ws CHR ''=''"
  by (simp add: is_ws_def)

lemma b64_encode_chars: "c \<in> set (b64_encode url s) \<Longrightarrow> \<not> is_ws c"
  by (induction url s rule: b64_encode.induct) (auto simp: b64_char_not_ws pad_not_ws split: if_splits)

lemma trim_b64: "trim (b64_encode url s) = b64_encode url s"
  by (rule trim_no_ws) (auto dest: b64_encode_chars)

lemma identities_mem:
  "i \<in> set (identities xs) \<longleftrightarrow> (\<exists>x. Some x \<in> set xs \<and> trim x \<noteq> [] \<and> i = to_lower (trim x))"
  by (force simp: identities_def)

lemma identities_ball:
  "(\<forall>i \<in> set (identities xs). Q i) \<longleftrightarrow> (\<forall>p. Some p \<in> set xs \<longrightarrow> trim p = [] \<or> Q (to_lower (trim p)))"
  unfolding Ball_def identities_mem by blast

text \<open>Which strategy answers, and with what.\<close>

definition static_lists :: "auth_validation_context \<Rightarrow> string \<Rightarrow> bool" where
  "static_lists ctx t \<longleftrightarrow> (case vc_static ctx of None \<Rightarrow> False | Some c \<Rightarrow> t \<in> set (sp_tokens c))"

definition cluster_entry :: "auth_validation_context \<Rightarrow> string \<Rightarrow> cluster_pat_entry option" where
  "cluster_entry ctx t = (case vc_cluster ctx of None \<Rightarrow> None | Some es \<Rightarrow> find (\<lambda>e. cp_token e = t) es)"

lemma api_or_fail_cases:
  assumes "validate_with_api_or_fail sv ctx token w = (res, w')"
  shows "(w_sent w' = w_sent w \<or> (\<exists>u. get_validation_info_url (vc_url ctx) = Inr u \<and> w_sent w' = w_sent w @ [api_request u token]))
    \<and> (\<forall>r. res = Inr r \<longrightarrow> (\<exists>u resp. get_validation_info_url (vc_url ctx) = Inr u \<and> w_sent w' = w_sent w @ [api_request u token]
         \<and> sv_net sv (w_sent w) (api_request u token) = Inr resp \<and> 200 \<le> rs_status resp \<and> rs_status resp < 300
         \<and> normalize_validation_profile (rs_data resp) = Inr (vr_profile r) \<and> vr_strategy r = Api))"
proof (cases "truthy (vc_url ctx)")
  case True
  obtain t w1 where rd: "read_hrtime sv w = (t, w1)" by force
  then have w1: "w_sent w1 = w_sent w" by (metis read_hrtime_sent snd_conv)
  obtain out w2 where api: "validate_using_api sv token (vc_url ctx) w1 = (out, w2)" by force
  from assms True rd api have "res = out" "w' = note_validation sv t Api (outcome_of out) w2"
    by (auto simp: validate_with_api_or_fail_def)
  with validate_using_api_cases [OF api] w1 show ?thesis by simp
next
  case False
  with assms show ?thesis by (auto simp: validate_with_api_or_fail_def split: if_splits)
qed

lemma cluster_or_next_cases:
  assumes "validate_with_cluster_pat_or_next sv ctx token w = (res, w')"
  obtains (cluster) e where "cluster_entry ctx token = Some e" "w_sent w' = w_sent w"
      "res = Inr \<lparr>vr_strategy = ClusterPatStrategy, vr_profile = build_cluster_pat_profile (cp_cluster_id e),
                  vr_cluster_id = Some (cp_cluster_id e), vr_cred_identity = None\<rparr>"
    | (api) w1 where "cluster_entry ctx token = None" "w_sent w1 = w_sent w"
        "validate_with_api_or_fail sv ctx token w1 = (res, w')"
proof (cases "vc_cluster ctx")
  case None
  with assms api show thesis by (simp add: validate_with_cluster_pat_or_next_def cluster_entry_def)
next
  case (Some es)
  obtain t w1 where rd: "read_hrtime sv w = (t, w1)" by force
  then have w1: "w_sent w1 = w_sent w" by (metis read_hrtime_sent snd_conv)
  show thesis
  proof (cases "find (\<lambda>e. cp_token e = token) es")
    case None
    with assms Some rd w1 api [of "note_validation sv t ClusterPatStrategy ''miss'' w1"] show thesis
      by (simp add: validate_with_cluster_pat_or_next_def cluster_entry_def cluster_pat_Some)
  next
    case (Some e)
    with assms \<open>vc_cluster ctx = Some es\<close> rd w1 cluster [of e] show thesis
      by (auto simp: validate_with_cluster_pat_or_next_def cluster_entry_def cluster_pat_Some)
  qed
qed

lemma validate_cases:
  fixes w w' :: "'w cached_world_scheme"
  assumes "validate_presented_token sv ctx token scope w = (res, w')"
  obtains (wrapped) w1 w2 :: "'w cached_world_scheme" where "is_wrapped_upstream_token token" "w_sent w1 = w_sent w" "cw_cache w1 = cw_cache w"
      "validate_using_wrapped_upstream sv ctx token scope w1 = (res, w2)" "w_sent w' = w_sent w2"
    | (static) c where "\<not> is_wrapped_upstream_token token" "static_lists ctx token" "w_sent w' = w_sent w" "vc_static ctx = Some c"
        "res = Inr \<lparr>vr_strategy = Pat, vr_profile = sp_profile c, vr_cluster_id = None, vr_cred_identity = None\<rparr>"
    | (rest) w1 where "\<not> is_wrapped_upstream_token token" "\<not> static_lists ctx token" "w_sent w1 = w_sent w"
        "validate_with_cluster_pat_or_next sv ctx token w1 = (res, w')"
proof (cases "is_wrapped_upstream_token token")
  case True
  obtain t w1 where rd: "read_hrtime sv w = (t, w1)" by force
  then have w1: "w_sent w1 = w_sent w" "cw_cache w1 = cw_cache w" by (auto simp: read_hrtime_def)
  obtain out w2 where v: "validate_using_wrapped_upstream sv ctx token scope w1 = (out, w2)" by force
  from assms True rd v have "res = out" "w' = note_validation sv t WrappedUpstream (outcome_of out) w2"
    by (auto simp: validate_presented_token_def)
  then show thesis using wrapped [of w1 w2] True w1 v by simp
next
  case False
  obtain t w1 where rd: "read_hrtime sv w = (t, w1)" by force
  then have w1: "w_sent w1 = w_sent w" by (metis read_hrtime_sent snd_conv)
  show thesis
  proof (cases "vc_static ctx")
    case None
    with assms False rest [of w] show thesis by (simp add: validate_presented_token_def static_lists_def)
  next
    case (Some c)
    show thesis
    proof (cases "token \<in> set (sp_tokens c)")
      case True
      with assms False Some rd w1 static [of c] show thesis
        by (auto simp: validate_presented_token_def static_lists_def static_pat_Some)
    next
      case notin: False
      with assms False Some rd w1 rest [of "note_validation sv t Pat ''miss'' w1"] show thesis
        by (simp add: validate_presented_token_def static_lists_def static_pat_Some)
    qed
  qed
qed

section \<open>Properties\<close>

text \<open>
  C14. Every accepted token is accepted for exactly one reason: the wrapped prefix decides first (such
  a token is never tried as a PAT), then the static list, then the cluster list (whose first
  matching entry names the cluster), and only a token none of them knows is sent to the
  validation service, which must answer 2xx with a profile.
\<close>

theorem validation_dispatch:
  assumes "validate_presented_token sv ctx token scope w = (Inr r, w')"
  shows "case vr_strategy r of
      WrappedUpstream \<Rightarrow> is_wrapped_upstream_token token
    | Pat \<Rightarrow> \<not> is_wrapped_upstream_token token \<and> static_lists ctx token \<and> w_sent w' = w_sent w
    | ClusterPatStrategy \<Rightarrow> \<not> is_wrapped_upstream_token token \<and> \<not> static_lists ctx token
        \<and> map_option cp_cluster_id (cluster_entry ctx token) = vr_cluster_id r \<and> vr_cluster_id r \<noteq> None \<and> w_sent w' = w_sent w
    | Api \<Rightarrow> \<not> is_wrapped_upstream_token token \<and> \<not> static_lists ctx token \<and> cluster_entry ctx token = None
        \<and> (\<exists>u resp. get_validation_info_url (vc_url ctx) = Inr u \<and> w_sent w' = w_sent w @ [api_request u token]
             \<and> sv_net sv (w_sent w) (api_request u token) = Inr resp \<and> 200 \<le> rs_status resp \<and> rs_status resp < 300
             \<and> normalize_validation_profile (rs_data resp) = Inr (vr_profile r))"
  using assms
proof (cases rule: validate_cases)
  case (wrapped w1 w2)
  then have "vr_strategy r = WrappedUpstream"
    by (auto simp: validate_using_wrapped_upstream_def Let_def split: prod.splits sum.splits)
  with wrapped show ?thesis by simp
next
  case (static c)
  then show ?thesis by simp
next
  case (rest w1)
  from rest(4) show ?thesis
  proof (cases rule: cluster_or_next_cases)
    case (cluster e)
    with rest show ?thesis by simp
  next
    case (api w2)
    from api_or_fail_cases [OF api(3)]
    obtain u resp where ok: "get_validation_info_url (vc_url ctx) = Inr u" "w_sent w' = w_sent w2 @ [api_request u token]"
        "sv_net sv (w_sent w2) (api_request u token) = Inr resp" "200 \<le> rs_status resp" "rs_status resp < 300"
        "normalize_validation_profile (rs_data resp) = Inr (vr_profile r)" "vr_strategy r = Api"
      by blast
    have sent: "w_sent w2 = w_sent w" using api(2) rest(3) by simp
    show ?thesis unfolding ok(7) using ok(1-6) rest(1,2) api(1) unfolding sent by simp
  qed
qed

text \<open>
  A configured token never leaves the service: one that the static list or the cluster list knows
  is accepted, and no request is sent for it.
\<close>

theorem configured_token_stays_local:
  assumes "\<not> is_wrapped_upstream_token token" and "static_lists ctx token \<or> cluster_entry ctx token \<noteq> None"
  shows "\<exists>r w'. validate_presented_token sv ctx token scope w = (Inr r, w') \<and> w_sent w' = w_sent w
    \<and> vr_strategy r = (if static_lists ctx token then Pat else ClusterPatStrategy)"
proof -
  obtain res w' where v: "validate_presented_token sv ctx token scope w = (res, w')" by force
  then show ?thesis
  proof (cases rule: validate_cases)
    case (rest w1)
    with assms(2) have "cluster_entry ctx token \<noteq> None" by simp
    from rest(4) show ?thesis
    proof (cases rule: cluster_or_next_cases)
      case (cluster e)
      with v rest show ?thesis by simp
    next
      case (api w2)
      with \<open>cluster_entry ctx token \<noteq> None\<close> show ?thesis by simp
    qed
  qed (use v assms in auto)
qed

definition demo_ctx :: auth_validation_context where
  "demo_ctx = \<lparr>vc_static = build_static_pat_config (Some ''pat-1, pat-2'') None,
     vc_cluster = build_cluster_pat_config (Some ''c1=tok''), vc_url = Some ''https://val/'', vc_key_ring = demo_ring\<rparr>"

lemma demo_ctx_lists: "static_lists demo_ctx ''pat-2''" "\<not> is_wrapped_upstream_token ''pat-2''"
  by code_simp+

theorem configured_token_stays_local_witness:
  "\<exists>r w'. validate_presented_token demo_auth demo_ctx ''pat-2'' JNull demo_world = (Inr r, w') \<and> w_sent w' = []
    \<and> vr_strategy r = Pat"
  using configured_token_stays_local [of "''pat-2''" demo_ctx demo_auth JNull demo_world] demo_ctx_lists
  by (simp add: demo_world_def)

theorem validation_dispatch_witness:
  "static_lists demo_ctx ''pat-2''"
proof -
  let ?w = "snd (read_hrtime demo_auth demo_world)" and ?t = "fst (read_hrtime demo_auth demo_world)"
  let ?r = "\<lparr>vr_strategy = Pat, vr_profile = sp_profile (the (vc_static demo_ctx)), vr_cluster_id = None, vr_cred_identity = None\<rparr>"
  obtain c where c: "vc_static demo_ctx = Some c" "''pat-2'' \<in> set (sp_tokens c)"
    using demo_ctx_lists(1) by (auto simp: static_lists_def split: option.splits)
  have "validate_presented_token demo_auth demo_ctx ''pat-2'' JNull demo_world = (Inr ?r, note_validation demo_auth ?t Pat ''success'' ?w)"
    using demo_ctx_lists(2) c by (simp add: validate_presented_token_def static_pat_Some case_prod_beta' Let_def)
  from validation_dispatch [OF this] show ?thesis by simp
qed

text \<open>
  The static list is read forgivingly and matched exactly: a presented token is accepted if and
  only if it is non-empty and is what remains, after trimming, of a piece of one of the two variables
  between commas and newlines.
\<close>

theorem static_pat_accepts_exactly:
  "validate_using_static_pat token (build_static_pat_config one many) \<noteq> None \<longleftrightarrow>
     token \<noteq> [] \<and> (\<exists>raw. Some raw \<in> {one, many} \<and>
       (\<exists>piece \<in> set (split_on (\<lambda>c. c = CHR 0x0A \<or> c = CHR '','') raw). trim piece = token))"
  unfolding static_accepts by (auto simp: parse_static_pat_tokens_def static_tokens_of_mem)

text \<open>
  C33. Basic credentials survive the header: what \<open>docker login\<close> encodes is decoded to the trimmed
  password and the trimmed user name, whatever the password holds (colons included), and an
  empty password is refused.
\<close>

theorem basic_auth_roundtrip:
  assumes "CHR '':'' \<notin> set user"
  shows "extract_presented_credentials (Some (''Basic '' @ b64_encode False (user @ CHR '':'' # password))) =
    (if trim password = [] then Inl (PlainError ''Registry token required'')
     else Inr \<lparr>pc_token = trim password, pc_identity = (if trim user = [] then None else Some (trim user))\<rparr>)"
proof -
  let ?header = "''Basic '' @ b64_encode False (user @ CHR '':'' # password)"
  have shape: "truthy (Some ?header)" "\<not> starts_with ''Bearer '' ?header" "starts_with ''Basic '' ?header"
    by (simp_all add: truthy_def)
  have body: "slice_from (int (length ''Basic '')) ?header = b64_encode False (user @ CHR '':'' # password)"
    by (simp add: slice_from_def)
  have idx: "index_of CHR '':'' (user @ CHR '':'' # password) = int (length user)" using assms by simp
  have parts: "slice 0 (int (length user)) (user @ CHR '':'' # password) = user"
      "slice_from (int (length user) + 1) (user @ CHR '':'' # password) = password"
    by (simp_all add: slice_def slice_from_def nat_add_distrib)
  show ?thesis
    unfolding extract_presented_credentials_def option.sel Let_def body trim_b64 b64_roundtrip idx parts
    using shape by simp
qed

theorem basic_auth_roundtrip_witness:
  "extract_presented_credentials (Some (''Basic '' @ b64_encode False (''bob'' @ CHR '':'' # '' p:w '')))
     = Inr \<lparr>pc_token = ''p:w'', pc_identity = Some ''bob''\<rparr>"
  using basic_auth_roundtrip [of "''bob''" "'' p:w ''"] by (simp add: trim_def is_ws_def)

text \<open>
  An API user cannot borrow another name: the presented identity and the account parameter pass
  exactly if each of them is blank or equals, up to case and outer white space, one of the
  validated user's non-blank identities.
\<close>

theorem identity_match_iff:
  "presented_identity_matches_user presented account profile \<longleftrightarrow>
     (\<forall>p. Some p \<in> {presented, case account of JStr s \<Rightarrow> Some s | _ \<Rightarrow> None} \<longrightarrow>
        trim p = [] \<or> (\<exists>v. Some v \<in> {Some (vp_external_id profile), vp_username profile, vp_email profile}
                          \<and> trim v \<noteq> [] \<and> to_lower (trim p) = to_lower (trim v)))"
proof -
  let ?check = "identities [presented, case account of JStr s \<Rightarrow> Some s | _ \<Rightarrow> None]"
  let ?valid = "identities [Some (vp_external_id profile), vp_username profile, vp_email profile]"
  have "presented_identity_matches_user presented account profile \<longleftrightarrow> (\<forall>i \<in> set ?check. i \<in> set ?valid)"
    by (auto simp: presented_identity_matches_user_def Let_def list_all_iff)
  then show ?thesis unfolding identities_ball unfolding identities_mem by simp
qed

theorem identity_match_iff_witness:
  "\<not> presented_identity_matches_user (Some ''mallory'') JUndef
     \<lparr>vp_external_id = ''42'', vp_username = Some ''Bob'', vp_email = None, vp_display_name = None, vp_avatar_url = None,
      vp_auth_provider = None, vp_raw = JNull\<rparr>
   \<and> presented_identity_matches_user (Some '' BOB '') JUndef
     \<lparr>vp_external_id = ''42'', vp_username = Some ''Bob'', vp_email = None, vp_display_name = None, vp_avatar_url = None,
      vp_auth_provider = None, vp_raw = JNull\<rparr>"
proof -
  let ?p = "\<lparr>vp_external_id = ''42'', vp_username = Some ''Bob'', vp_email = None, vp_display_name = None, vp_avatar_url = None,
      vp_auth_provider = None, vp_raw = JNull\<rparr>"
  have eval: "trim ''mallory'' = ''mallory''" "trim ''Bob'' = ''Bob''" "trim ''42'' = ''42''" "trim '' BOB '' = ''BOB''"
      "to_lower ''mallory'' = ''mallory''" "to_lower ''Bob'' = ''bob''" "to_lower ''42'' = ''42''" "to_lower ''BOB'' = ''bob''"
    by code_simp+
  have "\<not> presented_identity_matches_user (Some ''mallory'') JUndef ?p"
    unfolding identity_match_iff by (auto simp: eval)
  moreover have "presented_identity_matches_user (Some '' BOB '') JUndef ?p"
    unfolding identity_match_iff by (auto simp: eval intro: exI [of _ "''Bob''"])
  ultimately show ?thesis ..
qed

text \<open>
  The composed connection string cannot be broken out of: whatever the user name and password
  hold, they are read back from it unchanged, and their encoded forms hold none of the
  delimiters of a URL's authority.
\<close>

theorem connection_string_recoverable:
  assumes "get_database_connection_string env = Inr url" and "\<not> truthy (env ''DATABASE_URL'')"
  shows "\<exists>u p rest. url = ''postgres://'' @ u @ '':'' @ p @ ''@'' @ rest
    \<and> env ''POSTGRES_USER'' = Some (decode_uri_component u) \<and> env ''POSTGRES_PASSWORD'' = Some (decode_uri_component p)
    \<and> set (u @ p) \<inter> set '':@/?#'' = {}"
proof -
  from assms have t: "truthy (env ''POSTGRES_USER'')" "truthy (env ''POSTGRES_PASSWORD'')"
    by (auto simp: get_database_connection_string_def Let_def split: if_splits)
  then obtain user password where up: "env ''POSTGRES_USER'' = Some user" "env ''POSTGRES_PASSWORD'' = Some password"
    by (auto simp: truthy_def split: option.splits)
  have safe: "set (encode_uri_component s) \<inter> set '':@/?#'' = {}" for s
  proof -
    have "\<not> uri_unreserved c \<and> c \<noteq> CHR ''%''" if "c \<in> set '':@/?#''" for c
      using that by (auto simp: uri_unreserved_def char_class_defs)
    then show ?thesis using encode_uri_component_safe [of _ s] by blast
  qed
  from assms up have "\<exists>rest. url = ''postgres://'' @ encode_uri_component user @ '':'' @ encode_uri_component password @ ''@'' @ rest"
    by (auto simp: get_database_connection_string_def Let_def split: if_splits)
  then obtain rest where "url = ''postgres://'' @ encode_uri_component user @ '':'' @ encode_uri_component password @ ''@'' @ rest" ..
  moreover have "set (encode_uri_component user @ encode_uri_component password) \<inter> set '':@/?#'' = {}"
    using safe [of user] safe [of password] by auto
  ultimately show ?thesis using up
    by (intro exI [of _ "encode_uri_component user"] exI [of _ "encode_uri_component password"] exI [of _ rest])
      (simp add: uri_roundtrip)
qed

definition demo_env :: env where
  "demo_env = map_of [(''POSTGRES_HOST'', ''db''), (''POSTGRES_DB'', ''aocr''), (''POSTGRES_USER'', ''me''), (''POSTGRES_PASSWORD'', ''p@ss/w:rd'')]"

theorem connection_string_recoverable_witness:
  "\<exists>u p rest. projr (get_database_connection_string demo_env) = ''postgres://'' @ u @ '':'' @ p @ ''@'' @ rest
    \<and> decode_uri_component p = ''p@ss/w:rd''"
proof -
  have str: "get_database_connection_string demo_env = Inr (projr (get_database_connection_string demo_env))"
    by (simp add: get_database_connection_string_def demo_env_def truthy_def)
  have env: "\<not> truthy (demo_env ''DATABASE_URL'')" "demo_env ''POSTGRES_PASSWORD'' = Some ''p@ss/w:rd''"
    by (simp_all add: demo_env_def truthy_def)
  from connection_string_recoverable [OF str env(1)] obtain u p rest where
    "projr (get_database_connection_string demo_env) = ''postgres://'' @ u @ '':'' @ p @ ''@'' @ rest"
    "demo_env ''POSTGRES_PASSWORD'' = Some (decode_uri_component p)" by blast
  with env(2) show ?thesis by (intro exI [of _ u] exI [of _ p] exI [of _ rest] conjI) (simp_all only: option.inject)
qed

end
