(* ===== verification/TagRetention.thy ===== *)
theory TagRetention
  imports ClusterPat
begin

text \<open>
  \<open>hooks/src/util/tagRetention.ts\<close>: what a pushed tag's suffix says about its retention, and what
  a repository path says about an image's provenance. A look-up in a JavaScript object literal
  also finds the properties every object inherits; of their names only \<open>constructor\<close> can follow
  \<open>--ttl-\<close> or \<open>--idle-\<close>, and it is a function (\<open>InheritedFunction\<close>).
\<close>

section \<open>Tables\<close>

definition TTL_SUFFIX_SECONDS :: "(string \<times> int) list" where
  "TTL_SUFFIX_SECONDS =
     [(''1h'', 60 * 60), (''6h'', 6 * 60 * 60), (''24h'', 24 * 60 * 60), (''7d'', 7 * 24 * 60 * 60),
      (''30d'', 30 * 24 * 60 * 60), (''90d'', 90 * 24 * 60 * 60), (''180d'', 180 * 24 * 60 * 60),
      (''365d'', 365 * 24 * 60 * 60), (''1month'', 30 * 24 * 60 * 60), (''3month'', 90 * 24 * 60 * 60),
      (''6month'', 180 * 24 * 60 * 60), (''12month'', 365 * 24 * 60 * 60)]"

definition TTL_CANONICAL_SUFFIX :: "(string \<times> string) list" where
  "TTL_CANONICAL_SUFFIX =
     [(''1h'', ''1h''), (''6h'', ''6h''), (''24h'', ''24h''), (''7d'', ''7d''), (''30d'', ''30d''), (''90d'', ''90d''),
      (''180d'', ''180d''), (''365d'', ''365d''), (''1month'', ''30d''), (''3month'', ''90d''), (''6month'', ''180d''),
      (''12month'', ''365d'')]"

datatype 'a looked_up = OwnValue 'a | InheritedFunction

definition object_lookup :: "(string \<times> 'a) list \<Rightarrow> string \<Rightarrow> 'a looked_up option" where
  "object_lookup obj key =
     (case map_of obj key of Some v \<Rightarrow> Some (OwnValue v)
      | None \<Rightarrow> (if key = ''constructor'' then Some InheritedFunction else None))"

section \<open>The tag pattern\<close>

datatype retention_mode = KeepLatest | Ttl | Idle

definition mode_text :: "retention_mode \<Rightarrow> string" where
  "mode_text m = (case m of KeepLatest \<Rightarrow> ''keep-latest'' | Ttl \<Rightarrow> ''ttl'' | Idle \<Rightarrow> ''idle'')"

text \<open>What \<open>.\<close> does not match: LF, CR, and U+2028, U+2029 (three bytes each).\<close>

fun has_line_terminator :: "string \<Rightarrow> bool" where
  "has_line_terminator [] = False"
| "has_line_terminator (c # s) =
     (char_code c = 10 \<or> char_code c = 13
      \<or> (case s of c2 # c3 # _ \<Rightarrow> char_code c = 226 \<and> char_code c2 = 128 \<and> (char_code c3 = 168 \<or> char_code c3 = 169) | _ \<Rightarrow> False)
      \<or> has_line_terminator s)"

text \<open>
  \<open>/^(.*)--(ttl|idle)-([a-z0-9]+)$/\<close>: the third group holds no dash, so it is what follows the last
  one, and the groups are determined.
\<close>

definition ttl_tag_match :: "string \<Rightarrow> (string \<times> retention_mode \<times> string) option" where
  "ttl_tag_match tag =
     (let dash = last_index_of CHR ''-'' tag in
      if dash < 0 then None
      else
        (let head = slice 0 dash tag; suffix = slice_from (dash + 1) tag in
         if suffix = [] \<or> \<not> list_all is_lower_alnum suffix then None
         else if ends_with ''--ttl'' head then
           (let prefix = slice 0 (int (length head) - 5) head in
            if has_line_terminator prefix then None else Some (prefix, Ttl, suffix))
         else if ends_with ''--idle'' head then
           (let prefix = slice 0 (int (length head) - 6) head in
            if has_line_terminator prefix then None else Some (prefix, Idle, suffix))
         else None))"

section \<open>Retention\<close>

text \<open>A \<open>Date\<close> in milliseconds; \<open>None\<close> inside is the invalid date.\<close>

record parsed_tag_retention =
  tr_mode :: retention_mode
  tr_seconds :: "int looked_up option"
  tr_expires_at :: "int option option"
  tr_raw_suffix :: "string option"
  tr_canonical_suffix :: "string looked_up option"

definition keep_latest_retention :: parsed_tag_retention where
  "keep_latest_retention =
     \<lparr>tr_mode = KeepLatest, tr_seconds = None, tr_expires_at = None, tr_raw_suffix = None, tr_canonical_suffix = None\<rparr>"

definition expiry_of :: "int \<Rightarrow> int looked_up \<Rightarrow> int option" where
  "expiry_of reference v = (case v of OwnValue s \<Rightarrow> Some (reference + s * 1000) | InheritedFunction \<Rightarrow> None)"

definition parse_tag_retention :: "string \<Rightarrow> int \<Rightarrow> parsed_tag_retention" where
  "parse_tag_retention tag reference_time =
     (case ttl_tag_match tag of
        None \<Rightarrow> keep_latest_retention
      | Some (_, retention_type, raw_suffix) \<Rightarrow>
          (case object_lookup TTL_SUFFIX_SECONDS raw_suffix of
             None \<Rightarrow> keep_latest_retention
           | Some value \<Rightarrow>
               \<lparr>tr_mode = retention_type, tr_seconds = Some value,
                tr_expires_at = (if retention_type = Ttl then Some (expiry_of reference_time value) else None),
                tr_raw_suffix = Some raw_suffix,
                tr_canonical_suffix = object_lookup TTL_CANONICAL_SUFFIX raw_suffix\<rparr>))"

section \<open>Provenance\<close>

datatype provenance = Pushed | Mirror | ClusterSnapshot

definition provenance_text :: "provenance \<Rightarrow> string" where
  "provenance_text p = (case p of Pushed \<Rightarrow> ''pushed'' | Mirror \<Rightarrow> ''mirror'' | ClusterSnapshot \<Rightarrow> ''cluster-snapshot'')"

record inferred_provenance =
  ip_provenance :: provenance
  ip_organization :: string
  ip_name :: string
  ip_cluster_id :: "string option"
  ip_upstream_ref :: "string option"

definition path_segments :: "string \<Rightarrow> string list" where
  "path_segments repository = filter (\<lambda>s. s \<noteq> []) (split_on (\<lambda>c. c = CHR ''/'') repository)"

definition infer_provenance :: "js \<Rightarrow> inferred_provenance option" where
  "infer_provenance repository =
     (case repository of
        JStr path \<Rightarrow>
          (let segments = path_segments path in
           if path = [] \<or> length segments < 2 then None
           else
             (let organization = segments ! 0; name = join_with ''/'' (drop 1 segments) in
              if organization = ''cluster'' then
                (let candidate = segments ! 1 in
                 Some \<lparr>ip_provenance = ClusterSnapshot, ip_organization = organization, ip_name = name,
                       ip_cluster_id = (if CLUSTER_ID_PATTERN candidate then Some candidate else None),
                       ip_upstream_ref = None\<rparr>)
              else if organization = ''mirror'' then
                Some \<lparr>ip_provenance = Mirror, ip_organization = organization, ip_name = name,
                      ip_cluster_id = None, ip_upstream_ref = Some name\<rparr>
              else
                Some \<lparr>ip_provenance = Pushed, ip_organization = organization, ip_name = name,
                      ip_cluster_id = None, ip_upstream_ref = None\<rparr>))
      | _ \<Rightarrow> None)"

section \<open>Lemmas\<close>

definition matches_ttl_pattern :: "string \<Rightarrow> string \<Rightarrow> retention_mode \<Rightarrow> string \<Rightarrow> bool" where
  "matches_ttl_pattern tag prefix kind suffix \<longleftrightarrow>
     tag = prefix @ ''--'' @ mode_text kind @ ''-'' @ suffix \<and> kind \<in> {Ttl, Idle} \<and> \<not> has_line_terminator prefix
     \<and> suffix \<noteq> [] \<and> (\<forall>c \<in> set suffix. is_lower_alnum c)"

lemma suffix_no_dash: "\<forall>c \<in> set suffix. is_lower_alnum c \<Longrightarrow> CHR ''-'' \<notin> set suffix"
  by (auto simp: char_class_defs)

lemma not_both_kinds: "ends_with ''--ttl'' h \<Longrightarrow> \<not> ends_with ''--idle'' h"
proof
  assume "ends_with ''--ttl'' h" "ends_with ''--idle'' h"
  then obtain a b where "a @ ''--ttl'' = b @ ''--idle''" by (auto simp: ends_with_iff)
  then have "last (a @ ''--ttl'') = last (b @ ''--idle'')" by simp
  then show False by simp
qed

lemma slice_parts:
  "slice 0 (int (length h)) (h @ c # t) = h" "slice_from (int (length h) + 1) (h @ c # t) = t"
  by (simp_all add: slice_def slice_from_def nat_add_distrib)

text \<open>The matcher decides the pattern.\<close>

lemma ttl_tag_match_iff:
  "ttl_tag_match tag = Some (prefix, kind, suffix) \<longleftrightarrow> matches_ttl_pattern tag prefix kind suffix"
proof
  assume m: "ttl_tag_match tag = Some (prefix, kind, suffix)"
  let ?d = "last_index_of CHR ''-'' tag"
  from m have "0 \<le> ?d" by (auto simp: ttl_tag_match_def Let_def split: if_splits)
  then obtain h t where tag: "tag = h @ CHR ''-'' # t" and nt: "CHR ''-'' \<notin> set t" and d: "?d = int (length h)"
    by (rule last_index_of_split)
  have parts: "slice 0 ?d tag = h" "slice_from (?d + 1) tag = t"
    using d by (simp_all add: tag slice_def slice_from_def nat_add_distrib)
  from m parts d have t: "t \<noteq> []" "list_all is_lower_alnum t"
    and k: "ends_with ''--ttl'' h \<and> kind = Ttl \<and> prefix = slice 0 (int (length h) - 5) h \<or>
        ends_with ''--idle'' h \<and> kind = Idle \<and> prefix = slice 0 (int (length h) - 6) h"
    and p: "\<not> has_line_terminator prefix" and s: "suffix = t"
    by (auto simp: ttl_tag_match_def Let_def split: if_splits)
  from k have "h = prefix @ ''--'' @ mode_text kind \<and> kind \<in> {Ttl, Idle}"
    by (auto simp: ends_with_iff slice_def mode_text_def)
  with tag t p s show "matches_ttl_pattern tag prefix kind suffix"
    by (simp add: matches_ttl_pattern_def list_all_iff)
next
  assume m: "matches_ttl_pattern tag prefix kind suffix"
  let ?h = "prefix @ ''--'' @ mode_text kind"
  from m have tag: "tag = ?h @ CHR ''-'' # suffix" and k: "kind \<in> {Ttl, Idle}" and p: "\<not> has_line_terminator prefix"
    and s: "suffix \<noteq> []" "list_all is_lower_alnum suffix" "CHR ''-'' \<notin> set suffix"
    using suffix_no_dash by (auto simp: matches_ttl_pattern_def list_all_iff)
  have d: "last_index_of CHR ''-'' tag = int (length ?h)" unfolding tag using s(3) by (rule last_index_of_append)
  have parts: "slice 0 (int (length ?h)) tag = ?h" "slice_from (int (length ?h) + 1) tag = suffix"
    unfolding tag by (rule slice_parts)+
  from k consider "kind = Ttl" | "kind = Idle" by auto
  then show "ttl_tag_match tag = Some (prefix, kind, suffix)"
  proof cases
    case 1
    have "ends_with ''--ttl'' ?h" "slice 0 (int (length ?h) - 5) ?h = prefix"
      using 1 by (auto simp: ends_with_iff mode_text_def slice_def)
    then show ?thesis using 1 p s unfolding ttl_tag_match_def d Let_def parts by simp
  next
    case 2
    have "ends_with ''--idle'' ?h" "slice 0 (int (length ?h) - 6) ?h = prefix"
      using 2 by (auto simp: ends_with_iff mode_text_def slice_def)
    then show ?thesis using 2 p s not_both_kinds [of ?h] unfolding ttl_tag_match_def d Let_def parts by auto
  qed
qed

lemma canonical_same_seconds:
  "map_of TTL_SUFFIX_SECONDS s = Some n \<Longrightarrow>
     \<exists>c. map_of TTL_CANONICAL_SUFFIX s = Some c \<and> map_of TTL_SUFFIX_SECONDS c = Some n \<and> map_of TTL_CANONICAL_SUFFIX c = Some c"
  by (auto simp: TTL_SUFFIX_SECONDS_def TTL_CANONICAL_SUFFIX_def split: if_splits)

lemma seconds_in_range: "map_of TTL_SUFFIX_SECONDS s = Some n \<Longrightarrow> 3600 \<le> n \<and> n \<le> 31536000"
  by (auto simp: TTL_SUFFIX_SECONDS_def split: if_splits)

lemma split_on_sep: "p x \<Longrightarrow> split_on p (a @ x # b) = split_on p a @ split_on p b"
proof (induction a)
  case (Cons c a)
  obtain w ws where "split_on p a = w # ws" by (meson list.exhaust split_on_nonempty)
  with Cons show ?case by auto
qed simp

lemma path_segments_prefix: "path_segments (a @ CHR ''/'' # b) = path_segments a @ path_segments b"
  by (simp add: path_segments_def split_on_sep)

lemma path_segments_atom: "s \<noteq> [] \<Longrightarrow> CHR ''/'' \<notin> set s \<Longrightarrow> path_segments s = [s]"
  unfolding path_segments_def by (subst split_on_none) auto

section \<open>Properties\<close>

text \<open>
  C34. Retention suffixes mean what the table says: a tag that ends in \<open>--ttl-\<close> or \<open>--idle-\<close> and a
  suffix of the table gets that mode and that many seconds, an expiry exactly for TTL, and a
  canonical suffix of the same length; and a tag leaves the keep-latest regime only by matching the
  pattern with a suffix the table (or every object) has.
\<close>

theorem tag_retention_exact:
  "(matches_ttl_pattern tag prefix kind suffix \<and> map_of TTL_SUFFIX_SECONDS suffix = Some n \<longrightarrow>
     (\<exists>c. parse_tag_retention tag now =
        \<lparr>tr_mode = kind, tr_seconds = Some (OwnValue n),
         tr_expires_at = (if kind = Ttl then Some (Some (now + n * 1000)) else None),
         tr_raw_suffix = Some suffix, tr_canonical_suffix = Some (OwnValue c)\<rparr>
        \<and> map_of TTL_SUFFIX_SECONDS c = Some n \<and> 3600 \<le> n \<and> n \<le> 31536000))
   \<and> (parse_tag_retention tag now = keep_latest_retention \<or>
      (\<exists>p k s. matches_ttl_pattern tag p k s \<and> (map_of TTL_SUFFIX_SECONDS s \<noteq> None \<or> s = ''constructor'')))"
proof (intro conjI impI)
  assume a: "matches_ttl_pattern tag prefix kind suffix \<and> map_of TTL_SUFFIX_SECONDS suffix = Some n"
  then obtain c where c: "map_of TTL_CANONICAL_SUFFIX suffix = Some c" "map_of TTL_SUFFIX_SECONDS c = Some n"
    using canonical_same_seconds by blast
  from a have "ttl_tag_match tag = Some (prefix, kind, suffix)" by (simp add: ttl_tag_match_iff)
  with a c seconds_in_range [of suffix n] show "\<exists>c. parse_tag_retention tag now =
        \<lparr>tr_mode = kind, tr_seconds = Some (OwnValue n),
         tr_expires_at = (if kind = Ttl then Some (Some (now + n * 1000)) else None),
         tr_raw_suffix = Some suffix, tr_canonical_suffix = Some (OwnValue c)\<rparr>
        \<and> map_of TTL_SUFFIX_SECONDS c = Some n \<and> 3600 \<le> n \<and> n \<le> 31536000"
    by (intro exI [of _ c]) (simp add: parse_tag_retention_def object_lookup_def expiry_of_def)
next
  show "parse_tag_retention tag now = keep_latest_retention \<or>
      (\<exists>p k s. matches_ttl_pattern tag p k s \<and> (map_of TTL_SUFFIX_SECONDS s \<noteq> None \<or> s = ''constructor''))"
  proof (cases "ttl_tag_match tag")
    case None
    then show ?thesis by (simp add: parse_tag_retention_def)
  next
    case (Some m)
    obtain p k s where m: "m = (p, k, s)" by (cases m)
    then have "matches_ttl_pattern tag p k s" using Some by (simp flip: ttl_tag_match_iff)
    moreover have "parse_tag_retention tag now = keep_latest_retention"
      if "map_of TTL_SUFFIX_SECONDS s = None" "s \<noteq> ''constructor''"
      using that Some m by (simp add: parse_tag_retention_def object_lookup_def)
    ultimately show ?thesis by blast
  qed
qed

theorem tag_retention_exact_witness:
  "tr_mode (parse_tag_retention ''v1--idle-7d'' 0) = Idle \<and> tr_seconds (parse_tag_retention ''v1--idle-7d'' 0) = Some (OwnValue 604800)"
proof -
  have "matches_ttl_pattern ''v1--idle-7d'' ''v1'' Idle ''7d'' \<and> map_of TTL_SUFFIX_SECONDS ''7d'' = Some 604800"
    by (simp add: matches_ttl_pattern_def mode_text_def TTL_SUFFIX_SECONDS_def char_class_defs)
  with tag_retention_exact [of "''v1--idle-7d''" "''v1''" Idle "''7d''" 604800 0]
  show ?thesis by (metis parsed_tag_retention.select_convs(1,2))
qed

text \<open>What the webhook reads out of a path inside a cluster's own namespace.\<close>

lemma under_own_attributed:
  assumes "CLUSTER_ID_PATTERN cluster_id" and "under_namespace (''cluster/'' @ cluster_id) name"
  shows "\<exists>ip. infer_provenance (JStr name) = Some ip \<and> ip_provenance ip = ClusterSnapshot \<and> ip_organization ip = ''cluster''
           \<and> ip_cluster_id ip = Some cluster_id"
proof -
  let ?own = "''cluster/'' @ cluster_id"
  from assms(2) obtain rest where name: "name = ?own \<or> name = ?own @ CHR ''/'' # rest"
    by (auto simp: under_namespace_def starts_with_iff)
  have id: "cluster_id \<noteq> []" "CHR ''/'' \<notin> set cluster_id"
    using assms(1) cluster_id_no_slash by (auto simp: CLUSTER_ID_PATTERN_def)
  have own: "path_segments ?own = [''cluster'', cluster_id]"
    using path_segments_prefix [of "''cluster''" cluster_id] id by (simp add: path_segments_atom)
  then obtain more where segs: "path_segments name = ''cluster'' # cluster_id # more"
    using name path_segments_prefix [of ?own rest] by auto
  have "name \<noteq> []" using name by auto
  with segs assms(1) show ?thesis by (simp add: infer_provenance_def Let_def)
qed

text \<open>
  C35. The two services agree on whose image a push is: where the scope policy lets a cluster's token
  do more than pull, the webhook attributes the repository to that very cluster.
\<close>

theorem cluster_push_is_attributed:
  assumes "CLUSTER_ID_PATTERN cluster_id"
    and "a \<in> set (sd_actions (evaluate_cluster_pat_scope env cluster_id t name acts))" and "a \<noteq> ''pull''"
  shows "\<exists>ip. infer_provenance (JStr name) = Some ip \<and> ip_provenance ip = ClusterSnapshot \<and> ip_organization ip = ''cluster''
           \<and> ip_cluster_id ip = Some cluster_id"
  using under_own_attributed [OF assms(1)] evaluate_write [OF assms(2,3)] by simp

theorem cluster_push_is_attributed_witness:
  "\<exists>ip. infer_provenance (JStr ''cluster/team-a/app'') = Some ip \<and> ip_cluster_id ip = Some ''team-a''"
  using cluster_push_is_attributed [of "''team-a''" "''push''" "\<lambda>_. None" "''repository''" "''cluster/team-a/app''" "[''push'']"]
  by (auto simp: CLUSTER_ID_PATTERN_def evaluate_cluster_pat_scope_def allow_def under_namespace_def js_defs Let_def)

end
