(* ===== verification/Database.thy ===== *)
theory Database
  imports TagRetention
begin

text \<open>
  The Postgres database both services write, as far as their statements use it (\<open>db/init.sql\<close>):
  the tables, the statements of \<open>auth/src/createApp.ts\<close>, \<open>hooks/src/controllers/hookEvents.ts\<close> and
  \<open>hooks/src/util/imageRetention.ts\<close> as functions on them with the checks of the column types, and
  transactions. A timestamp is an integer number of microseconds; row ids come from the generator
  \<open>gen\<close> (\<open>gen_random_uuid()\<close>); text is UTF-8, and \<open>VARCHAR(n)\<close> counts code points. The columns
  \<open>retention_mode\<close> and \<open>provenance\<close> hold the values the services write.
\<close>

section \<open>Tables\<close>

record user_row =
  us_id :: string
  us_external_id :: string
  us_username :: "string option"
  us_email :: "string option"
  us_display_name :: "string option"
  us_avatar_url :: "string option"
  us_auth_provider :: "string option"
  us_profile :: js

record repo_row =
  re_id :: string
  re_organization :: string
  re_name :: string
  re_user_id :: "string option"

record image_row =
  im_id :: string
  im_repository_id :: string
  im_tag :: string
  im_created_at :: "int option"
  im_last_pushed_at :: int
  im_retention_mode :: retention_mode
  im_retention_value :: "int option"
  im_expires_at :: "int option"
  im_raw_suffix :: "string option"
  im_digest :: "string option"
  im_last_pulled_at :: "int option"
  im_provenance :: provenance
  im_upstream_ref :: "string option"
  im_cluster_id :: "string option"
  im_source_sandbox_id :: "string option"

record database =
  db_users :: "user_row list"
  db_repos :: "repo_row list"
  db_images :: "image_row list"
  db_next_id :: nat

definition empty_database :: database where
  "empty_database = \<lparr>db_users = [], db_repos = [], db_images = [], db_next_id = 0\<rparr>"

section \<open>Column types\<close>

datatype sql_error = ValueTooLong | InvalidUuid | InvalidInteger | InvalidTimestamp | InvalidText | ForeignKeyViolation

definition code_points :: "string \<Rightarrow> nat" where
  "code_points s = length (filter (\<lambda>c. \<not> (128 \<le> char_code c \<and> char_code c < 192)) s)"

definition check_text :: "string \<Rightarrow> sql_error option" where
  "check_text s = (if CHR 0x00 \<in> set s then Some InvalidText else None)"

definition check_varchar :: "nat \<Rightarrow> string \<Rightarrow> sql_error option" where
  "check_varchar n s = (if CHR 0x00 \<in> set s then Some InvalidText
                        else if code_points s > n then Some ValueTooLong else None)"

definition check_opt :: "('a \<Rightarrow> sql_error option) \<Rightarrow> 'a option \<Rightarrow> sql_error option" where
  "check_opt check v = (case v of None \<Rightarrow> None | Some x \<Rightarrow> check x)"

text \<open>Sixteen bytes of two hexadecimal digits, a dash allowed after every second byte but the last.\<close>

fun uuid_bytes :: "nat \<Rightarrow> string \<Rightarrow> string option" where
  "uuid_bytes 0 s = (if s = [] then Some [] else None)"
| "uuid_bytes (Suc n) (a # b # s) =
     (if radix_digit 16 a = None \<or> radix_digit 16 b = None then None
      else (let rest = (if odd (15 - n) \<and> n > 0 \<and> s \<noteq> [] \<and> hd s = CHR ''-'' then tl s else s) in
        map_option (\<lambda>r. lower_char a # lower_char b # r) (uuid_bytes n rest)))"
| "uuid_bytes (Suc n) _ = None"

definition uuid_parse :: "string \<Rightarrow> string option" where
  "uuid_parse s =
     (let body = (if starts_with ''{'' s \<and> ends_with ''}'' s \<and> length s \<ge> 2 then butlast (tl s) else s) in
      map_option (\<lambda>d. take 8 d @ ''-'' @ take 4 (drop 8 d) @ ''-'' @ take 4 (drop 12 d) @ ''-'' @ take 4 (drop 16 d)
                      @ ''-'' @ drop 20 d) (uuid_bytes 16 body))"

definition check_uuid :: "string \<Rightarrow> sql_error option" where
  "check_uuid s = (if uuid_parse s = None then Some InvalidUuid else None)"

text \<open>A JavaScript function is sent as its source text, an invalid date as \<open>0NaN-NaN-...\<close>.\<close>

definition check_integer :: "int looked_up \<Rightarrow> sql_error option" where
  "check_integer v = (case v of InheritedFunction \<Rightarrow> Some InvalidInteger
     | OwnValue n \<Rightarrow> if - (2 ^ 31) \<le> n \<and> n < 2 ^ 31 then None else Some InvalidInteger)"

definition check_date :: "int option \<Rightarrow> sql_error option" where
  "check_date d = (case d of None \<Rightarrow> Some InvalidTimestamp | Some _ \<Rightarrow> None)"

definition first_error :: "sql_error option list \<Rightarrow> sql_error option" where
  "first_error es = (case List.map_filter id es of [] \<Rightarrow> None | e # _ \<Rightarrow> Some e)"

section \<open>Statements of the token service\<close>

record user_params =
  up_external_id :: string
  up_username :: "string option"
  up_email :: "string option"
  up_display_name :: "string option"
  up_avatar_url :: "string option"
  up_auth_provider :: "string option"
  up_profile :: js

definition check_user :: "user_params \<Rightarrow> sql_error option" where
  "check_user p = first_error
     [check_varchar 255 (up_external_id p), check_opt (check_varchar 255) (up_username p),
      check_opt (check_varchar 255) (up_email p), check_opt (check_varchar 255) (up_display_name p),
      check_opt check_text (up_avatar_url p), check_opt (check_varchar 255) (up_auth_provider p)]"

text \<open>\<open>INSERT INTO users ... ON CONFLICT (external_id) DO UPDATE ... RETURNING id\<close>\<close>

definition upsert_user :: "(nat \<Rightarrow> string) \<Rightarrow> user_params \<Rightarrow> database \<Rightarrow> sql_error + string \<times> database" where
  "upsert_user gen p db =
     (case check_user p of
        Some e \<Rightarrow> Inl e
      | None \<Rightarrow>
          (case find (\<lambda>u. us_external_id u = up_external_id p) (db_users db) of
             Some u \<Rightarrow>
               Inr (us_id u,
                 db\<lparr>db_users := map (\<lambda>v. if us_external_id v = up_external_id p
                      then v\<lparr>us_username := up_username p, us_email := up_email p, us_display_name := up_display_name p,
                             us_avatar_url := up_avatar_url p, us_auth_provider := up_auth_provider p,
                             us_profile := up_profile p\<rparr>
                      else v) (db_users db)\<rparr>)
           | None \<Rightarrow>
               (let i = gen (db_next_id db) in
                Inr (i,
                  db\<lparr>db_users := db_users db @
                       [\<lparr>us_id = i, us_external_id = up_external_id p, us_username = up_username p, us_email = up_email p,
                         us_display_name = up_display_name p, us_avatar_url = up_avatar_url p,
                         us_auth_provider = up_auth_provider p, us_profile = up_profile p\<rparr>],
                     db_next_id := Suc (db_next_id db)\<rparr>))))"

text \<open>\<open>INSERT INTO repositories (organization, name, user_id) ... DO UPDATE SET user_id\<close>\<close>

definition upsert_repo_owner :: "(nat \<Rightarrow> string) \<Rightarrow> string \<Rightarrow> string \<Rightarrow> string \<Rightarrow> database \<Rightarrow> sql_error + unit \<times> database" where
  "upsert_repo_owner gen org repo user_id db =
     (case first_error [check_varchar 255 org, check_varchar 255 repo] of
        Some e \<Rightarrow> Inl e
      | None \<Rightarrow>
          (if \<not> list_ex (\<lambda>u. us_id u = user_id) (db_users db) then Inl ForeignKeyViolation
           else if list_ex (\<lambda>r. re_organization r = org \<and> re_name r = repo) (db_repos db) then
             Inr ((), db\<lparr>db_repos := map (\<lambda>r. if re_organization r = org \<and> re_name r = repo
                                           then r\<lparr>re_user_id := Some user_id\<rparr> else r) (db_repos db)\<rparr>)
           else
             Inr ((), db\<lparr>db_repos := db_repos db @
                        [\<lparr>re_id = gen (db_next_id db), re_organization = org, re_name = repo, re_user_id = Some user_id\<rparr>],
                      db_next_id := Suc (db_next_id db)\<rparr>)))"

section \<open>Statements of the webhook service\<close>

text \<open>\<open>INSERT INTO repositories (organization, name) ... DO UPDATE SET name = $2 RETURNING id\<close>\<close>

definition upsert_repo :: "(nat \<Rightarrow> string) \<Rightarrow> string \<Rightarrow> string \<Rightarrow> database \<Rightarrow> sql_error + string \<times> database" where
  "upsert_repo gen org name db =
     (case first_error [check_varchar 255 org, check_varchar 255 name] of
        Some e \<Rightarrow> Inl e
      | None \<Rightarrow>
          (case find (\<lambda>r. re_organization r = org \<and> re_name r = name) (db_repos db) of
             Some r \<Rightarrow> Inr (re_id r, db)
           | None \<Rightarrow>
               (let i = gen (db_next_id db) in
                Inr (i, db\<lparr>db_repos := db_repos db @
                            [\<lparr>re_id = i, re_organization = org, re_name = name, re_user_id = None\<rparr>],
                          db_next_id := Suc (db_next_id db)\<rparr>))))"

record image_params =
  ia_repository_id :: string
  ia_tag :: string
  ia_pushed_at :: int
  ia_mode :: retention_mode
  ia_value :: "int looked_up option"
  ia_expires_at :: "int option option"
  ia_raw_suffix :: "string option"
  ia_digest :: "string option"
  ia_provenance :: provenance
  ia_cluster_id :: "string option"
  ia_upstream_ref :: "string option"

definition check_image :: "image_params \<Rightarrow> sql_error option" where
  "check_image p = first_error
     [check_varchar 255 (ia_tag p), check_opt check_integer (ia_value p), check_opt check_date (ia_expires_at p),
      check_opt (check_varchar 64) (ia_raw_suffix p), check_opt (check_varchar 255) (ia_digest p),
      check_opt check_uuid (ia_cluster_id p), check_opt check_text (ia_upstream_ref p)]"

text \<open>\<open>COALESCE\<close> of two columns.\<close>

definition coalesce :: "'a option \<Rightarrow> 'a option \<Rightarrow> 'a option" where
  "coalesce a b = (case a of None \<Rightarrow> b | Some x \<Rightarrow> Some x)"

text \<open>A JavaScript instant, in milliseconds, as a timestamp.\<close>

definition timestamp_of_ms :: "int \<Rightarrow> int" where
  "timestamp_of_ms ms = ms * 1000"

definition excluded_row :: "string \<Rightarrow> int \<Rightarrow> image_params \<Rightarrow> image_row" where
  "excluded_row i now p =
     \<lparr>im_id = i, im_repository_id = ia_repository_id p, im_tag = ia_tag p, im_created_at = Some now,
      im_last_pushed_at = timestamp_of_ms (ia_pushed_at p), im_retention_mode = ia_mode p,
      im_retention_value = (case ia_value p of Some (OwnValue n) \<Rightarrow> Some n | _ \<Rightarrow> None),
      im_expires_at = (case ia_expires_at p of Some (Some t) \<Rightarrow> Some (timestamp_of_ms t) | _ \<Rightarrow> None),
      im_raw_suffix = ia_raw_suffix p, im_digest = ia_digest p, im_last_pulled_at = None,
      im_provenance = ia_provenance p, im_upstream_ref = ia_upstream_ref p,
      im_cluster_id = (case ia_cluster_id p of None \<Rightarrow> None | Some c \<Rightarrow> uuid_parse c), im_source_sandbox_id = None\<rparr>"

definition merge_image :: "image_row \<Rightarrow> image_row \<Rightarrow> image_row" where
  "merge_image excluded old =
     old\<lparr>im_last_pushed_at := im_last_pushed_at excluded, im_retention_mode := im_retention_mode excluded,
         im_retention_value := im_retention_value excluded, im_expires_at := im_expires_at excluded,
         im_raw_suffix := im_raw_suffix excluded, im_digest := coalesce (im_digest excluded) (im_digest old),
         im_provenance := im_provenance excluded,
         im_cluster_id := coalesce (im_cluster_id excluded) (im_cluster_id old),
         im_upstream_ref := coalesce (im_upstream_ref excluded) (im_upstream_ref old)\<rparr>"

definition same_image :: "image_row \<Rightarrow> image_row \<Rightarrow> bool" where
  "same_image a b \<longleftrightarrow> im_repository_id a = im_repository_id b \<and> im_tag a = im_tag b"

text \<open>\<open>INSERT INTO images ... ON CONFLICT (repository_id, tag) DO UPDATE SET ...\<close>\<close>

definition upsert_image :: "(nat \<Rightarrow> string) \<Rightarrow> int \<Rightarrow> image_params \<Rightarrow> database \<Rightarrow> sql_error + unit \<times> database" where
  "upsert_image gen now p db =
     (case check_image p of
        Some e \<Rightarrow> Inl e
      | None \<Rightarrow>
          (let excluded = excluded_row (gen (db_next_id db)) now p in
           if \<not> list_ex (\<lambda>r. re_id r = ia_repository_id p) (db_repos db) then Inl ForeignKeyViolation
           else if list_ex (same_image excluded) (db_images db) then
             Inr ((), db\<lparr>db_images := map (\<lambda>i. if same_image excluded i then merge_image excluded i else i) (db_images db)\<rparr>)
           else Inr ((), db\<lparr>db_images := db_images db @ [excluded], db_next_id := Suc (db_next_id db)\<rparr>)))"

text \<open>The ids of the repositories \<open>organization/name\<close> (at most one, by the unique constraint).\<close>

definition repo_named :: "string \<Rightarrow> string \<Rightarrow> database \<Rightarrow> image_row \<Rightarrow> bool" where
  "repo_named org name db i \<longleftrightarrow>
     list_ex (\<lambda>r. re_id r = im_repository_id i \<and> re_organization r = org \<and> re_name r = name) (db_repos db)"

text \<open>\<open>DELETE_MANIFEST_SQL\<close>\<close>

definition delete_manifest :: "string \<Rightarrow> string \<Rightarrow> string \<Rightarrow> database \<Rightarrow> database" where
  "delete_manifest org name digest db =
     db\<lparr>db_images := filter (\<lambda>i. \<not> (repo_named org name db i \<and> im_digest i = Some digest)) (db_images db)\<rparr>"

definition ONE_HOUR :: int where "ONE_HOUR = 3600 * 1000000"

text \<open>\<open>UPDATE_LAST_PULLED_AT_SQL\<close>\<close>

definition update_last_pulled :: "int \<Rightarrow> string \<Rightarrow> string \<Rightarrow> string \<Rightarrow> database \<Rightarrow> database" where
  "update_last_pulled now org name tag db =
     db\<lparr>db_images := map (\<lambda>i.
          if repo_named org name db i \<and> im_tag i = tag
             \<and> (case im_last_pulled_at i of None \<Rightarrow> True | Some t \<Rightarrow> t < now - ONE_HOUR)
          then i\<lparr>im_last_pulled_at := Some now\<rparr> else i) (db_images db)\<rparr>"

text \<open>\<open>DELETE FROM images WHERE id = $1\<close>\<close>

definition delete_image :: "string \<Rightarrow> database \<Rightarrow> database" where
  "delete_image i db = db\<lparr>db_images := filter (\<lambda>r. im_id r \<noteq> i) (db_images db)\<rparr>"

section \<open>Sessions and transactions\<close>

text \<open>
  What can go wrong around the statements: no connection, a statement the server refuses, a
  connection lost before the commit, or lost after the server committed and before it answered.
  A rollback on a lost connection throws.
\<close>

datatype db_fault = NoFault | StatementFails | ConnectionLost | CommitReplyLost

datatype session = ConnectFails | Connected db_fault

datatype 'a tx_outcome = TxDone 'a | TxRolledBack | TxRollbackThrows

definition run_transaction ::
  "db_fault \<Rightarrow> (database \<Rightarrow> sql_error + 'a \<times> database) \<Rightarrow> database \<Rightarrow> 'a tx_outcome \<times> database" where
  "run_transaction fault body db =
     (case fault of
        NoFault \<Rightarrow> (case body db of Inl _ \<Rightarrow> (TxRolledBack, db) | Inr (x, db') \<Rightarrow> (TxDone x, db'))
      | StatementFails \<Rightarrow> (TxRolledBack, db)
      | ConnectionLost \<Rightarrow> (TxRollbackThrows, db)
      | CommitReplyLost \<Rightarrow> (case body db of Inl _ \<Rightarrow> (TxRolledBack, db) | Inr (_, db') \<Rightarrow> (TxRollbackThrows, db')))"

text \<open>One statement that commits by itself: done or not, and reported or not.\<close>

definition run_statement :: "db_fault \<Rightarrow> (database \<Rightarrow> database) \<Rightarrow> database \<Rightarrow> bool \<times> database" where
  "run_statement fault stmt db =
     (case fault of NoFault \<Rightarrow> (True, stmt db) | StatementFails \<Rightarrow> (False, db)
      | ConnectionLost \<Rightarrow> (False, db) | CommitReplyLost \<Rightarrow> (False, stmt db))"

section \<open>The schema's invariant\<close>

definition db_wf :: "(nat \<Rightarrow> string) \<Rightarrow> database \<Rightarrow> bool" where
  "db_wf gen db \<longleftrightarrow>
     distinct (map us_id (db_users db)) \<and> distinct (map us_external_id (db_users db))
     \<and> distinct (map re_id (db_repos db)) \<and> distinct (map (\<lambda>r. (re_organization r, re_name r)) (db_repos db))
     \<and> distinct (map im_id (db_images db)) \<and> distinct (map (\<lambda>i. (im_repository_id i, im_tag i)) (db_images db))
     \<and> im_repository_id ` set (db_images db) \<subseteq> re_id ` set (db_repos db)
     \<and> (\<forall>r \<in> set (db_repos db). \<forall>u. re_user_id r = Some u \<longrightarrow> u \<in> us_id ` set (db_users db))
     \<and> us_id ` set (db_users db) \<union> re_id ` set (db_repos db) \<union> im_id ` set (db_images db) \<subseteq> gen ` {..<db_next_id db}"

text \<open>
  The interface the services have to the store: every statement keeps the schema's constraints.
  What follows for a run of statements, transactions and faults is proved from that alone.
\<close>

locale image_store =
  fixes inv :: "database \<Rightarrow> bool"
    and stmts :: "(database \<Rightarrow> sql_error + 'a \<times> database) set"
  assumes stmt_inv: "s \<in> stmts \<Longrightarrow> inv db \<Longrightarrow> s db = Inr (x, db') \<Longrightarrow> inv db'"
begin

lemma transaction_inv: "s \<in> stmts \<Longrightarrow> inv db \<Longrightarrow> inv (snd (run_transaction fault s db))"
  by (auto simp: run_transaction_def split: db_fault.split sum.split intro: stmt_inv)

lemma transactions_inv:
  "\<forall>(fault, s) \<in> set runs. s \<in> stmts \<Longrightarrow> inv db \<Longrightarrow>
     inv (fold (\<lambda>(fault, s) db. snd (run_transaction fault s db)) runs db)"
  by (induction runs arbitrary: db) (auto simp: transaction_inv)

end

text \<open>Atomicity: whatever goes wrong, the database is as before or as after the whole body.\<close>

lemma run_transaction_atomic:
  "snd (run_transaction fault body db) = db \<or> (\<exists>x. body db = Inr (x, snd (run_transaction fault body db)))"
  by (auto simp: run_transaction_def split: db_fault.split sum.split)

lemma run_transaction_done:
  "run_transaction fault body db = (TxDone x, db') \<Longrightarrow> body db = Inr (x, db')"
  by (auto simp: run_transaction_def split: db_fault.splits sum.splits)


section \<open>Every statement keeps the invariant\<close>

text \<open>With a generator that never repeats an id.\<close>

definition db_inv :: "(nat \<Rightarrow> string) \<Rightarrow> database \<Rightarrow> bool" where
  "db_inv gen db \<longleftrightarrow> inj gen \<and> db_wf gen db"

lemma gen_fresh: "inj (gen :: nat \<Rightarrow> string) \<Longrightarrow> X \<subseteq> gen ` {..<n} \<Longrightarrow> gen n \<notin> X"
  by (auto dest!: subsetD [of X] simp: inj_eq [of gen])

lemma map_if_key: "(\<And>x. f (g x) = f x) \<Longrightarrow> map f (map (\<lambda>x. if P x then g x else x) xs) = map f xs"
  by (induction xs) auto

lemma map_eq_image: "map f xs = map f ys \<Longrightarrow> f ` set xs = f ` set ys"
  by (metis list.set_map)

text \<open>The invariant sees a table only through its keys.\<close>

lemma db_inv_users:
  assumes "db_inv gen db" and "map us_id xs = map us_id (db_users db)"
    and "map us_external_id xs = map us_external_id (db_users db)"
  shows "db_inv gen (db\<lparr>db_users := xs\<rparr>)"
  using assms map_eq_image [OF assms(2)] by (simp add: db_inv_def db_wf_def)

lemma db_inv_repos:
  assumes "db_inv gen db" and "map re_id xs = map re_id (db_repos db)"
    and "map (\<lambda>r. (re_organization r, re_name r)) xs = map (\<lambda>r. (re_organization r, re_name r)) (db_repos db)"
    and "\<forall>r \<in> set xs. \<forall>u. re_user_id r = Some u \<longrightarrow> u \<in> us_id ` set (db_users db)"
  shows "db_inv gen (db\<lparr>db_repos := xs\<rparr>)"
  using assms map_eq_image [OF assms(2)] by (simp add: db_inv_def db_wf_def)

lemma db_inv_images:
  assumes "db_inv gen db" and "map im_id xs = map im_id (db_images db)"
    and "map (\<lambda>i. (im_repository_id i, im_tag i)) xs = map (\<lambda>i. (im_repository_id i, im_tag i)) (db_images db)"
  shows "db_inv gen (db\<lparr>db_images := xs\<rparr>)"
proof -
  have "map fst (map (\<lambda>i. (im_repository_id i, im_tag i)) xs) = map fst (map (\<lambda>i. (im_repository_id i, im_tag i)) (db_images db))"
    using assms(3) by (rule arg_cong)
  then have "map im_repository_id xs = map im_repository_id (db_images db)" by (simp add: comp_def)
  from map_eq_image [OF this] map_eq_image [OF assms(2)] assms show ?thesis by (simp add: db_inv_def db_wf_def)
qed

lemma find_none_mem: "find P xs = None \<Longrightarrow> x \<in> set xs \<Longrightarrow> \<not> P x"
  by (auto simp: find_None_iff)

lemma find_some_mem: "find P xs = Some x \<Longrightarrow> x \<in> set xs \<and> P x"
  by (induction xs) (auto split: if_splits)

lemma upsert_user_inv:
  assumes "upsert_user gen p db = Inr (u, db')" and "db_inv gen db"
  shows "db_inv gen db' \<and> u \<in> us_id ` set (db_users db') \<and> db_repos db' = db_repos db \<and> db_images db' = db_images db"
proof (cases "find (\<lambda>u. us_external_id u = up_external_id p) (db_users db)")
  case (Some v)
  let ?g = "\<lambda>v. v\<lparr>us_username := up_username p, us_email := up_email p, us_display_name := up_display_name p,
         us_avatar_url := up_avatar_url p, us_auth_provider := up_auth_provider p, us_profile := up_profile p\<rparr>"
  let ?users = "map (\<lambda>v. if us_external_id v = up_external_id p then ?g v else v) (db_users db)"
  have keys: "map us_id ?users = map us_id (db_users db)" "map us_external_id ?users = map us_external_id (db_users db)"
    by (rule map_if_key; simp)+
  from assms(1) Some have u: "u = us_id v" and db': "db' = db\<lparr>db_users := ?users\<rparr>"
    by (auto simp: upsert_user_def split: option.splits)
  have "u \<in> us_id ` set ?users" using map_eq_image [OF keys(1)] find_some_mem [OF Some] u by auto
  then show ?thesis unfolding db' using db_inv_users [OF assms(2) keys] by simp
next
  case None
  define r where "r = \<lparr>us_id = gen (db_next_id db), us_external_id = up_external_id p, us_username = up_username p,
     us_email = up_email p, us_display_name = up_display_name p, us_avatar_url = up_avatar_url p,
     us_auth_provider = up_auth_provider p, us_profile = up_profile p\<rparr>"
  from assms(1) None have u: "u = gen (db_next_id db)" "us_id r = u" "us_external_id r = up_external_id p"
      "db' = db\<lparr>db_users := db_users db @ [r], db_next_id := Suc (db_next_id db)\<rparr>"
    by (auto simp: upsert_user_def Let_def r_def split: option.splits)
  have new: "up_external_id p \<notin> us_external_id ` set (db_users db)" using find_none_mem [OF None] by (metis imageE)
  have fresh: "gen (db_next_id db) \<notin> us_id ` set (db_users db)"
    using assms(2) by (intro gen_fresh) (auto simp: db_inv_def db_wf_def)
  from assms(2) new fresh u show ?thesis
    by (auto simp: db_inv_def db_wf_def lessThan_Suc)
qed

lemma upsert_repo_owner_inv:
  assumes "upsert_repo_owner gen org repo u db = Inr (x, db')" and "db_inv gen db"
  shows "db_inv gen db' \<and> db_users db' = db_users db \<and> db_images db' = db_images db"
proof (cases "list_ex (\<lambda>r. re_organization r = org \<and> re_name r = repo) (db_repos db)")
  case True
  let ?repos = "map (\<lambda>r. if re_organization r = org \<and> re_name r = repo then r\<lparr>re_user_id := Some u\<rparr> else r) (db_repos db)"
  have keys: "map re_id ?repos = map re_id (db_repos db)"
      "map (\<lambda>r. (re_organization r, re_name r)) ?repos = map (\<lambda>r. (re_organization r, re_name r)) (db_repos db)"
    by (rule map_if_key; simp)+
  from assms(1) True have db': "db' = db\<lparr>db_repos := ?repos\<rparr>" and u: "u \<in> us_id ` set (db_users db)"
    by (auto simp: upsert_repo_owner_def list_ex_iff split: option.splits if_splits)
  have "\<forall>r \<in> set ?repos. \<forall>v. re_user_id r = Some v \<longrightarrow> v \<in> us_id ` set (db_users db)"
    using assms(2) u by (auto simp: db_inv_def db_wf_def)
  from db_inv_repos [OF assms(2) keys this] show ?thesis unfolding db' by simp
next
  case False
  define r where "r = \<lparr>re_id = gen (db_next_id db), re_organization = org, re_name = repo, re_user_id = Some u\<rparr>"
  from assms(1) False have r: "re_id r = gen (db_next_id db)" "re_organization r = org" "re_name r = repo"
      "re_user_id r = Some u" "db' = db\<lparr>db_repos := db_repos db @ [r], db_next_id := Suc (db_next_id db)\<rparr>"
    and u: "u \<in> us_id ` set (db_users db)"
    by (auto simp: upsert_repo_owner_def list_ex_iff r_def split: option.splits if_splits)
  have fresh: "gen (db_next_id db) \<notin> re_id ` set (db_repos db)"
    using assms(2) by (intro gen_fresh) (auto simp: db_inv_def db_wf_def)
  have new: "(org, repo) \<notin> (\<lambda>r. (re_organization r, re_name r)) ` set (db_repos db)"
    using False by (auto simp: list_ex_iff)
  from assms(2) new fresh r u show ?thesis
    by (auto simp: db_inv_def db_wf_def lessThan_Suc)
qed

lemma upsert_repo_inv:
  assumes "upsert_repo gen org name db = Inr (i, db')" and "db_inv gen db"
  shows "db_inv gen db' \<and> (\<exists>r \<in> set (db_repos db'). re_id r = i \<and> re_organization r = org \<and> re_name r = name)
    \<and> db_images db' = db_images db"
proof (cases "find (\<lambda>r. re_organization r = org \<and> re_name r = name) (db_repos db)")
  case (Some r)
  with assms find_some_mem [OF Some] show ?thesis by (auto simp: upsert_repo_def split: option.splits)
next
  case None
  define r where "r = \<lparr>re_id = gen (db_next_id db), re_organization = org, re_name = name, re_user_id = None\<rparr>"
  from assms(1) None have r: "re_id r = gen (db_next_id db)" "re_organization r = org" "re_name r = name"
      "re_user_id r = None" "i = re_id r" "db' = db\<lparr>db_repos := db_repos db @ [r], db_next_id := Suc (db_next_id db)\<rparr>"
    by (auto simp: upsert_repo_def Let_def r_def split: option.splits)
  have fresh: "gen (db_next_id db) \<notin> re_id ` set (db_repos db)"
    using assms(2) by (intro gen_fresh) (auto simp: db_inv_def db_wf_def)
  have new: "(org, name) \<notin> (\<lambda>r. (re_organization r, re_name r)) ` set (db_repos db)"
    using find_none_mem [OF None] by auto
  from assms(2) new fresh r show ?thesis
    by (auto simp: db_inv_def db_wf_def lessThan_Suc)
qed

lemma merge_image_keys [simp]:
  "im_id (merge_image e i) = im_id i" "im_repository_id (merge_image e i) = im_repository_id i" "im_tag (merge_image e i) = im_tag i"
  by (simp_all add: merge_image_def)

lemma upsert_image_inv:
  assumes "upsert_image gen now p db = Inr (x, db')" and "db_inv gen db"
  shows "db_inv gen db' \<and> db_users db' = db_users db \<and> db_repos db' = db_repos db"
proof (cases "list_ex (same_image (excluded_row (gen (db_next_id db)) now p)) (db_images db)")
  case True
  let ?e = "excluded_row (gen (db_next_id db)) now p"
  let ?images = "map (\<lambda>i. if same_image ?e i then merge_image ?e i else i) (db_images db)"
  have keys: "map im_id ?images = map im_id (db_images db)"
      "map (\<lambda>i. (im_repository_id i, im_tag i)) ?images = map (\<lambda>i. (im_repository_id i, im_tag i)) (db_images db)"
    by (rule map_if_key; simp)+
  from assms(1) True have "db' = db\<lparr>db_images := ?images\<rparr>"
    by (auto simp: upsert_image_def Let_def split: option.splits if_splits)
  with db_inv_images [OF assms(2) keys] show ?thesis by simp
next
  case False
  let ?e = "excluded_row (gen (db_next_id db)) now p"
  have db': "db' = db\<lparr>db_images := db_images db @ [?e], db_next_id := Suc (db_next_id db)\<rparr>"
    and "\<exists>r \<in> set (db_repos db). re_id r = ia_repository_id p"
    using assms(1) False by (auto simp: upsert_image_def Let_def list_ex_iff split: option.splits if_splits)
  then have repo: "ia_repository_id p \<in> re_id ` set (db_repos db)" by (metis image_eqI)
  have e: "im_id ?e = gen (db_next_id db)" "im_repository_id ?e = ia_repository_id p" "im_tag ?e = ia_tag p"
    by (simp_all add: excluded_row_def)
  have fresh: "gen (db_next_id db) \<notin> im_id ` set (db_images db)"
    using assms(2) by (intro gen_fresh) (auto simp: db_inv_def db_wf_def)
  have new: "(ia_repository_id p, ia_tag p) \<notin> (\<lambda>i. (im_repository_id i, im_tag i)) ` set (db_images db)"
    using False e by (auto simp: list_ex_iff same_image_def)
  from assms(2) new fresh e repo show ?thesis unfolding db'
    by (auto simp: db_inv_def db_wf_def lessThan_Suc)
qed

lemma image_subset_filter: "f ` set (filter P xs) \<subseteq> f ` set xs"
  by auto

lemma filter_images_inv: "db_inv gen db \<Longrightarrow> db_inv gen (db\<lparr>db_images := filter P (db_images db)\<rparr>)"
  by (auto simp: db_inv_def db_wf_def distinct_map_filter)

lemma delete_image_inv: "db_inv gen db \<Longrightarrow> db_inv gen (delete_image i db)"
  by (simp add: delete_image_def filter_images_inv)

lemma delete_manifest_inv: "db_inv gen db \<Longrightarrow> db_inv gen (delete_manifest org name digest db)"
  by (simp add: delete_manifest_def filter_images_inv)

lemma update_last_pulled_inv: "db_inv gen db \<Longrightarrow> db_inv gen (update_last_pulled now org name tag db)"
proof -
  let ?P = "\<lambda>i. repo_named org name db i \<and> im_tag i = tag
             \<and> (case im_last_pulled_at i of None \<Rightarrow> True | Some t \<Rightarrow> t < now - ONE_HOUR)"
  let ?images = "map (\<lambda>i. if ?P i then i\<lparr>im_last_pulled_at := Some now\<rparr> else i) (db_images db)"
  have keys: "map im_id ?images = map im_id (db_images db)"
      "map (\<lambda>i. (im_repository_id i, im_tag i)) ?images = map (\<lambda>i. (im_repository_id i, im_tag i)) (db_images db)"
    by (rule map_if_key; simp)+
  assume "db_inv gen db"
  from db_inv_images [OF this keys] show ?thesis unfolding update_last_pulled_def .
qed

lemma empty_database_inv: "inj gen \<Longrightarrow> db_inv gen empty_database"
  by (simp add: db_inv_def db_wf_def empty_database_def)

end
