(* ===== verification/ImageList.thy ===== *)
theory ImageList
  imports Database "HOL-Library.Multiset"
begin

text \<open>
  \<open>auth/src/imageList.ts\<close>: the image listing. A query is the data it was built from, its answer a
  window of the joined rows in the order the server chose: \<open>ORDER BY last_pushed_at DESC\<close> says
  nothing about rows pushed at the same instant, so the order is a parameter \<open>plan\<close>, of which only
  \<open>is_plan\<close> is known. \<open>LIMIT\<close> and \<open>OFFSET\<close> are 64-bit integers for Postgres.
\<close>

section \<open>Rows\<close>

record image_list_row =
  il_repository :: string
  il_tag :: string
  il_digest :: "string option"
  il_provenance :: provenance
  il_upstream_ref :: "string option"
  il_cluster_id :: "string option"
  il_source_sandbox_id :: "string option"
  il_retention_mode :: retention_mode
  il_retention_value :: "int option"
  il_raw_suffix :: "string option"
  il_last_pushed_at :: int
  il_last_pulled_at :: "int option"
  il_expires_at :: "int option"

definition add_seconds :: "int \<Rightarrow> int option \<Rightarrow> int option" where
  "add_seconds t s = map_option (\<lambda>n. t + n * 1000000) s"

definition row_expiry :: "image_row \<Rightarrow> int option" where
  "row_expiry i =
     (case im_retention_mode i of
        Ttl \<Rightarrow> im_expires_at i
      | Idle \<Rightarrow> add_seconds (case im_last_pulled_at i of None \<Rightarrow> im_last_pushed_at i | Some t \<Rightarrow> t) (im_retention_value i)
      | KeepLatest \<Rightarrow> None)"

text \<open>\<open>SELECT_PROJECTION\<close>\<close>

definition select_projection :: "image_row \<times> repo_row \<Rightarrow> image_list_row" where
  "select_projection ir =
     (let (i, r) = ir in
      \<lparr>il_repository = re_organization r @ ''/'' @ re_name r, il_tag = im_tag i, il_digest = im_digest i,
       il_provenance = im_provenance i, il_upstream_ref = im_upstream_ref i, il_cluster_id = im_cluster_id i,
       il_source_sandbox_id = im_source_sandbox_id i, il_retention_mode = im_retention_mode i,
       il_retention_value = im_retention_value i, il_raw_suffix = im_raw_suffix i,
       il_last_pushed_at = im_last_pushed_at i, il_last_pulled_at = im_last_pulled_at i, il_expires_at = row_expiry i\<rparr>)"

definition join_repos :: "database \<Rightarrow> (image_row \<times> repo_row) list" where
  "join_repos db =
     concat (map (\<lambda>i. map (\<lambda>r. (i, r)) (filter (\<lambda>r. re_id r = im_repository_id i) (db_repos db))) (db_images db))"

section \<open>Limit and offset\<close>

definition MIN_LIMIT :: int where "MIN_LIMIT = 1"
definition MAX_LIMIT :: int where "MAX_LIMIT = 1000"
definition DEFAULT_LIMIT :: int where "DEFAULT_LIMIT = 100"

definition clamp_limit :: "jsnum \<Rightarrow> int" where
  "clamp_limit raw = (case raw of Fin q \<Rightarrow> max MIN_LIMIT (min MAX_LIMIT \<lfloor>q\<rfloor>) | _ \<Rightarrow> DEFAULT_LIMIT)"

definition clamp_offset :: "jsnum \<Rightarrow> int" where
  "clamp_offset raw = (case raw of Fin q \<Rightarrow> if q < 0 then 0 else \<lfloor>q\<rfloor> | _ \<Rightarrow> 0)"

definition parse_query_number :: "js \<Rightarrow> jsnum" where
  "parse_query_number raw = parse_int (if js_nullish raw then [] else js_String raw)"

definition parse_limit :: "js \<Rightarrow> int" where
  "parse_limit raw =
     (case parse_query_number raw of
        Fin q \<Rightarrow> if q \<le> 0 then DEFAULT_LIMIT else clamp_limit (Fin q)
      | _ \<Rightarrow> DEFAULT_LIMIT)"

definition parse_offset :: "js \<Rightarrow> int" where
  "parse_offset raw =
     (case parse_query_number raw of
        Fin q \<Rightarrow> if q < 0 then 0 else clamp_offset (Fin q)
      | _ \<Rightarrow> 0)"

section \<open>Queries\<close>

datatype list_query = AdminListQuery int int | UserListQuery string int int

definition build_admin_list_query :: "int \<Rightarrow> int \<Rightarrow> list_query" where
  "build_admin_list_query limit offset = AdminListQuery limit offset"

definition build_user_list_query :: "string \<Rightarrow> int \<Rightarrow> int \<Rightarrow> list_query" where
  "build_user_list_query external_id limit offset = UserListQuery external_id limit offset"

type_synonym row_plan = "(image_row \<times> repo_row) list \<Rightarrow> (image_row \<times> repo_row) list"

definition is_plan :: "row_plan \<Rightarrow> bool" where
  "is_plan plan \<longleftrightarrow> (\<forall>rows. mset (plan rows) = mset rows
     \<and> sorted_wrt (\<lambda>a b. im_last_pushed_at (fst a) \<ge> im_last_pushed_at (fst b)) (plan rows))"

definition owned_by :: "database \<Rightarrow> string \<Rightarrow> repo_row \<Rightarrow> bool" where
  "owned_by db external_id r = list_ex (\<lambda>u. re_user_id r = Some (us_id u) \<and> us_external_id u = external_id) (db_users db)"

definition window :: "int \<Rightarrow> int \<Rightarrow> 'r list \<Rightarrow> 'r list" where
  "window limit offset rows = take (nat limit) (drop (nat offset) rows)"

definition run_list_query :: "row_plan \<Rightarrow> db_fault \<Rightarrow> database \<Rightarrow> list_query \<Rightarrow> image_list_row list option" where
  "run_list_query plan fault db q =
     (case q of
        AdminListQuery limit offset \<Rightarrow>
          (if fault \<noteq> NoFault \<or> offset \<ge> 2 ^ 63 then None
           else Some (window limit offset (map select_projection (plan (join_repos db)))))
      | UserListQuery external_id limit offset \<Rightarrow>
          (if fault \<noteq> NoFault \<or> offset \<ge> 2 ^ 63 \<or> CHR 0x00 \<in> set external_id then None
           else Some (window limit offset
             (map select_projection (plan (filter (\<lambda>(i, r). owned_by db external_id r) (join_repos db)))))))"

record image_list_page =
  pg_rows :: "image_list_row list"
  pg_has_more :: bool

definition trim_overflow :: "image_list_row list \<Rightarrow> int \<Rightarrow> image_list_page" where
  "trim_overflow rows limit =
     (if int (length rows) > limit then \<lparr>pg_rows = take (nat limit) rows, pg_has_more = True\<rparr>
      else \<lparr>pg_rows = rows, pg_has_more = False\<rparr>)"

definition list_all_images :: "row_plan \<Rightarrow> db_fault \<Rightarrow> database \<Rightarrow> int \<Rightarrow> int \<Rightarrow> image_list_page option" where
  "list_all_images plan fault db limit offset =
     map_option (\<lambda>rows. trim_overflow rows limit) (run_list_query plan fault db (build_admin_list_query (limit + 1) offset))"

definition list_images_for_external_id ::
  "row_plan \<Rightarrow> db_fault \<Rightarrow> database \<Rightarrow> string \<Rightarrow> int \<Rightarrow> int \<Rightarrow> image_list_page option" where
  "list_images_for_external_id plan fault db external_id limit offset =
     map_option (\<lambda>rows. trim_overflow rows limit)
       (run_list_query plan fault db (build_user_list_query external_id (limit + 1) offset))"

text \<open>\<open>next_offset\<close> of the response, \<open>None\<close> where it is null.\<close>

definition next_offset :: "int \<Rightarrow> image_list_page \<Rightarrow> int option" where
  "next_offset offset page = (if pg_has_more page then Some (offset + int (length (pg_rows page))) else None)"

section \<open>Walking the pages\<close>

text \<open>A client that follows \<open>next_offset\<close>, for at most \<open>fuel\<close> pages.\<close>

fun walk_pages :: "(int \<Rightarrow> int \<Rightarrow> image_list_page option) \<Rightarrow> nat \<Rightarrow> int \<Rightarrow> int \<Rightarrow> image_list_row list option" where
  "walk_pages page 0 limit offset = None"
| "walk_pages page (Suc fuel) limit offset =
     (case page limit offset of
        None \<Rightarrow> None
      | Some p \<Rightarrow>
          (case next_offset offset p of
             None \<Rightarrow> Some (pg_rows p)
           | Some o' \<Rightarrow> map_option (\<lambda>rest. pg_rows p @ rest) (walk_pages page fuel limit o')))"

text \<open>
  The contract of a paged listing: asking for a limit at an offset gives that window of one fixed
  list. A client that follows \<open>next_offset\<close> then sees every row once, in order.
\<close>

locale paged_listing =
  fixes page :: "int \<Rightarrow> int \<Rightarrow> image_list_page option"
    and all_rows :: "image_list_row list"
    and usable :: bool
  assumes page_window: "usable \<Longrightarrow> 1 \<le> limit \<Longrightarrow> 0 \<le> offset \<Longrightarrow> offset < 2 ^ 63 \<Longrightarrow>
    page limit offset = Some (trim_overflow (window (limit + 1) offset all_rows) limit)"
begin

lemma walk_complete:
  "usable \<Longrightarrow> 1 \<le> limit \<Longrightarrow> 0 \<le> offset \<Longrightarrow> int (length all_rows) < 2 ^ 63 \<Longrightarrow> offset \<le> int (length all_rows) \<Longrightarrow>
     fuel > length all_rows - nat offset \<Longrightarrow> walk_pages page fuel limit offset = Some (drop (nat offset) all_rows)"
proof (induction fuel arbitrary: offset)
  case (Suc fuel)
  let ?rest = "drop (nat offset) all_rows" and ?l = "nat limit"
  note u = Suc.prems(1) and l = Suc.prems(2) and o0 = Suc.prems(3)
  have w: "window (limit + 1) offset all_rows = take (Suc ?l) ?rest"
    using l by (simp add: window_def nat_add_distrib)
  have pg: "page limit offset = Some (trim_overflow (take (Suc ?l) ?rest) limit)"
    using page_window [OF u l o0] Suc.prems(4,5) w by simp
  have long: "int (length (take (Suc ?l) ?rest)) > limit \<longleftrightarrow> length ?rest > ?l"
    using l by (cases "length ?rest > ?l") (simp_all del: length_drop)
  show ?case
  proof (cases "length ?rest > ?l")
    case True
    then have p: "trim_overflow (take (Suc ?l) ?rest) limit = \<lparr>pg_rows = take ?l ?rest, pg_has_more = True\<rparr>"
      using long by (simp add: trim_overflow_def min_def)
    have len: "int (length (take ?l ?rest)) = limit" using True l by simp
    let ?o = "offset + limit"
    have o: "0 \<le> ?o" "?o \<le> int (length all_rows)" "fuel > length all_rows - nat ?o" "nat ?o = ?l + nat offset"
      using True Suc.prems by (auto simp: nat_add_distrib)
    have "walk_pages page fuel limit ?o = Some (drop (nat ?o) all_rows)"
      by (rule Suc.IH [OF u l o(1) Suc.prems(4) o(2,3)])
    moreover have "take ?l ?rest @ drop (nat ?o) all_rows = ?rest"
      unfolding o(4) drop_drop [symmetric] by (rule append_take_drop_id)
    ultimately show ?thesis using pg p len by (simp add: next_offset_def)
  next
    case False
    then have "trim_overflow (take (Suc ?l) ?rest) limit = \<lparr>pg_rows = ?rest, pg_has_more = False\<rparr>"
      using long by (simp add: trim_overflow_def)
    then show ?thesis using pg by (simp add: next_offset_def)
  qed
qed simp

end

interpretation admin_listing: paged_listing "list_all_images plan NoFault db" "map select_projection (plan (join_repos db))" True
  for plan db
  by unfold_locales (simp add: list_all_images_def run_list_query_def build_admin_list_query_def)

interpretation user_listing: paged_listing "list_images_for_external_id plan NoFault db external_id"
  "map select_projection (plan (filter (\<lambda>(i, r). owned_by db external_id r) (join_repos db)))"
  "CHR 0x00 \<notin> set external_id"
  for plan db external_id
  by unfold_locales (simp add: list_images_for_external_id_def run_list_query_def build_user_list_query_def)

section \<open>Lemmas\<close>

lemma is_plan_mset: "is_plan plan \<Longrightarrow> mset (plan rows) = mset rows"
  by (simp add: is_plan_def)

lemma is_plan_set: "is_plan plan \<Longrightarrow> set (plan rows) = set rows"
  using is_plan_mset by (metis set_mset_mset)

lemma parse_offset_nat: "n < 2 ^ 53 \<Longrightarrow> parse_offset (JStr (nat_to_string n)) = int n"
  by (simp add: parse_offset_def parse_query_number_def js_nullish_def parse_int_nat_to_string clamp_offset_def)

text \<open>A stable sort by descending time of push is one plan.\<close>

definition stable_plan :: row_plan where
  "stable_plan rows = sort_key (\<lambda>ir. - im_last_pushed_at (fst ir)) rows"

lemma stable_plan_ok: "is_plan stable_plan"
proof -
  have "sorted (map (\<lambda>ir. - im_last_pushed_at (fst ir)) (stable_plan rows))" for rows
    by (simp add: stable_plan_def)
  then show ?thesis
    by (auto simp: is_plan_def stable_plan_def sorted_map elim: sorted_wrt_mono_rel [rotated])
qed

section \<open>Properties\<close>





definition demo_image :: "string \<Rightarrow> string \<Rightarrow> int \<Rightarrow> image_row" where
  "demo_image i tag t =
     \<lparr>im_id = i, im_repository_id = ''r1'', im_tag = tag, im_created_at = Some t, im_last_pushed_at = t,
      im_retention_mode = KeepLatest, im_retention_value = None, im_expires_at = None, im_raw_suffix = None,
      im_digest = Some ''sha256:d'', im_last_pulled_at = None, im_provenance = Pushed, im_upstream_ref = None,
      im_cluster_id = None, im_source_sandbox_id = None\<rparr>"

definition demo_database :: database where
  "demo_database =
     \<lparr>db_users = [\<lparr>us_id = ''u1'', us_external_id = ''42'', us_username = Some ''bob'', us_email = None, us_display_name = None,
                  us_avatar_url = None, us_auth_provider = None, us_profile = JNull\<rparr>],
      db_repos = [\<lparr>re_id = ''r1'', re_organization = ''bob'', re_name = ''app'', re_user_id = Some ''u1''\<rparr>],
      db_images = [demo_image ''i1'' ''a'' 5, demo_image ''i2'' ''b'' 5], db_next_id = 4\<rparr>"


text \<open>
  The order is not total, and paging relies on it: with two images pushed at the same instant, two
  answers of the same database under two admissible orders can both show the same row, so a walk
  in pages of one never sees the other.
\<close>

definition reversed_plan :: row_plan where
  "reversed_plan rows = stable_plan (rev rows)"

lemma reversed_plan_ok: "is_plan reversed_plan"
  using stable_plan_ok by (auto simp: is_plan_def reversed_plan_def)

theorem unordered_pages_can_skip:
  "is_plan stable_plan \<and> is_plan reversed_plan \<and>
   map_option (\<lambda>p. map il_tag (pg_rows p)) (list_all_images stable_plan NoFault demo_database 1 0) = Some [''a''] \<and>
   map_option (\<lambda>p. map il_tag (pg_rows p)) (list_all_images reversed_plan NoFault demo_database 1 1) = Some [''a'']"
  using stable_plan_ok reversed_plan_ok
  by (simp add: list_all_images_def run_list_query_def build_admin_list_query_def window_def trim_overflow_def
      reversed_plan_def stable_plan_def demo_database_def join_repos_def demo_image_def select_projection_def row_expiry_def
      numeral_2_eq_2)

end
