(* ===== verification/KeyId.thy ===== *)
theory KeyId
  imports Js_Value "HOL-Library.Word"
begin

unbundle bit_operations_syntax

text \<open>
  The libtrust key id, \<open>computeLibtrustKeyId\<close> of \<open>auth/src/serverHelpers.ts\<close>: the first 30 bytes
  of the SHA-256 of the public key's DER encoding, in base32, in groups of four characters. The
  accumulator is a JavaScript number under bit operators, that is a 32-bit word that overflows
  from the fifth byte on; the text must not depend on the bits that fall off. The key conversion
  and the hash belong to Node's crypto library: the hash's bytes are the argument here.
\<close>

definition base32chars :: string where
  "base32chars = ''ABCDEFGHIJKLMNOPQRSTUVWXYZ234567''"

definition base32_at :: "32 word \<Rightarrow> char" where
  "base32_at w = base32chars ! unat (w AND 31)"

text \<open>The inner \<open>while (bits >= 5)\<close>: the characters it appends and the bits that remain.\<close>

function emit_groups :: "32 word \<Rightarrow> nat \<Rightarrow> string \<times> nat" where
  "emit_groups value bits =
     (if bits < 5 then ([], bits)
      else (let (s, b) = emit_groups value (bits - 5) in
            (base32_at (drop_bit (bits - 5) value) # s, b)))"
  by pat_completeness auto
termination
  by (relation "measure snd") auto

declare emit_groups.simps [simp del]

text \<open>The outer loop over the hash bytes, then the left-over bits.\<close>

fun base32_loop :: "32 word \<Rightarrow> nat \<Rightarrow> 8 word list \<Rightarrow> string" where
  "base32_loop value bits [] = (if bits > 0 then [base32_at (push_bit (5 - bits) value)] else [])"
| "base32_loop value bits (b # bs) =
     (let value' = push_bit 8 value OR ucast b; (s, bits') = emit_groups value' (bits + 8) in
      s @ base32_loop value' bits' bs)"

text \<open>\<open>result.match(/.{1,4}/g)\<close>\<close>

fun groups_of_4 :: "string \<Rightarrow> string list" where
  "groups_of_4 [] = []"
| "groups_of_4 (a # b # c # d # r) = [a, b, c, d] # groups_of_4 r"
| "groups_of_4 s = [s]"

definition compute_libtrust_key_id :: "8 word list \<Rightarrow> string" where
  "compute_libtrust_key_id hash = join_with '':'' (groups_of_4 (base32_loop 0 0 (take 30 hash)))"

section \<open>The reference: base32 of an unbounded integer\<close>

text \<open>The bits of the bytes as one big-endian number of \<open>n\<close> bits, five at a time from the top.\<close>

definition bytes_val :: "8 word list \<Rightarrow> nat" where
  "bytes_val bs = fold (\<lambda>b v. v * 256 + unat b) bs 0"

fun base32_ref :: "nat \<Rightarrow> nat \<Rightarrow> string" where
  "base32_ref v n =
     (if n = 0 then []
      else if n < 5 then [base32chars ! (v * 2 ^ (5 - n) mod 32)]
      else base32chars ! (v div 2 ^ (n - 5) mod 32) # base32_ref v (n - 5))"

declare base32_ref.simps [simp del]

lemma base32_at_nat: "base32_at w = base32chars ! (unat w mod 32)"
proof -
  have "w AND 31 = take_bit 5 w" by (simp add: take_bit_eq_mask mask_numeral)
  then have "unat (w AND 31) = unat w mod 32"
    by (simp add: unsigned_take_bit_eq) (simp add: take_bit_eq_mod)
  then show ?thesis by (simp add: base32_at_def)
qed

lemma base32_ref_mod: "base32_ref (v mod 2 ^ n) n = base32_ref v n"
proof -
  have aux: "base32_ref (v mod 2 ^ m) n = base32_ref v n" if "n \<le> m" for m
    using that
  proof (induction v n rule: base32_ref.induct)
    case (1 v n)
    consider "n = 0" | "0 < n" "n < 5" | "5 \<le> n" by linarith
    then show ?case
    proof cases
      case 2
      have "(v mod 2 ^ m * 2 ^ (5 - n)) mod 2 ^ 5 = (v * 2 ^ (5 - n)) mod (2 ^ 5 :: nat)"
      proof -
        have "(5 :: nat) = n + (5 - n)" using 2 by simp
        then have p: "(2 :: nat) ^ 5 = 2 ^ n * 2 ^ (5 - n)" by (metis power_add)
        have "(v mod 2 ^ m) mod 2 ^ n = v mod (2 ^ n :: nat)"
          using "1.prems" by (simp add: mod_mod_cancel le_imp_power_dvd)
        then show ?thesis unfolding p by (simp flip: mult_mod_left)
      qed
      with 2 show ?thesis by (simp add: base32_ref.simps)
    next
      case 3
      have "min 5 (m - (n - 5)) = 5" using 3 "1.prems" by simp
      then have "take_bit 5 (drop_bit (n - 5) (take_bit m v)) = take_bit 5 (drop_bit (n - 5) v)"
        by (simp add: drop_bit_take_bit)
      then have "v mod 2 ^ m div 2 ^ (n - 5) mod 2 ^ 5 = v div 2 ^ (n - 5) mod (2 ^ 5 :: nat)"
        by (simp only: take_bit_eq_mod drop_bit_eq_div)
      with 3 1 show ?thesis by (simp add: base32_ref.simps [of _ n])
    qed (simp add: base32_ref.simps)
  qed
  then show ?thesis by simp
qed

lemma pow256: "(256 :: nat) ^ l = 2 ^ (8 * l)"
  by (simp add: power_mult)

lemma bytes_val_aux: "fold (\<lambda>b v. v * 256 + unat b) bs v = v * 256 ^ length bs + bytes_val bs"
proof -
  have "fold (\<lambda>b v. v * 256 + unat b) bs (v + w) = v * 256 ^ length bs + fold (\<lambda>b v. v * 256 + unat b) bs w"
    for v w
  proof (induction bs arbitrary: v w)
    case (Cons b bs)
    have "fold (\<lambda>b v. v * 256 + unat b) (b # bs) (v + w)
        = fold (\<lambda>b v. v * 256 + unat b) bs (v * 256 + (w * 256 + unat b))" by (simp add: algebra_simps)
    also have "\<dots> = v * 256 * 256 ^ length bs + fold (\<lambda>b v. v * 256 + unat b) bs (w * 256 + unat b)"
      by (rule Cons.IH)
    finally show ?case by simp
  qed simp
  from this [of v 0] show ?thesis by (simp add: bytes_val_def)
qed

lemma bytes_val_Cons: "bytes_val (b # bs) = unat b * 256 ^ length bs + bytes_val bs"
  using bytes_val_aux [of bs "unat b"] by (simp add: bytes_val_def)

lemma bytes_val_less: "bytes_val bs < 256 ^ length bs"
proof (induction bs)
  case (Cons b bs)
  have "Suc (unat b) * 256 ^ length bs \<le> 256 * 256 ^ length bs"
    using unsigned_less [of b, where 'a = nat] by (intro mult_le_mono1) simp
  then have "unat b * 256 ^ length bs + 256 ^ length bs \<le> 256 * 256 ^ length bs" by simp
  with Cons have "unat b * 256 ^ length bs + bytes_val bs < 256 * 256 ^ length bs" by linarith
  then show ?case by (simp add: bytes_val_Cons)
qed (simp add: bytes_val_def)

lemma emit_groups_ref:
  assumes "r < 256 ^ l"
  shows "fst (emit_groups w n) @ base32_ref (unat w * 256 ^ l + r) (snd (emit_groups w n) + 8 * l)
      = base32_ref (unat w * 256 ^ l + r) (n + 8 * l) \<and> snd (emit_groups w n) < 5"
proof (induction w n rule: emit_groups.induct)
  case (1 w n)
  show ?case
  proof (cases "n < 5")
    case True
    then show ?thesis by (simp add: emit_groups.simps)
  next
    case False
    let ?V = "unat w * 256 ^ l + r"
    have "?V div 2 ^ (n - 5 + 8 * l) = ?V div 256 ^ l div 2 ^ (n - 5)"
      by (simp add: pow256 div_mult2_eq power_add add.commute [of "n - 5"])
    also have "?V div 256 ^ l = unat w" using assms by simp
    also have "unat w div 2 ^ (n - 5) = unat (drop_bit (n - 5) w)"
      by (simp only: unat_drop_bit_eq) (simp only: drop_bit_eq_div)
    finally have "?V div 2 ^ (n + 8 * l - 5) mod 32 = unat (drop_bit (n - 5) w) mod 32"
      using False by simp
    with False "1.IH" show ?thesis
      by (simp add: emit_groups.simps [of w n] base32_ref.simps [of _ "n + 8 * l"] base32_at_nat
          case_prod_beta' Let_def)
  qed
qed

lemma unat_shift_in: "unat (push_bit 8 w OR ucast (b :: 8 word) :: 32 word) = (unat w * 256 + unat b) mod 2 ^ 32"
proof -
  have "push_bit 8 w AND (ucast b :: 32 word) = 0"
    by (rule bit_eqI) (auto simp: bit_simps dest: bit_imp_le_length)
  then have "push_bit 8 w OR (ucast b :: 32 word) = push_bit 8 w + ucast b"
    by (simp add: disjunctive_add_eq_or)
  then have "push_bit 8 w OR (ucast b :: 32 word) = of_nat (unat w * 256 + unat b)"
    by (simp add: push_bit_eq_mult)
  then show ?thesis by (simp only: unat_of_nat) simp
qed

text \<open>Reducing the accumulator to 32 bits changes none of the low \<open>n\<close> bits of the whole.\<close>

lemma overflow_irrelevant:
  fixes x r :: nat
  assumes "n \<le> 32 + 8 * l"
  shows "(x mod 2 ^ 32 * 256 ^ l + r) mod 2 ^ n = (x * 256 ^ l + r) mod 2 ^ n"
proof (rule mod_add_cong [OF _ refl])
  have dv: "(2 :: nat) ^ n dvd 2 ^ (32 + 8 * l)" using assms by (rule le_imp_power_dvd)
  have "x mod 2 ^ 32 * 256 ^ l = x * 256 ^ l mod (2 ^ 32 * 256 ^ l)"
    by (rule mult_mod_left)
  also have "(2 ^ 32 * 256 ^ l :: nat) = 2 ^ (32 + 8 * l)" by (simp only: pow256 power_add)
  finally show "x mod 2 ^ 32 * 256 ^ l mod 2 ^ n = x * 256 ^ l mod 2 ^ n"
    by (simp only: mod_mod_cancel [OF dv])
qed

lemma base32_loop_ref:
  "n < 5 \<Longrightarrow> base32_loop w n bs = base32_ref (unat w * 256 ^ length bs + bytes_val bs) (n + 8 * length bs)"
proof (induction bs arbitrary: w n)
  case Nil
  have "unat (push_bit k w) mod 32 = unat w * 2 ^ k mod 32" for k
  proof -
    have "unat (push_bit k w) = unat w * 2 ^ k mod 2 ^ 32"
      by (simp only: unsigned_push_bit_eq) (simp add: push_bit_eq_mult take_bit_eq_mod)
    then show ?thesis by (simp add: mod_mod_cancel)
  qed
  with Nil show ?case
    by (simp add: base32_ref.simps base32_at_nat bytes_val_def)
next
  case (Cons b bs)
  let ?l = "length bs"
  let ?w = "push_bit 8 w OR ucast b :: 32 word"
  let ?N = "n + 8 + 8 * ?l"
  note e = emit_groups_ref [OF bytes_val_less [of bs], of ?w "n + 8"]
  have loop: "base32_loop w n (b # bs) =
      fst (emit_groups ?w (n + 8)) @ base32_loop ?w (snd (emit_groups ?w (n + 8))) bs"
    by (simp add: Let_def case_prod_beta')
  also have "\<dots> = base32_ref (unat ?w * 256 ^ ?l + bytes_val bs) ?N"
    using Cons.IH [of "snd (emit_groups ?w (n + 8))" ?w] e by simp
  also have "\<dots> = base32_ref ((unat ?w * 256 ^ ?l + bytes_val bs) mod 2 ^ ?N) ?N"
    by (simp only: base32_ref_mod)
  also have "(unat ?w * 256 ^ ?l + bytes_val bs) mod 2 ^ ?N
      = ((unat w * 256 + unat b) * 256 ^ ?l + bytes_val bs) mod 2 ^ ?N"
    unfolding unat_shift_in using Cons.prems by (intro overflow_irrelevant) simp
  also have "(unat w * 256 + unat b) * 256 ^ ?l + bytes_val bs
      = unat w * 256 ^ length (b # bs) + bytes_val (b # bs)"
    by (simp add: bytes_val_Cons add_mult_distrib)
  also have "?N = n + 8 * length (b # bs)" by simp
  finally show ?case by (simp only: base32_ref_mod)
qed

lemma length_base32_ref: "length (base32_ref v n) = (n + 4) div 5"
proof (induction v n rule: base32_ref.induct)
  case (1 v n)
  consider "n = 0" | "0 < n" "n < 5" | "5 \<le> n" by linarith
  then show ?case
  proof cases
    case 3
    then obtain k where "n = 5 + k" by (auto simp: le_iff_add)
    with 3 1 show ?thesis by (subst base32_ref.simps) simp
  qed (simp_all add: base32_ref.simps)
qed

lemma groups_of_4_join: "concat (groups_of_4 s) = s"
  by (induction s rule: groups_of_4.induct) auto

lemma length_groups_of_4: "length (groups_of_4 s) = (length s + 3) div 4"
  by (induction s rule: groups_of_4.induct) auto

lemma length_join_with:
  "length (join_with sep ws) = length (concat ws) + (length ws - 1) * length sep"
  by (induction sep ws rule: join_with.induct) auto

section \<open>Properties\<close>

text \<open>
  C27. The key id computed with the overflowing 32-bit accumulator is the base32 text of the
  first 30 hash bytes read as one unbounded number: no character depends on the lost bits. For a
  SHA-256 hash it is 59 characters long (12 groups of four).
\<close>

theorem libtrust_key_id_base32:
  "compute_libtrust_key_id hash =
     join_with '':'' (groups_of_4 (base32_ref (bytes_val (take 30 hash)) (8 * length (take 30 hash)))) \<and>
   (length hash \<noteq> 32 \<or> length (compute_libtrust_key_id hash) = 59)"
proof -
  have eq: "base32_loop 0 0 (take 30 hash) = base32_ref (bytes_val (take 30 hash)) (8 * length (take 30 hash))"
    using base32_loop_ref [of 0 0 "take 30 hash"] by simp
  then have "length (compute_libtrust_key_id hash) = 59" if "length hash = 32"
    using that
    by (simp add: compute_libtrust_key_id_def length_join_with groups_of_4_join length_groups_of_4
        length_base32_ref)
  with eq show ?thesis by (auto simp: compute_libtrust_key_id_def)
qed

theorem libtrust_key_id_base32_witness:
  "length (compute_libtrust_key_id (replicate 32 255)) = 59"
  using conjunct2 [OF libtrust_key_id_base32 [of "replicate 32 255"]] by simp

end
