(* ===== verification/CreateApp.thy ===== *)
theory CreateApp
  imports ServerHelpers ImageList KeyId
begin

text \<open>
  \<open>auth/src/createApp.ts\<close>: the token endpoint \<open>/v2/token\<close> and the listing endpoint \<open>/v1/images\<close>.
  Express hands the handlers a parsed query and a header; \<open>jsonwebtoken\<close> is a function
  \<open>ap_sign key kid payload\<close> and Node's key parsing and hashing a function from the PEM text to the
  digest the key id is computed from; \<open>None\<close> is their exception. Database sessions are an oracle
  (\<open>ap_session\<close>, indexed by the number of sessions so far).
\<close>

section \<open>State, services and configuration\<close>

record auth_world = cached_world +
  aw_db :: database
  aw_sessions :: nat

record app_services = auth_services +
  ap_env :: env
  ap_gen :: "nat \<Rightarrow> string"
  ap_session :: "nat \<Rightarrow> session"
  ap_plan :: "nat \<Rightarrow> row_plan"
  ap_key_digest :: "string \<Rightarrow> 8 word list option"
  ap_sign :: "string \<Rightarrow> string \<Rightarrow> js \<Rightarrow> string option"

record auth_service_config =
  ac_validation_service_url :: "string option"
  ac_auth_pat_token :: "string option"
  ac_auth_pat_tokens :: "string option"
  ac_auth_cluster_pat_tokens :: "string option"
  ac_jwt_private_key :: "string option"
  ac_issuer :: "string option"
  ac_default_registry_service :: "string option"
  ac_upstream_auth_wrap_keys :: "string option"

definition config_from_env :: "env \<Rightarrow> auth_service_config" where
  "config_from_env env =
     \<lparr>ac_validation_service_url = env ''VALIDATION_SERVICE_URL'', ac_auth_pat_token = env ''AUTH_PAT_TOKEN'',
      ac_auth_pat_tokens = env ''AUTH_PAT_TOKENS'', ac_auth_cluster_pat_tokens = env ''AUTH_CLUSTER_PAT_TOKENS'',
      ac_jwt_private_key = env ''JWT_PRIVATE_KEY'', ac_issuer = env ''AUTH_ISSUER'',
      ac_default_registry_service = env ''REGISTRY_SERVICE'', ac_upstream_auth_wrap_keys = env ''UPSTREAM_AUTH_WRAP_KEYS''\<rparr>"

definition build_validation_context :: "'a services_scheme \<Rightarrow> auth_service_config \<Rightarrow> 'w cached_world_scheme
     \<Rightarrow> auth_validation_context \<times> 'w cached_world_scheme" where
  "build_validation_context sv config w =
     (let static = build_static_pat_config (ac_auth_pat_token config) (ac_auth_pat_tokens config);
          cluster = build_cluster_pat_config (ac_auth_cluster_pat_tokens config);
          w1 = set_configured_pat_count sv (case static of None \<Rightarrow> 0 | Some c \<Rightarrow> length (sp_tokens c)) w;
          w2 = set_configured_cluster_pat_count sv (case cluster of None \<Rightarrow> 0 | Some es \<Rightarrow> length es) w1
      in (\<lparr>vc_static = static, vc_cluster = cluster, vc_url = ac_validation_service_url config,
           vc_key_ring = parse_wrap_key_ring (ac_upstream_auth_wrap_keys config)\<rparr>,
          w2\<lparr>cw_cache := new_proof_cache None None\<rparr>))"

text \<open>\<open>replace(/\\n/g, '\n')\<close>: a backslash followed by \<open>n\<close> becomes a line feed.\<close>

fun unescape_newlines :: "string \<Rightarrow> string" where
  "unescape_newlines (c # d # s) =
     (if char_code c = 92 \<and> d = CHR ''n'' then CHR 0x0A # unescape_newlines s else c # unescape_newlines (d # s))"
| "unescape_newlines s = s"

record auth_app =
  aa_context :: auth_validation_context
  aa_jwt_private_key :: "string option"
  aa_issuer :: string
  aa_default_service :: string

definition create_app :: "'a services_scheme \<Rightarrow> auth_service_config \<Rightarrow> 'w cached_world_scheme
     \<Rightarrow> auth_app \<times> 'w cached_world_scheme" where
  "create_app sv config w =
     (let (ctx, w1) = build_validation_context sv config w in
      (\<lparr>aa_context = ctx, aa_jwt_private_key = map_option unescape_newlines (ac_jwt_private_key config),
        aa_issuer = or_else (ac_issuer config) ''aocr-auth'',
        aa_default_service = or_else (ac_default_registry_service config) ''aocr''\<rparr>, w1))"

section \<open>Responses\<close>

record response =
  rp_status :: int
  rp_body :: js

definition error_response :: "int \<Rightarrow> string \<Rightarrow> response" where
  "error_response status message = \<lparr>rp_status = status, rp_body = JObj [(''error'', JStr message)]\<rparr>"

definition js_opt :: "string option \<Rightarrow> js" where
  "js_opt v = (case v of None \<Rightarrow> JNull | Some s \<Rightarrow> JStr s)"

definition js_int :: "int \<Rightarrow> js" where
  "js_int n = JNum (Fin (of_int n))"

text \<open>\<open>Date.prototype.toISOString\<close>, by the civil calendar from the day number.\<close>

definition pad_left :: "nat \<Rightarrow> int \<Rightarrow> string" where
  "pad_left n v = (let s = nat_to_string (nat v) in replicate (n - length s) CHR ''0'' @ s)"

definition civil_of_days :: "int \<Rightarrow> int \<times> int \<times> int" where
  "civil_of_days days =
     (let z = days + 719468; era = z div 146097; doe = z mod 146097;
          yoe = (doe - doe div 1460 + doe div 36524 - doe div 146096) div 365;
          doy = doe - (365 * yoe + yoe div 4 - yoe div 100);
          mp = (5 * doy + 2) div 153;
          m = (if mp < 10 then mp + 3 else mp - 9)
      in (yoe + era * 400 + (if m \<le> 2 then 1 else 0), m, doy - (153 * mp + 2) div 5 + 1))"

definition to_iso_string :: "int \<Rightarrow> string" where
  "to_iso_string ms =
     (let (y, m, d) = civil_of_days (ms div 86400000); t = ms mod 86400000 in
      (if 0 \<le> y \<and> y \<le> 9999 then pad_left 4 y else (if y < 0 then ''-'' else ''+'') @ pad_left 6 \<bar>y\<bar>)
      @ ''-'' @ pad_left 2 m @ ''-'' @ pad_left 2 d @ ''T'' @ pad_left 2 (t div 3600000) @ '':''
      @ pad_left 2 (t div 60000 mod 60) @ '':'' @ pad_left 2 (t div 1000 mod 60) @ ''.'' @ pad_left 3 (t mod 1000) @ ''Z'')"

section \<open>The token endpoint\<close>

record token_query =
  tq_account :: js
  tq_service :: js
  tq_scope :: js
  tq_authorization :: "string option"

text \<open>The repositories the sync claims for the user: the first two segments of each repository scope.\<close>

fun sync_repos :: "(nat \<Rightarrow> string) \<Rightarrow> string \<Rightarrow> requested_scope list \<Rightarrow> database \<Rightarrow> sql_error + unit \<times> database" where
  "sync_repos gen user_id [] db = Inr ((), db)"
| "sync_repos gen user_id (sc # scs) db =
     (if sc_type sc \<noteq> ''repository'' then sync_repos gen user_id scs db
      else
        (case split_on (\<lambda>c. c = CHR ''/'') (sc_name sc) of
           org # repo # _ \<Rightarrow>
             (if org \<noteq> [] \<and> repo \<noteq> [] then
                (case upsert_repo_owner gen org repo user_id db of
                   Inl e \<Rightarrow> Inl e | Inr (_, db') \<Rightarrow> sync_repos gen user_id scs db')
              else sync_repos gen user_id scs db)
         | _ \<Rightarrow> sync_repos gen user_id scs db))"

definition user_params_of :: "validation_user_profile \<Rightarrow> user_params" where
  "user_params_of p =
     \<lparr>up_external_id = vp_external_id p, up_username = vp_username p, up_email = vp_email p,
      up_display_name = vp_display_name p, up_avatar_url = vp_avatar_url p, up_auth_provider = vp_auth_provider p,
      up_profile = vp_raw p\<rparr>"

definition sync_body ::
  "(nat \<Rightarrow> string) \<Rightarrow> validation_user_profile \<Rightarrow> requested_scope list \<Rightarrow> database \<Rightarrow> sql_error + unit \<times> database" where
  "sync_body gen profile scopes db =
     (case upsert_user gen (user_params_of profile) db of
        Inl e \<Rightarrow> Inl e
      | Inr (user_id, db') \<Rightarrow> sync_repos gen user_id scopes db')"

text \<open>The sync: false where it throws into the handler's \<open>catch\<close>.\<close>

definition sync_database :: "'a app_services_scheme \<Rightarrow> validation_user_profile \<Rightarrow> requested_scope list \<Rightarrow> 'w auth_world_scheme
     \<Rightarrow> bool \<times> 'w auth_world_scheme" where
  "sync_database sv profile scopes w =
     (let (started_at, w1) = read_hrtime sv w; w2 = w1\<lparr>aw_sessions := Suc (aw_sessions w1)\<rparr> in
      case ap_session sv (aw_sessions w1) of
        ConnectFails \<Rightarrow> (False, w2)
      | Connected fault \<Rightarrow>
          (let (outcome, db) = run_transaction fault (sync_body (ap_gen sv) profile scopes) (aw_db w2); w3 = w2\<lparr>aw_db := db\<rparr> in
           case outcome of
             TxDone _ \<Rightarrow>
               (let (duration, w4) = elapsed_seconds_since sv started_at w3 in (True, record_database_sync sv ''success'' duration w4))
           | TxRolledBack \<Rightarrow>
               (let (duration, w4) = elapsed_seconds_since sv started_at w3 in (True, record_database_sync sv ''error'' duration w4))
           | TxRollbackThrows \<Rightarrow> (False, w3)))"

text \<open>What one requested resource is granted under a validated token.\<close>

definition decide_scope :: "env \<Rightarrow> validation_result \<Rightarrow> requested_scope \<Rightarrow> scope_decision" where
  "decide_scope env r sc =
     (if vr_strategy r = ClusterPatStrategy then
        (if \<not> truthy (vr_cluster_id r) then reject ''cluster PAT missing cluster_id''
         else evaluate_cluster_pat_scope env (the (vr_cluster_id r)) (sc_type sc) (sc_name sc) (sc_actions sc))
      else allow (sc_actions sc))"

definition scope_js :: "requested_scope \<Rightarrow> js" where
  "scope_js sc = JObj [(''type'', JStr (sc_type sc)), (''name'', JStr (sc_name sc)), (''actions'', JArr (map JStr (sc_actions sc)))]"

definition token_ttl :: "validation_strategy \<Rightarrow> int" where
  "token_ttl s = (if s = WrappedUpstream then WRAPPED_UPSTREAM_TOKEN_TTL_SECONDS else 3600)"

definition token_payload ::
  "auth_app \<Rightarrow> validation_result \<Rightarrow> js \<Rightarrow> requested_scope list \<Rightarrow> int \<Rightarrow> int \<Rightarrow> js" where
  "token_payload app r service access iat_ms exp_ms =
     (let p = vr_profile r in
      JObj [(''iss'', JStr (aa_issuer app)), (''sub'', JStr (vp_external_id p)),
            (''aud'', case service of JStr s \<Rightarrow> if s \<noteq> [] then JStr s else JStr (aa_default_service app)
                      | _ \<Rightarrow> JStr (aa_default_service app)),
            (''iat'', js_int (iat_ms div 1000)), (''exp'', js_int (exp_ms div 1000 + token_ttl (vr_strategy r))),
            (''access'', JArr (map scope_js access)),
            (''context'', JObj [(''external_id'', JStr (vp_external_id p)), (''username'', js_opt (vp_username p)),
               (''email'', js_opt (vp_email p)), (''display_name'', js_opt (vp_display_name p)),
               (''avatar_url'', js_opt (vp_avatar_url p)), (''auth_provider'', js_opt (vp_auth_provider p))])])"

text \<open>The handler's \<open>catch\<close>.\<close>

definition token_failed :: "'a services_scheme \<Rightarrow> string \<Rightarrow> 'w world_scheme \<Rightarrow> response \<times> 'w world_scheme" where
  "token_failed sv strategy w = (error_response 401 ''Invalid token'', record_token_issuance sv strategy ''error'' w)"

definition issue_token ::
  "'a app_services_scheme \<Rightarrow> auth_app \<Rightarrow> token_query \<Rightarrow> validation_result \<Rightarrow> requested_scope list \<Rightarrow> 'w world_scheme
     \<Rightarrow> response \<times> 'w world_scheme" where
  "issue_token sv app q r access w =
     (let strategy = strategy_text (vr_strategy r);
          (iat_ms, w1) = read_date sv w; (exp_ms, w2) = read_date sv w1;
          payload = token_payload app r (tq_service q) access iat_ms exp_ms in
      if \<not> truthy (aa_jwt_private_key app) then token_failed sv strategy w2
      else
        (let key = the (aa_jwt_private_key app) in
         case ap_key_digest sv key of
           None \<Rightarrow> token_failed sv strategy w2
         | Some digest \<Rightarrow>
             (case ap_sign sv key (compute_libtrust_key_id digest) payload of
                None \<Rightarrow> token_failed sv strategy w2
              | Some jwt \<Rightarrow>
                  (let (issued_ms, w3) = read_date sv w2 in
                   (\<lparr>rp_status = 200,
                     rp_body = JObj [(''token'', JStr jwt), (''expires_in'', js_int (token_ttl (vr_strategy r))),
                                     (''issued_at'', JStr (to_iso_string issued_ms))]\<rparr>,
                    record_token_issuance sv strategy ''success'' w3)))))"

definition grant_and_issue ::
  "'a app_services_scheme \<Rightarrow> auth_app \<Rightarrow> token_query \<Rightarrow> validation_result \<Rightarrow> requested_scope list \<Rightarrow> 'w world_scheme
     \<Rightarrow> response \<times> 'w world_scheme" where
  "grant_and_issue sv app q r scopes w =
     (case grant_access (decide_scope (ap_env sv) r) scopes of
        Inl d \<Rightarrow>
          (if \<not> truthy (vr_cluster_id r) then
             (error_response 401 ''cluster PAT missing cluster_id'', record_token_issuance sv ''cluster-pat'' ''error'' w)
           else
             (error_response 401 (or_else (sd_reason d) ''cluster PAT scope rejected''),
              record_token_issuance sv ''cluster-pat'' ''forbidden'' w))
      | Inr access \<Rightarrow> issue_token sv app q r access w)"

definition handle_token ::
  "'a app_services_scheme \<Rightarrow> auth_app \<Rightarrow> token_query \<Rightarrow> 'w auth_world_scheme \<Rightarrow> response \<times> 'w auth_world_scheme" where
  "handle_token sv app q w =
     (let scopes = parse_requested_scopes (tq_scope q) in
      if length scopes > MAX_REQUESTED_SCOPES then
        (error_response 400 (''too many scopes (max '' @ nat_to_string MAX_REQUESTED_SCOPES @ '')''),
         record_token_issuance sv ''unknown'' ''error'' w)
      else
        (case extract_presented_credentials (tq_authorization q) of
           Inl _ \<Rightarrow> token_failed sv ''unknown'' w
         | Inr cred \<Rightarrow>
             (let (validated, w1) = validate_presented_token sv (aa_context app) (pc_token cred) (tq_scope q) w in
              case validated of
                Inl _ \<Rightarrow> token_failed sv ''unknown'' w1
              | Inr r \<Rightarrow>
                  (if vr_strategy r = Api then
                     (if \<not> presented_identity_matches_user (pc_identity cred) (tq_account q) (vr_profile r) then
                        (error_response 401 ''Presented registry identity does not match validated user'', w1)
                      else
                        (let (synced, w2) = sync_database sv (vr_profile r) scopes w1 in
                         if \<not> synced then token_failed sv (strategy_text Api) w2
                         else grant_and_issue sv app q r scopes w2))
                   else grant_and_issue sv app q r scopes w1))))"

section \<open>The listing endpoint\<close>

record images_query =
  iq_limit :: js
  iq_offset :: js
  iq_authorization :: "string option"

definition js_time :: "int \<Rightarrow> js" where
  "js_time us = JStr (to_iso_string (us div 1000))"

definition js_opt_with :: "('a \<Rightarrow> js) \<Rightarrow> 'a option \<Rightarrow> js" where
  "js_opt_with f v = (case v of None \<Rightarrow> JNull | Some x \<Rightarrow> f x)"

definition row_js :: "image_list_row \<Rightarrow> js" where
  "row_js r =
     JObj [(''repository'', JStr (il_repository r)), (''tag'', JStr (il_tag r)), (''manifest_digest'', js_opt (il_digest r)),
           (''provenance'', JStr (provenance_text (il_provenance r))), (''upstream_ref'', js_opt (il_upstream_ref r)),
           (''cluster_id'', js_opt (il_cluster_id r)), (''source_sandbox_id'', js_opt (il_source_sandbox_id r)),
           (''retention_mode'', JStr (mode_text (il_retention_mode r))),
           (''retention_value_seconds'', js_opt_with js_int (il_retention_value r)),
           (''raw_retention_suffix'', js_opt (il_raw_suffix r)), (''last_pushed_at'', js_time (il_last_pushed_at r)),
           (''last_pulled_at'', js_opt_with js_time (il_last_pulled_at r)), (''expires_at'', js_opt_with js_time (il_expires_at r))]"

definition images_body :: "bool \<Rightarrow> validation_user_profile \<Rightarrow> int \<Rightarrow> int \<Rightarrow> image_list_page \<Rightarrow> js" where
  "images_body admin p limit offset page =
     JObj [(''scope'', JStr (if admin then ''admin'' else ''user'')),
           (''user'', if admin then JNull
                      else JObj [(''external_id'', JStr (vp_external_id p)), (''username'', js_opt (vp_username p)),
                                 (''email'', js_opt (vp_email p))]),
           (''limit'', js_int limit), (''offset'', js_int offset), (''count'', js_int (int (length (pg_rows page)))),
           (''has_more'', JBool (pg_has_more page)), (''next_offset'', js_opt_with js_int (next_offset offset page)),
           (''images'', JArr (map row_js (pg_rows page)))]"

definition handle_images ::
  "'a app_services_scheme \<Rightarrow> auth_app \<Rightarrow> images_query \<Rightarrow> 'w auth_world_scheme \<Rightarrow> response \<times> 'w auth_world_scheme" where
  "handle_images sv app q w =
     (case extract_presented_credentials (iq_authorization q) of
        Inl _ \<Rightarrow> (error_response 401 ''invalid_token'', w)
      | Inr cred \<Rightarrow>
          (let (validated, w1) = validate_presented_token sv (aa_context app) (pc_token cred) JNull w in
           case validated of
             Inl _ \<Rightarrow> (error_response 401 ''invalid_token'', w1)
           | Inr r \<Rightarrow>
               (if vr_strategy r = ClusterPatStrategy \<or> vr_strategy r = WrappedUpstream then
                  (error_response 403 ''unsupported_scope'', w1)
                else
                  (let limit = parse_limit (iq_limit q); offset = parse_offset (iq_offset q);
                       admin = (vr_strategy r = Pat); n = aw_sessions w1; w2 = w1\<lparr>aw_sessions := Suc n\<rparr>;
                       page = (case ap_session sv n of
                                 ConnectFails \<Rightarrow> None
                               | Connected fault \<Rightarrow>
                                   (if admin then list_all_images (ap_plan sv n) fault (aw_db w2) limit offset
                                    else list_images_for_external_id (ap_plan sv n) fault (aw_db w2)
                                           (vp_external_id (vr_profile r)) limit offset))
                   in case page of
                        None \<Rightarrow> (error_response 500 ''db_error'', w2)
                      | Some p \<Rightarrow> (\<lparr>rp_status = 200, rp_body = images_body admin (vr_profile r) limit offset p\<rparr>, w2)))))"


section \<open>What the parts leave alone\<close>

lemma more_cached:
  "world.more v = world.more w \<Longrightarrow> cached_world.more v = cached_world.more w \<and> cw_cache v = cw_cache w"
  for v w :: "'w cached_world_scheme"
  by (cases v, cases w) simp

lemma more_auth:
  "cached_world.more v = cached_world.more w \<Longrightarrow> aw_db v = aw_db w \<and> aw_sessions v = aw_sessions w"
  for v w :: "'w auth_world_scheme"
  by (cases v, cases w) simp

lemma read_hrtime_more [simp]: "world.more (snd (read_hrtime sv w)) = world.more w"
  by (simp add: read_hrtime_def)

lemma read_date_more [simp]: "world.more (snd (read_date sv w)) = world.more w"
  by (simp add: read_date_def)

lemma elapsed_more [simp]: "world.more (snd (elapsed_seconds_since sv t w)) = world.more w"
  by (simp add: elapsed_seconds_since_def case_prod_beta' Let_def)

lemma note_validation_more [simp]: "world.more (note_validation sv t s out w) = world.more w"
  by (simp add: note_validation_def record_defs case_prod_beta' Let_def)

lemma axios_more: "axios_request sv ok req w = (out, w') \<Longrightarrow> world.more w' = world.more w"
  using axios_request_world [of sv ok req w] by simp

lemma api_failed_more [simp]: "world.more (snd (api_failed sv t e w)) = world.more w"
  by (simp add: api_failed_def record_defs case_prod_beta' Let_def)

lemma validate_using_api_more: "world.more (snd (validate_using_api sv token url w)) = world.more w"
  by (auto simp: validate_using_api_def record_defs case_prod_beta' Let_def split: sum.split)

lemma api_or_fail_more: "world.more (snd (validate_with_api_or_fail sv ctx token w)) = world.more w"
  by (simp add: validate_with_api_or_fail_def case_prod_beta' Let_def validate_using_api_more)

lemma cluster_or_next_more: "world.more (snd (validate_with_cluster_pat_or_next sv ctx token w)) = world.more w"
  by (simp add: validate_with_cluster_pat_or_next_def case_prod_beta' Let_def api_or_fail_more split: option.split)

lemma cache_get_more: "cached_world.more (snd (cache_get sv i r w)) = cached_world.more w"
  by (simp add: cache_get_def read_date_def case_prod_beta' Let_def split: option.split)

lemma run_probe_more: "run_probe sv a creds r w = (res, w') \<Longrightarrow> cached_world.more w' = cached_world.more w"
  for w w' :: "'w cached_world_scheme"
  by (elim run_probe_world) simp

lemma cache_record_more: "cached_world.more (cache_record sv i r b w) = cached_world.more w"
  by (simp add: cache_record_def read_date_def)

lemma prove_routes_more:
  "prove_routes sv resolve creds i hit routes w = (res, w') \<Longrightarrow> cached_world.more w' = cached_world.more w"
proof (induction routes arbitrary: hit w)
  case (Cons r rs)
  obtain found w1 where g: "cache_get sv i (ur_repo r) w = (found, w1)" by force
  then have m1: "cached_world.more w1 = cached_world.more w" using cache_get_more by (metis snd_conv)
  obtain result w2 where p: "run_probe sv (resolve (ur_host r)) creds (ur_repo r) w1 = (result, w2)" by force
  note m2 = run_probe_more [OF p]
  show ?case
  proof (cases found)
    case (Some l)
    with Cons g m1 show ?thesis by auto
  next
    case None
    show ?thesis
    proof (cases "\<exists>b. result = ProbeOk (JStr b)")
      case True
      then obtain b where "result = ProbeOk (JStr b)" by blast
      with Cons g p None have "cached_world.more w' = cached_world.more (cache_record sv i (ur_repo r) b w2)" by auto
      with m1 m2 show ?thesis by (simp add: cache_record_more)
    next
      case False
      with Cons.prems g p None have "w' = w2 \<or> w' = cache_invalidate i w2"
        by (auto split: probe_result.splits js.splits if_splits)
      with m1 m2 show ?thesis by (auto simp: cache_invalidate_def)
    qed
  qed
qed simp

lemma validate_wrapped_more:
  "validate_wrapped_upstream sv ring resolve token scope w = (res, w') \<Longrightarrow> cached_world.more w' = cached_world.more w"
proof -
  assume v: "validate_wrapped_upstream sv ring resolve token scope w = (res, w')"
  let ?w2 = "snd (read_date sv (snd (read_date sv w)))"
  have w2: "cached_world.more ?w2 = cached_world.more w"
    using more_cached [of ?w2 w] by simp
  from v have "w' = w \<or> w' = ?w2 \<or> (\<exists>creds i routes. prove_routes sv resolve creds i True routes ?w2 = (res, w'))"
    by (auto simp: validate_wrapped_upstream_def Let_def case_prod_beta' split: if_splits sum.splits)
  with w2 show ?thesis using prove_routes_more by metis
qed

lemma validate_presented_token_more:
  assumes "validate_presented_token sv ctx token scope w = (res, w')"
  shows "cached_world.more w' = cached_world.more w"
proof (cases "is_wrapped_upstream_token token")
  case True
  let ?w1 = "snd (read_hrtime sv w)"
  obtain res2 w2 where v: "validate_wrapped_upstream sv (vc_key_ring ctx) get_probe_for_host token scope ?w1 = (res2, w2)" by force
  have "\<exists>t out. w' = note_validation sv t WrappedUpstream out w2"
    using assms True v
    by (auto simp: validate_presented_token_def validate_using_wrapped_upstream_def case_prod_beta' Let_def split: sum.splits)
  then have "world.more w' = world.more w2" by auto
  with validate_wrapped_more [OF v] more_cached [of w' w2] more_cached [of ?w1 w] show ?thesis by simp
next
  case False
  have "world.more (snd (validate_presented_token sv ctx token scope w)) = world.more w"
    using False by (simp add: validate_presented_token_def case_prod_beta' Let_def cluster_or_next_more split: option.split)
  with assms show ?thesis using more_cached [of w' w] by simp
qed

lemma token_failed_more [simp]: "world.more (snd (token_failed sv s w)) = world.more w"
  by (simp add: token_failed_def record_defs)

lemma issue_token_more: "world.more (snd (issue_token sv app q r access w)) = world.more w"
  by (simp add: issue_token_def case_prod_beta' Let_def record_defs split: option.split)

lemma grant_and_issue_more: "world.more (snd (grant_and_issue sv app q r scopes w)) = world.more w"
  by (simp add: grant_and_issue_def record_defs issue_token_more split: sum.split)

section \<open>The two contracts of the handler\<close>

text \<open>What a request is granted comes from a scope policy, the cluster's or the permissive one.\<close>

interpretation grants: scope_policy "decide_scope env r" for env r
proof
  fix sc
  show "sd_allowed (decide_scope env r sc) \<Longrightarrow> \<exists>P. sd_actions (decide_scope env r sc) = filter P (sc_actions sc)"
    using cluster_policy.decide_restricts [of env "the (vr_cluster_id r)" sc]
    by (auto simp: decide_scope_def allow_def reject_def intro: exI [of _ "\<lambda>_. True"])
  show "\<not> sd_allowed (decide_scope env r sc) \<Longrightarrow> sd_actions (decide_scope env r sc) = []"
    using cluster_policy.decide_rejects [of env "the (vr_cluster_id r)" sc]
    by (auto simp: decide_scope_def allow_def reject_def split: if_splits)
qed

lemma sync_repos_inv:
  "sync_repos gen u scs db = Inr (x, db') \<Longrightarrow> db_inv gen db \<Longrightarrow>
     db_inv gen db' \<and> db_images db' = db_images db \<and> db_users db' = db_users db"
proof (induction scs arbitrary: db)
  case (Cons sc scs)
  show ?case
  proof (cases "\<exists>org repo rest. sc_type sc = ''repository'' \<and> split_on (\<lambda>c. c = CHR ''/'') (sc_name sc) = org # repo # rest \<and> org \<noteq> [] \<and> repo \<noteq> []")
    case True
    then obtain org repo rest where sp: "sc_type sc = ''repository''" "split_on (\<lambda>c. c = CHR ''/'') (sc_name sc) = org # repo # rest"
        "org \<noteq> []" "repo \<noteq> []" by blast
    with Cons.prems(1) obtain db1 where up: "upsert_repo_owner gen org repo u db = Inr ((), db1)" "sync_repos gen u scs db1 = Inr (x, db')"
      by (auto split: sum.splits)
    from upsert_repo_owner_inv [OF up(1) Cons.prems(2)] Cons.IH [OF up(2)] show ?thesis by simp
  next
    case False
    with Cons.prems(1) have "sync_repos gen u scs db = Inr (x, db')"
      by (auto split: list.splits if_splits)
    with Cons.IH Cons.prems(2) show ?thesis by blast
  qed
qed simp

lemma sync_body_inv:
  assumes "sync_body gen p scs db = Inr (x, db')" and "db_inv gen db"
  shows "db_inv gen db' \<and> db_images db' = db_images db"
proof -
  obtain u db1 where up: "upsert_user gen (user_params_of p) db = Inr (u, db1)" "sync_repos gen u scs db1 = Inr (x, db')"
    using assms(1) by (auto simp: sync_body_def split: sum.splits)
  from upsert_user_inv [OF up(1) assms(2)] sync_repos_inv [OF up(2)] show ?thesis by simp
qed

text \<open>The token service's only transaction respects the store's invariant, whatever fails.\<close>

interpretation token_store: image_store "db_inv gen" "range (\<lambda>(p, scs). sync_body gen p scs)" for gen
  by unfold_locales (auto dest: sync_body_inv)

lemma sync_database_db:
  assumes "sync_database sv p scs w = (ok, w')"
  shows "aw_db w' = aw_db w \<or> sync_body (ap_gen sv) p scs (aw_db w) = Inr ((), aw_db w')"
proof -
  have read: "aw_db (snd (read_hrtime sv w)) = aw_db w" by (simp add: read_hrtime_def)
  have frame: "aw_db (record_database_sync sv out d (snd (elapsed_seconds_since sv t v))) = aw_db v" for out d t v
    using more_auth [of "record_database_sync sv out d (snd (elapsed_seconds_since sv t v))" v]
      more_cached [of "record_database_sync sv out d (snd (elapsed_seconds_since sv t v))" v]
    by (simp add: record_defs)
  have "aw_db w' = aw_db w \<or>
      (\<exists>fault. aw_db w' = snd (run_transaction fault (sync_body (ap_gen sv) p scs) (aw_db w)))"
    using assms read
    by (auto simp: sync_database_def case_prod_beta' Let_def frame split: session.splits tx_outcome.splits)
  then consider "aw_db w' = aw_db w" | fault where "aw_db w' = snd (run_transaction fault (sync_body (ap_gen sv) p scs) (aw_db w))"
    by blast
  then show ?thesis
  proof cases
    case (2 fault)
    then show ?thesis
      using run_transaction_atomic [of fault "sync_body (ap_gen sv) p scs" "aw_db w"] by (metis old.unit.exhaust)
  qed blast
qed


lemma handle_token_cases:
  assumes "handle_token sv app q w = (rsp, w')"
  obtains (early) "world.more w' = world.more w" "rp_status rsp \<noteq> 200"
    | (refused) cred :: presented_credentials and e w1 where "validate_presented_token sv (aa_context app) (pc_token cred) (tq_scope q) w = (Inl e, w1)"
        "cached_world.more w' = cached_world.more w1" "rp_status rsp \<noteq> 200"
    | (mismatch) cred :: presented_credentials and r :: validation_result and w1 where "validate_presented_token sv (aa_context app) (pc_token cred) (tq_scope q) w = (Inr r, w1)"
        "w' = w1" "rp_status rsp \<noteq> 200"
    | (unsynced) cred r w1 where "extract_presented_credentials (tq_authorization q) = Inr cred"
        "validate_presented_token sv (aa_context app) (pc_token cred) (tq_scope q) w = (Inr r, w1)" "vr_strategy r = Api"
        "presented_identity_matches_user (pc_identity cred) (tq_account q) (vr_profile r)" "rp_status rsp \<noteq> 200"
        "\<exists>w2. sync_database sv (vr_profile r) (parse_requested_scopes (tq_scope q)) w1 = (False, w2) \<and> aw_db w' = aw_db w2"
    | (granted) cred r w1 w2 where "length (parse_requested_scopes (tq_scope q)) \<le> MAX_REQUESTED_SCOPES"
        "extract_presented_credentials (tq_authorization q) = Inr cred"
        "validate_presented_token sv (aa_context app) (pc_token cred) (tq_scope q) w = (Inr r, w1)"
        "vr_strategy r = Api \<Longrightarrow> presented_identity_matches_user (pc_identity cred) (tq_account q) (vr_profile r)"
        "if vr_strategy r = Api then sync_database sv (vr_profile r) (parse_requested_scopes (tq_scope q)) w1 = (True, w2) else w2 = w1"
        "grant_and_issue sv app q r (parse_requested_scopes (tq_scope q)) w2 = (rsp, w')"
proof (cases "length (parse_requested_scopes (tq_scope q)) > MAX_REQUESTED_SCOPES")
  case True
  with assms early show thesis by (auto simp: handle_token_def error_response_def record_defs)
next
  case few: False
  show thesis
  proof (cases "extract_presented_credentials (tq_authorization q)")
    case (Inl e)
    with assms few have "(rsp, w') = token_failed sv ''unknown'' w" by (simp add: handle_token_def)
    then show thesis using early by (auto simp: token_failed_def error_response_def record_defs)
  next
    case (Inr cred)
    obtain res w1 where v: "validate_presented_token sv (aa_context app) (pc_token cred) (tq_scope q) w = (res, w1)" by force
    show thesis
    proof (cases res)
      case (Inl e)
      with assms few \<open>extract_presented_credentials _ = _\<close> v have "(rsp, w') = token_failed sv ''unknown'' w1"
        by (simp add: handle_token_def)
      then have "world.more w' = world.more w1" "rp_status rsp \<noteq> 200"
        using token_failed_more \<open>(rsp, w') = _\<close> by (metis snd_conv, simp add: token_failed_def error_response_def)
      then show thesis using refused [OF v [unfolded Inl]] more_cached [of w' w1] by simp
    next
      case (Inr r)
      note v = v [unfolded Inr] and cred = \<open>extract_presented_credentials _ = Inr cred\<close>
      consider (other) "vr_strategy r \<noteq> Api"
        | (bad) "vr_strategy r = Api" "\<not> presented_identity_matches_user (pc_identity cred) (tq_account q) (vr_profile r)"
        | (api) "vr_strategy r = Api" "presented_identity_matches_user (pc_identity cred) (tq_account q) (vr_profile r)" by blast
      then show thesis
      proof cases
        case other
        then have g: "grant_and_issue sv app q r (parse_requested_scopes (tq_scope q)) w1 = (rsp, w')"
          using assms few cred v by (simp add: handle_token_def)
        show thesis by (rule granted [OF _ cred v _ _ g]) (use few other in simp_all)
      next
        case bad
        then have "w' = w1" "rp_status rsp \<noteq> 200"
          using assms few cred v by (auto simp: handle_token_def error_response_def)
        then show thesis by (rule mismatch [OF v])
      next
        case api
        obtain ok w2 where sy: "sync_database sv (vr_profile r) (parse_requested_scopes (tq_scope q)) w1 = (ok, w2)" by force
        show thesis
        proof (cases ok)
          case True
          then have g: "grant_and_issue sv app q r (parse_requested_scopes (tq_scope q)) w2 = (rsp, w')"
            using assms few cred v api sy by (simp add: handle_token_def)
          show thesis by (rule granted [OF _ cred v _ _ g]) (use few api sy True in simp_all)
        next
          case False
          with assms few cred v api sy have f: "(rsp, w') = token_failed sv (strategy_text Api) w2" by (simp add: handle_token_def)
          then have "world.more w' = world.more w2" using token_failed_more by (metis snd_conv)
          then have "aw_db w' = aw_db w2" using more_auth more_cached by blast
          moreover have "rp_status rsp \<noteq> 200" using f by (simp add: token_failed_def error_response_def)
          ultimately show thesis using unsynced [OF cred v api] sy False by simp
        qed
      qed
    qed
  qed
qed

lemma issue_token_ok:
  assumes "issue_token sv app q r access w = (rsp, w')" and "rp_status rsp = 200"
  obtains key digest jwt iat expiry rest where "aa_jwt_private_key app = Some key" "ap_key_digest sv key = Some digest"
    "ap_sign sv key (compute_libtrust_key_id digest) (token_payload app r (tq_service q) access iat expiry) = Some jwt"
    "rp_body rsp = JObj ((''token'', JStr jwt) # rest)"
  using assms
  by (auto simp: issue_token_def token_failed_def error_response_def Let_def case_prod_beta' truthy_def
      split: if_splits option.splits)

lemma grant_and_issue_ok:
  assumes "grant_and_issue sv app q r scopes w = (rsp, w')" and "rp_status rsp = 200"
  obtains access where "grant_access (decide_scope (ap_env sv) r) scopes = Inr access"
    "issue_token sv app q r access w = (rsp, w')"
  using assms by (auto simp: grant_and_issue_def error_response_def split: sum.splits if_splits)

text \<open>What one entry of the issued token may hold.\<close>

definition entry_within :: "validation_result \<Rightarrow> requested_scope \<Rightarrow> requested_scope \<Rightarrow> bool" where
  "entry_within r granted requested \<longleftrightarrow>
     sc_type granted = sc_type requested \<and> sc_name granted = sc_name requested \<and>
     set (sc_actions granted) \<subseteq> set (sc_actions requested) \<and>
     (vr_strategy r = ClusterPatStrategy \<longrightarrow>
        (case vr_cluster_id r of None \<Rightarrow> False
         | Some c \<Rightarrow> sc_type granted = ''repository'' \<and>
             (\<forall>a \<in> set (sc_actions granted). a = ''pull'' \<or> under_namespace (''cluster/'' @ c) (sc_name granted))))"

lemma granted_entry_within:
  assumes "sd_allowed (decide_scope env r sc)"
  shows "entry_within r (sc\<lparr>sc_actions := sd_actions (decide_scope env r sc)\<rparr>) sc"
proof -
  note sub = grants.granted_subset [OF assms]
  show ?thesis
  proof (cases "vr_strategy r = ClusterPatStrategy")
    case True
    then have d: "decide_scope env r sc =
        (if \<not> truthy (vr_cluster_id r) then reject ''cluster PAT missing cluster_id''
         else evaluate_cluster_pat_scope env (the (vr_cluster_id r)) (sc_type sc) (sc_name sc) (sc_actions sc))"
      by (simp add: decide_scope_def)
    with assms obtain c where c: "vr_cluster_id r = Some c" by (auto simp: reject_def truthy_def split: if_splits option.splits)
    have d: "decide_scope env r sc = evaluate_cluster_pat_scope env c (sc_type sc) (sc_name sc) (sc_actions sc)"
      using d assms c by (auto simp: reject_def split: if_splits)
    have "sc_type sc = ''repository''" using assms unfolding d by (simp add: evaluate_allowed_iff)
    moreover have "\<forall>a \<in> set (sd_actions (decide_scope env r sc)). a = ''pull'' \<or> under_namespace (''cluster/'' @ c) (sc_name sc)"
      unfolding d by (blast dest: evaluate_write)
    ultimately show ?thesis using sub c by (simp add: entry_within_def)
  next
    case False
    with sub show ?thesis by (simp add: entry_within_def)
  qed
qed

section \<open>Properties\<close>

text \<open>
  C4. What a token endpoint's answer stands for: a token is issued only for at most twenty scopes, for
  the credential of the request that one of the strategies accepted (and, where the validation
  service did, for the identity the client claims), and it is the signature of a payload whose access
  list has one entry per requested scope, in order, with no action that was not requested for that
  resource; for a cluster's token every entry is a repository and every action but pull is inside the
  cluster's own namespace.
\<close>

theorem issued_token_within_request:
  assumes "handle_token sv app q w = (rsp, w')" and "rp_status rsp = 200"
  shows "\<exists>cred r w1 access key digest iat expiry jwt rest.
    length (parse_requested_scopes (tq_scope q)) \<le> 20
    \<and> extract_presented_credentials (tq_authorization q) = Inr cred
    \<and> validate_presented_token sv (aa_context app) (pc_token cred) (tq_scope q) w = (Inr r, w1)
    \<and> (vr_strategy r = Api \<longrightarrow> presented_identity_matches_user (pc_identity cred) (tq_account q) (vr_profile r))
    \<and> aa_jwt_private_key app = Some key \<and> ap_key_digest sv key = Some digest
    \<and> ap_sign sv key (compute_libtrust_key_id digest) (token_payload app r (tq_service q) access iat expiry) = Some jwt
    \<and> rp_body rsp = JObj ((''token'', JStr jwt) # rest)
    \<and> list_all2 (entry_within r) access (parse_requested_scopes (tq_scope q))"
  using assms(1)
proof (cases rule: handle_token_cases)
  case (granted cred r w1 w2)
  obtain access where a: "grant_access (decide_scope (ap_env sv) r) (parse_requested_scopes (tq_scope q)) = Inr access"
      "issue_token sv app q r access w2 = (rsp, w')"
    using grant_and_issue_ok [OF granted(6) assms(2)] by blast
  obtain key digest jwt iat expiry rest where i: "aa_jwt_private_key app = Some key" "ap_key_digest sv key = Some digest"
      "ap_sign sv key (compute_libtrust_key_id digest) (token_payload app r (tq_service q) access iat expiry) = Some jwt"
      "rp_body rsp = JObj ((''token'', JStr jwt) # rest)"
    by (rule issue_token_ok [OF a(2) assms(2)])
  have "list_all2 (entry_within r) access (parse_requested_scopes (tq_scope q))"
    unfolding conjunct1 [OF grants.grant_access_shape [OF a(1)]] list_all2_map1 list_all2_same
    using conjunct2 [OF grants.grant_access_shape [OF a(1)]] by (blast intro: granted_entry_within)
  moreover have "length (parse_requested_scopes (tq_scope q)) \<le> 20" using granted(1) by (simp add: MAX_REQUESTED_SCOPES_def)
  ultimately show ?thesis using granted(2-4) i by blast
qed (use assms(2) in simp_all)

text \<open>What a token request does to the database: nothing, or the transaction of a caller the validation service vouches for.\<close>

lemma handle_token_db:
  assumes h: "handle_token sv app q w = (rsp, w')"
  obtains (same) "aw_db w' = aw_db w"
    | (synced) cred r w1 where "extract_presented_credentials (tq_authorization q) = Inr cred"
        "validate_presented_token sv (aa_context app) (pc_token cred) (tq_scope q) w = (Inr r, w1)" "vr_strategy r = Api"
        "presented_identity_matches_user (pc_identity cred) (tq_account q) (vr_profile r)"
        "sync_body (ap_gen sv) (vr_profile r) (parse_requested_scopes (tq_scope q)) (aw_db w) = Inr ((), aw_db w')"
  using h
proof (cases rule: handle_token_cases)
  case early
  then show thesis using same more_cached more_auth by blast
next
  case (refused cred e w1)
  then show thesis using same more_auth validate_presented_token_more by metis
next
  case (mismatch cred r w1)
  then show thesis using same more_auth validate_presented_token_more by metis
next
  case (unsynced cred r w1)
  have "aw_db w1 = aw_db w" using more_auth [OF validate_presented_token_more [OF unsynced(2)]] by simp
  with unsynced(6) sync_database_db show thesis using same synced [OF unsynced(1-4)] by metis
next
  case (granted cred r w1 w2)
  have w1: "aw_db w1 = aw_db w" using more_auth [OF validate_presented_token_more [OF granted(3)]] by simp
  have w': "aw_db w' = aw_db w2"
    using grant_and_issue_more [of sv app q r "parse_requested_scopes (tq_scope q)" w2] granted(6) more_cached more_auth
    by (metis snd_conv)
  show thesis
  proof (cases "vr_strategy r = Api")
    case True
    from granted(5) True have "sync_database sv (vr_profile r) (parse_requested_scopes (tq_scope q)) w1 = (True, w2)" by simp
    from sync_database_db [OF this] w1 w' show thesis using same synced [OF granted(2,3) True granted(4) [OF True]] by metis
  next
    case False
    with granted(5) w1 w' same show thesis by simp
  qed
qed

text \<open>
  C12. The token endpoint changes the database in one way only: for a credential the validation service
  accepted, under a matching identity, the user and the owners of the requested repositories are
  written, all of them or none; no image is touched and the tables stay consistent.
\<close>

theorem token_request_database_effect:
  assumes h: "handle_token sv app q w = (rsp, w')" and inv: "db_inv (ap_gen sv) (aw_db w)"
  shows "db_inv (ap_gen sv) (aw_db w') \<and> db_images (aw_db w') = db_images (aw_db w) \<and>
    (aw_db w' \<noteq> aw_db w \<longrightarrow> (\<exists>cred r w1. extract_presented_credentials (tq_authorization q) = Inr cred
       \<and> validate_presented_token sv (aa_context app) (pc_token cred) (tq_scope q) w = (Inr r, w1) \<and> vr_strategy r = Api
       \<and> presented_identity_matches_user (pc_identity cred) (tq_account q) (vr_profile r)
       \<and> sync_body (ap_gen sv) (vr_profile r) (parse_requested_scopes (tq_scope q)) (aw_db w) = Inr ((), aw_db w')))"
  using h
proof (cases rule: handle_token_db)
  case (synced cred r w1)
  with sync_body_inv [OF synced(5) inv] show ?thesis by blast
qed (use inv in simp)


lemma handle_images_validated:
  assumes "extract_presented_credentials (iq_authorization q) = Inr cred"
    and "validate_presented_token sv (aa_context app) (pc_token cred) JNull w = (Inr r, w1)"
  shows "handle_images sv app q w =
    (if vr_strategy r = ClusterPatStrategy \<or> vr_strategy r = WrappedUpstream then (error_response 403 ''unsupported_scope'', w1)
     else
       (let limit = parse_limit (iq_limit q); offset = parse_offset (iq_offset q); admin = (vr_strategy r = Pat);
            n = aw_sessions w1; w2 = w1\<lparr>aw_sessions := Suc n\<rparr>;
            page = (case ap_session sv n of ConnectFails \<Rightarrow> None
              | Connected fault \<Rightarrow>
                  (if admin then list_all_images (ap_plan sv n) fault (aw_db w2) limit offset
                   else list_images_for_external_id (ap_plan sv n) fault (aw_db w2) (vp_external_id (vr_profile r)) limit offset))
        in case page of None \<Rightarrow> (error_response 500 ''db_error'', w2)
           | Some p \<Rightarrow> (\<lparr>rp_status = 200, rp_body = images_body admin (vr_profile r) limit offset p\<rparr>, w2)))"
  by (simp add: handle_images_def assms)

lemma handle_images_api:
  assumes "extract_presented_credentials (iq_authorization q) = Inr cred"
    and "validate_presented_token sv (aa_context app) (pc_token cred) JNull w = (Inr r, w1)" and "vr_strategy r = Api"
    and "handle_images sv app q w = (rsp, w')"
  obtains (err) "rp_status rsp = 500" "aw_db w' = aw_db w"
    | (page) p fault where "rp_status rsp = 200" "aw_db w' = aw_db w"
        "rp_body rsp = images_body False (vr_profile r) (parse_limit (iq_limit q)) (parse_offset (iq_offset q)) p"
        "list_images_for_external_id (ap_plan sv (aw_sessions w1)) fault (aw_db w) (vp_external_id (vr_profile r))
           (parse_limit (iq_limit q)) (parse_offset (iq_offset q)) = Some p"
  using assms(4) [unfolded handle_images_validated [OF assms(1,2)]] assms(3)
    more_auth [OF validate_presented_token_more [OF assms(2)]]
  by (auto simp: error_response_def Let_def split: option.splits session.splits)

lemma parse_limit_positive: "1 \<le> parse_limit l"
  by (auto simp: parse_limit_def clamp_limit_def DEFAULT_LIMIT_def MIN_LIMIT_def MAX_LIMIT_def split: jsnum.split)

lemma user_page_rows:
  assumes "is_plan plan" and "list_images_for_external_id plan fault db x limit offset = Some p" and "1 \<le> limit"
  shows "int (length (pg_rows p)) \<le> limit \<and>
    (\<forall>row \<in> set (pg_rows p). \<exists>i rp. (i, rp) \<in> set (join_repos db) \<and> owned_by db x rp \<and> row = select_projection (i, rp))"
proof -
  let ?joined = "filter (\<lambda>(i, r). owned_by db x r) (join_repos db)"
  have p: "p = trim_overflow (window (limit + 1) offset (map select_projection (plan ?joined))) limit"
    using assms(2) by (auto simp: list_images_for_external_id_def run_list_query_def build_user_list_query_def split: if_splits)
  have "set (pg_rows p) \<subseteq> select_projection ` set (plan ?joined)"
    unfolding p trim_overflow_def window_def by (auto dest!: in_set_takeD in_set_dropD)
  also have "set (plan ?joined) = set ?joined" using is_plan_set [OF assms(1)] .
  finally have "\<forall>row \<in> set (pg_rows p). \<exists>i rp. (i, rp) \<in> set (join_repos db) \<and> owned_by db x rp \<and> row = select_projection (i, rp)"
    by fastforce
  moreover have "int (length (pg_rows p)) \<le> limit"
    using assms(3) unfolding p trim_overflow_def by auto
  ultimately show ?thesis by blast
qed



section \<open>Instances\<close>

text \<open>A deployment with one static token, one cluster, and a signer that signs.\<close>

definition demo_app_services :: app_services where
  "demo_app_services = \<lparr>sv_net = demo_net, sv_hrtime = int, sv_date = (\<lambda>i. 1000 + int i), sv_metrics_enabled = True,
     as_open = demo_open, as_sha256 = (\<lambda>s. s), ap_env = (\<lambda>_. None), ap_gen = nat_to_string, ap_session = (\<lambda>_. Connected NoFault),
     ap_plan = (\<lambda>_. stable_plan), ap_key_digest = (\<lambda>_. Some (replicate 32 0)), ap_sign = (\<lambda>key kid payload. Some (''signed'' @ kid))\<rparr>"

definition demo_app :: auth_app where
  "demo_app = \<lparr>aa_context = demo_ctx, aa_jwt_private_key = Some ''key'', aa_issuer = ''aocr-auth'', aa_default_service = ''aocr''\<rparr>"

definition demo_auth_world :: auth_world where
  "demo_auth_world = \<lparr>w_sent = [], w_hr_reads = 0, w_date_reads = 0, w_metrics = [], w_pool_bound = False,
     cw_cache = new_proof_cache None None, aw_db = demo_database, aw_sessions = 0\<rparr>"

definition demo_query :: token_query where
  "demo_query = \<lparr>tq_account = JNull, tq_service = JNull, tq_scope = JStr ''repository:bob/app:pull,push'',
     tq_authorization = Some ''Bearer pat-2''\<rparr>"

definition demo_pat :: presented_credentials where
  "demo_pat = projr (extract_presented_credentials (Some ''Bearer pat-2''))"

lemma demo_request:
  "extract_presented_credentials (Some ''Bearer pat-2'') = Inr demo_pat" "pc_token demo_pat = ''pat-2''"
  "parse_requested_scopes (JStr ''repository:bob/app:pull,push'')
     = [\<lparr>sc_type = ''repository'', sc_name = ''bob/app'', sc_actions = [''pull'', ''push'']\<rparr>]"
  by code_simp+

lemma demo_app_validates:
  fixes w :: auth_world
  assumes "vc_static (aa_context app) = vc_static demo_ctx"
  shows "\<exists>r w1. validate_presented_token demo_app_services (aa_context app) ''pat-2'' scope w = (Inr r, w1)
     \<and> vr_strategy r = Pat \<and> vr_cluster_id r = None"
proof -
  obtain c where c: "vc_static demo_ctx = Some c" "''pat-2'' \<in> set (sp_tokens c)"
    using demo_ctx_lists(1) by (auto simp: static_lists_def split: option.splits)
  then show ?thesis using demo_ctx_lists(2) assms
    by (simp add: validate_presented_token_def static_pat_Some case_prod_beta' Let_def)
qed

lemma demo_handled:
  fixes w :: auth_world
  assumes "vc_static (aa_context app) = vc_static demo_ctx" and "aa_jwt_private_key app = Some ''key''"
  shows "\<exists>rsp w'. handle_token demo_app_services app demo_query w = (rsp, w') \<and> rp_status rsp = 200"
proof -
  obtain r w1 where v: "validate_presented_token demo_app_services (aa_context app) ''pat-2''
      (JStr ''repository:bob/app:pull,push'') w = (Inr r, w1)" "vr_strategy r = Pat"
    using demo_app_validates [OF assms(1)] by blast
  have q: "tq_scope demo_query = JStr ''repository:bob/app:pull,push''" "tq_authorization demo_query = Some ''Bearer pat-2''"
    by (simp_all add: demo_query_def)
  have g: "grant_access (decide_scope (ap_env demo_app_services) r)
      [\<lparr>sc_type = ''repository'', sc_name = ''bob/app'', sc_actions = [''pull'', ''push'']\<rparr>]
      = Inr [\<lparr>sc_type = ''repository'', sc_name = ''bob/app'', sc_actions = [''pull'', ''push'']\<rparr>]"
    using v(2) by (simp add: decide_scope_def allow_def)
  have i: "rp_status (fst (issue_token demo_app_services app demo_query r access w1)) = 200" for access
    by (simp add: issue_token_def assms(2) demo_app_services_def truthy_def case_prod_beta' Let_def)
  have "handle_token demo_app_services app demo_query w = grant_and_issue demo_app_services app demo_query r
      [\<lparr>sc_type = ''repository'', sc_name = ''bob/app'', sc_actions = [''pull'', ''push'']\<rparr>] w1"
    unfolding handle_token_def q demo_request Let_def using v by (simp add: MAX_REQUESTED_SCOPES_def demo_request)
  then show ?thesis using i g by (cases "handle_token demo_app_services app demo_query w")
      (metis fst_conv grant_and_issue_def sum.case(2))
qed

lemma demo_app_configured: "vc_static (aa_context demo_app) = vc_static demo_ctx" "aa_jwt_private_key demo_app = Some ''key''"
  by (simp_all add: demo_app_def)

theorem issued_token_within_request_witness:
  "\<exists>r access. list_all2 (entry_within r) access (parse_requested_scopes (JStr ''repository:bob/app:pull,push''))"
proof -
  obtain rsp w' where h: "handle_token demo_app_services demo_app demo_query demo_auth_world = (rsp, w')" "rp_status rsp = 200"
    using demo_handled [OF demo_app_configured] by blast
  from issued_token_within_request [OF h] show ?thesis by (auto simp: demo_query_def)
qed


theorem token_request_database_effect_witness:
  "\<exists>rsp w'. handle_token demo_app_services demo_app demo_query (demo_auth_world\<lparr>aw_db := empty_database\<rparr>) = (rsp, w')
     \<and> db_inv nat_to_string (aw_db w') \<and> db_images (aw_db w') = []"
proof -
  let ?w = "demo_auth_world\<lparr>aw_db := empty_database\<rparr>"
  have inv: "db_inv (ap_gen demo_app_services) (aw_db ?w)"
    by (simp add: demo_app_services_def db_inv_def db_wf_def empty_database_def inj_def nat_to_string_inject)
  obtain rsp w' where h: "handle_token demo_app_services demo_app demo_query ?w = (rsp, w')" by force
  from token_request_database_effect [OF h inv] show ?thesis
    using h by (auto simp: demo_app_services_def empty_database_def)
qed

text \<open>A deployment whose only strategy is the validation service, which knows the caller as user 42.\<close>

definition demo_api_context :: auth_validation_context where
  "demo_api_context = \<lparr>vc_static = None, vc_cluster = None, vc_url = Some ''https://val'', vc_key_ring = []\<rparr>"

definition demo_profile :: validation_user_profile where
  "demo_profile = projr (normalize_validation_profile (JObj [(''id'', JStr ''42'')]))"

lemma demo_profile: "normalize_validation_profile (JObj [(''id'', JStr ''42'')]) = Inr demo_profile" "vp_external_id demo_profile = ''42''"
  by code_simp+

lemma demo_info_url: "get_validation_info_url (Some ''https://val'') = Inr (projr (get_validation_info_url (Some ''https://val'')))"
  by code_simp

definition demo_api_services :: app_services where
  "demo_api_services = demo_app_services\<lparr>sv_net := \<lambda>_ _. Inr \<lparr>rs_status = 200, rs_headers = [], rs_data = JObj [(''id'', JStr ''42'')]\<rparr>\<rparr>"

lemma demo_api_net:
  "fst (axios_request demo_api_services default_validate_status req w)
     = Inr \<lparr>rs_status = 200, rs_headers = [], rs_data = JObj [(''id'', JStr ''42'')]\<rparr>"
  by (simp add: axios_request_def demo_api_services_def default_validate_status_def)

lemma demo_api_called:
  "fst (validate_using_api demo_api_services token (Some ''https://val'') w)
     = Inr \<lparr>vr_strategy = Api, vr_profile = demo_profile, vr_cluster_id = None, vr_cred_identity = None\<rparr>"
  unfolding validate_using_api_def
  by (subst demo_info_url) (simp add: case_prod_beta' Let_def demo_api_net demo_profile)

lemma demo_api_validates:
  "\<exists>w1. validate_presented_token demo_api_services demo_api_context ''pat-2'' scope w
     = (Inr \<lparr>vr_strategy = Api, vr_profile = demo_profile, vr_cluster_id = None, vr_cred_identity = None\<rparr>, w1)"
  using demo_ctx_lists(2)
  by (simp add: validate_presented_token_def demo_api_context_def validate_with_cluster_pat_or_next_def
        validate_with_api_or_fail_def truthy_def case_prod_beta' Let_def demo_api_called)

definition demo_images_query :: images_query where
  "demo_images_query = \<lparr>iq_limit = JStr ''1'', iq_offset = JNull, iq_authorization = Some ''Bearer pat-2''\<rparr>"

lemma demo_images_query:
  "parse_limit (iq_limit demo_images_query) = 1" "parse_offset (iq_offset demo_images_query) = 0"
  "extract_presented_credentials (iq_authorization demo_images_query) = Inr demo_pat"
proof -
  have "nat_to_string 1 = ''1''" by code_simp
  with parse_int_nat_to_string [of 1] have one: "parse_int ''1'' = Fin 1" by simp
  have none: "parse_int [] = NaN" by code_simp
  show "parse_limit (iq_limit demo_images_query) = 1" "parse_offset (iq_offset demo_images_query) = 0"
    by (simp_all add: demo_images_query_def parse_limit_def parse_offset_def parse_query_number_def js_nullish_def one none clamp_limit_def
        clamp_offset_def MIN_LIMIT_def MAX_LIMIT_def)
qed (simp add: demo_images_query_def demo_request)

lemma demo_api_page:
  assumes app: "aa_context app = demo_api_context"
  shows "\<exists>w1 p w'. validate_presented_token demo_api_services (aa_context app) (pc_token demo_pat) JNull w
      = (Inr \<lparr>vr_strategy = Api, vr_profile = demo_profile, vr_cluster_id = None, vr_cred_identity = None\<rparr>, w1)
    \<and> handle_images demo_api_services app demo_images_query w = (\<lparr>rp_status = 200, rp_body = images_body False demo_profile 1 0 p\<rparr>, w')
    \<and> list_images_for_external_id stable_plan NoFault (aw_db w) ''42'' 1 0 = Some p"
proof -
  let ?r = "\<lparr>vr_strategy = Api, vr_profile = demo_profile, vr_cluster_id = None, vr_cred_identity = None\<rparr>"
  obtain w1 where v: "validate_presented_token demo_api_services (aa_context app) (pc_token demo_pat) JNull w = (Inr ?r, w1)"
    using demo_api_validates unfolding demo_request app by blast
  have w1: "aw_db w1 = aw_db w" using more_auth [OF validate_presented_token_more [OF v]] by simp
  have s: "ap_session demo_api_services n = Connected NoFault" "ap_plan demo_api_services n = stable_plan" for n
    by (simp_all add: demo_api_services_def demo_app_services_def)
  obtain p where p: "list_images_for_external_id stable_plan NoFault (aw_db w) ''42'' 1 0 = Some p"
    by (auto simp: list_images_for_external_id_def run_list_query_def build_user_list_query_def)
  then show ?thesis
    using v by (auto simp: handle_images_validated [OF demo_images_query(3) v] demo_images_query s demo_profile w1 Let_def)
qed


end
