(* ===== verification/HookWorld.thy ===== *)
theory HookWorld
  imports Database Metrics Codec
begin

text \<open>
  The webhook service's surroundings: its configuration from the environment
  (\<open>hooks/src/util/database.ts\<close>, \<open>hooks/src/util/redis.ts\<close>), its state (the database, the Redis
  store, the requests it sent), and the oracles for what it does not control. Node's \<open>fetch\<close>
  resolves with every response the network gives and rejects with a message otherwise; the text of
  a response is \<open>rs_data\<close>, a value other than a string standing for a body whose stream breaks.
  A Redis command may fail before or after the server applied it.
\<close>

section \<open>Configuration\<close>

text \<open>\<open>getEnv\<close>: blank values count as absent (the same function in both modules).\<close>

definition get_env :: "env \<Rightarrow> string \<Rightarrow> string option" where
  "get_env env name = (case env name of None \<Rightarrow> None | Some value \<Rightarrow> if trim value = [] then None else Some value)"

definition hooks_connection_string :: "env \<Rightarrow> string option" where
  "hooks_connection_string env =
     (case get_env env ''DATABASE_URL'' of
        Some direct \<Rightarrow> Some direct
      | None \<Rightarrow>
          (case (get_env env ''POSTGRES_HOST'', get_env env ''POSTGRES_DB'', get_env env ''POSTGRES_USER'',
                 get_env env ''POSTGRES_PASSWORD'') of
             (Some host, Some database, Some user, Some password) \<Rightarrow>
               Some (''postgres://'' @ encode_uri_component user @ '':'' @ encode_uri_component password @ ''@'' @ host
                     @ '':'' @ or_else (get_env env ''POSTGRES_PORT'') ''5432'' @ ''/'' @ database)
           | _ \<Rightarrow> None))"

definition get_redis_url :: "env \<Rightarrow> string option" where
  "get_redis_url env =
     (case get_env env ''REDISCLOUD_URL'' of
        Some direct \<Rightarrow> Some direct
      | None \<Rightarrow>
          (case get_env env ''REDIS_HOST'' of
             None \<Rightarrow> None
           | Some host \<Rightarrow>
               (let redis_port = or_else (get_env env ''REDIS_PORT'') ''6379'' in
                case get_env env ''REDIS_PASSWORD'' of
                  None \<Rightarrow> Some (''redis://'' @ host @ '':'' @ redis_port)
                | Some password \<Rightarrow> Some (''redis://:'' @ encode_uri_component password @ ''@'' @ host @ '':'' @ redis_port))))"

definition registry_url :: "env \<Rightarrow> string" where
  "registry_url env = strip_slashes (or_else (env ''REGISTRY_URL'') ''http://registry:5000'')"

text \<open>\<open>includes\<close> of a string.\<close>

fun js_includes :: "string \<Rightarrow> string \<Rightarrow> bool" where
  "js_includes p [] = (p = [])"
| "js_includes p (c # s) = (starts_with p (c # s) \<or> js_includes p s)"

section \<open>State and services\<close>

record redis_store =
  rd_current :: "string list"
  rd_hashes :: "(string \<times> (string \<times> string) list) list"

datatype redis_reply = RedisOk | RedisRefused | RedisReplyLost

record hook_world = world +
  hw_db :: database
  hw_sessions :: nat
  hw_statements :: nat
  hw_redis :: redis_store
  hw_redis_calls :: nat

record hook_services = services +
  hs_env :: env
  hs_gen :: "nat \<Rightarrow> string"
  hs_session :: "nat \<Rightarrow> session"
  hs_statement :: "nat \<Rightarrow> db_fault"
  hs_pg_now :: "nat \<Rightarrow> int"
  hs_redis_ready :: "nat \<Rightarrow> bool"
  hs_redis_reply :: "nat \<Rightarrow> redis_reply"
  hs_collate :: "string \<Rightarrow> string \<Rightarrow> bool"
  hs_ties :: "string \<Rightarrow> (string \<times> int) list \<Rightarrow> (string \<times> int) list"
  hs_param_text :: "js \<Rightarrow> string"

text \<open>The text the Postgres client makes of a query parameter that is no string is the client's.\<close>

definition param_text :: "'a hook_services_scheme \<Rightarrow> js \<Rightarrow> string" where
  "param_text sv v = (case v of JStr s \<Rightarrow> s | _ \<Rightarrow> hs_param_text sv v)"

section \<open>Requests\<close>

definition fetch_request :: "'a services_scheme \<Rightarrow> http_request \<Rightarrow> 'w world_scheme \<Rightarrow> (string + http_response) \<times> 'w world_scheme" where
  "fetch_request sv req w =
     (let (outcome, w') = axios_request sv (\<lambda>_. True) req w in
      (case outcome of Inl e \<Rightarrow> Inl (er_message e) | Inr r \<Rightarrow> Inr r, w'))"

definition header_of :: "string \<Rightarrow> http_response \<Rightarrow> string option" where
  "header_of name r = map_of (map (\<lambda>(k, v). (to_lower k, v)) (rs_headers r)) name"

definition body_text :: "http_response \<Rightarrow> string option" where
  "body_text r = (case rs_data r of JStr s \<Rightarrow> Some s | _ \<Rightarrow> None)"

lemma fetch_request_world [simp]: "snd (fetch_request sv req w) = w\<lparr>w_sent := w_sent w @ [req]\<rparr>"
  by (simp add: fetch_request_def case_prod_beta' Let_def)

lemma fetch_request_ok:
  "fetch_request sv req w = (Inr r, w') \<Longrightarrow> sv_net sv (w_sent w) req = Inr r \<and> w' = w\<lparr>w_sent := w_sent w @ [req]\<rparr>"
  by (auto simp: fetch_request_def axios_request_def Let_def case_prod_beta' split: sum.splits)

lemma fetch_request_next: "fetch_request sv req w = (res, w') \<Longrightarrow> w' = w\<lparr>w_sent := w_sent w @ [req]\<rparr>"
  by (metis fetch_request_world snd_conv)

section \<open>Redis\<close>

text \<open>\<open>getClient\<close>: the client exists if a URL is configured, and is used only while it is ready.\<close>

definition redis_available :: "'a hook_services_scheme \<Rightarrow> 'w hook_world_scheme \<Rightarrow> bool" where
  "redis_available sv w \<longleftrightarrow> get_redis_url (hs_env sv) \<noteq> None \<and> hs_redis_ready sv (hw_redis_calls w)"

text \<open>One command; false where the client's promise rejects.\<close>

definition redis_command :: "'a hook_services_scheme \<Rightarrow> (redis_store \<Rightarrow> redis_store) \<Rightarrow> 'w hook_world_scheme
     \<Rightarrow> bool \<times> 'w hook_world_scheme" where
  "redis_command sv f w =
     (let w' = w\<lparr>hw_redis_calls := Suc (hw_redis_calls w)\<rparr> in
      case hs_redis_reply sv (hw_redis_calls w) of
        RedisOk \<Rightarrow> (True, w'\<lparr>hw_redis := f (hw_redis w)\<rparr>)
      | RedisRefused \<Rightarrow> (False, w')
      | RedisReplyLost \<Rightarrow> (False, w'\<lparr>hw_redis := f (hw_redis w)\<rparr>))"

definition s_add :: "string \<Rightarrow> redis_store \<Rightarrow> redis_store" where
  "s_add member st = st\<lparr>rd_current := List.insert member (rd_current st)\<rparr>"

definition s_rem :: "string \<Rightarrow> redis_store \<Rightarrow> redis_store" where
  "s_rem member st = st\<lparr>rd_current := filter (\<lambda>m. m \<noteq> member) (rd_current st)\<rparr>"

definition h_set :: "string \<Rightarrow> (string \<times> string) list \<Rightarrow> redis_store \<Rightarrow> redis_store" where
  "h_set key kvs st =
     st\<lparr>rd_hashes := AList.update key
          (fold (\<lambda>(f, v). AList.update f v) kvs (case map_of (rd_hashes st) key of None \<Rightarrow> [] | Some h \<Rightarrow> h)) (rd_hashes st)\<rparr>"

definition redis_del :: "string \<Rightarrow> redis_store \<Rightarrow> redis_store" where
  "redis_del key st = st\<lparr>rd_hashes := AList.delete key (rd_hashes st)\<rparr>"

definition cache_pushed_image :: "'a hook_services_scheme \<Rightarrow> string \<Rightarrow> int \<Rightarrow> 'w hook_world_scheme \<Rightarrow> bool \<times> 'w hook_world_scheme" where
  "cache_pushed_image sv image_with_tag pushed_at w =
     (if \<not> redis_available sv w then (True, w)
      else
        (let timestamp = int_to_string pushed_at; (ok, w1) = redis_command sv (s_add image_with_tag) w in
         if \<not> ok then (False, w1)
         else redis_command sv (h_set image_with_tag [(''created'', timestamp), (''lastPushed'', timestamp)]) w1))"

definition remove_cached_image :: "'a hook_services_scheme \<Rightarrow> string \<Rightarrow> 'w hook_world_scheme \<Rightarrow> bool \<times> 'w hook_world_scheme" where
  "remove_cached_image sv image_with_tag w =
     (if \<not> redis_available sv w then (True, w)
      else
        (let (ok, w1) = redis_command sv (s_rem image_with_tag) w in
         if \<not> ok then (False, w1) else redis_command sv (redis_del image_with_tag) w1))"

section \<open>Single statements\<close>

text \<open>
  One statement outside a transaction, with the text parameters the server checks; false where
  the client's promise rejects.
\<close>

definition pg_statement :: "'a hook_services_scheme \<Rightarrow> string list \<Rightarrow> (int \<Rightarrow> database \<Rightarrow> database) \<Rightarrow> 'w hook_world_scheme
     \<Rightarrow> bool \<times> 'w hook_world_scheme" where
  "pg_statement sv params stmt w =
     (let n = hw_statements w; w' = w\<lparr>hw_statements := Suc n\<rparr> in
      if list_ex (\<lambda>p. check_text p \<noteq> None) params then (False, w')
      else (let (ok, db) = run_statement (hs_statement sv n) (stmt (hs_pg_now sv n)) (hw_db w) in (ok, w'\<lparr>hw_db := db\<rparr>)))"

section \<open>What each of them leaves alone\<close>

definition redis_only :: "'w hook_world_scheme \<Rightarrow> 'w hook_world_scheme \<Rightarrow> bool" where
  "redis_only w w' \<longleftrightarrow> w' = w\<lparr>hw_redis := hw_redis w', hw_redis_calls := hw_redis_calls w'\<rparr>"

lemma redis_only_refl [simp]: "redis_only w w"
  by (simp add: redis_only_def)

lemma redis_only_trans: "redis_only u v \<Longrightarrow> redis_only v w \<Longrightarrow> redis_only u w"
  by (cases u, cases v, cases w) (simp add: redis_only_def)

lemma redis_only_frame:
  assumes "redis_only w w'"
  shows "hw_db w' = hw_db w" "w_sent w' = w_sent w" "hw_statements w' = hw_statements w" "hw_sessions w' = hw_sessions w"
    "w_metrics w' = w_metrics w" "w_date_reads w' = w_date_reads w" "w_hr_reads w' = w_hr_reads w"
  using assms by (cases w, cases w', simp add: redis_only_def)+

lemma redis_command_only: "redis_only w (snd (redis_command sv f w))"
  by (simp add: redis_only_def redis_command_def Let_def split: redis_reply.split)

lemma cache_pushed_image_only: "redis_only w (snd (cache_pushed_image sv i t w))"
  unfolding cache_pushed_image_def Let_def case_prod_beta'
  by (simp add: redis_only_trans [OF redis_command_only redis_command_only] redis_command_only)

lemma remove_cached_image_only: "redis_only w (snd (remove_cached_image sv i w))"
  unfolding remove_cached_image_def Let_def case_prod_beta'
  by (simp add: redis_only_trans [OF redis_command_only redis_command_only] redis_command_only)

lemma pg_statement_db:
  "hw_db (snd (pg_statement sv params stmt w)) \<in> {hw_db w, stmt (hs_pg_now sv (hw_statements w)) (hw_db w)}
   \<and> w_sent (snd (pg_statement sv params stmt w)) = w_sent w"
  by (simp add: pg_statement_def run_statement_def Let_def split: db_fault.split)

text \<open>Redis is a cache the database does not depend on: with no URL the store is never touched.\<close>

lemma no_redis_url: "get_redis_url (hs_env sv) = None \<Longrightarrow> cache_pushed_image sv i t w = (True, w) \<and> remove_cached_image sv i w = (True, w)"
  by (simp add: cache_pushed_image_def remove_cached_image_def redis_available_def)

end
