(* ===== verification/ImageRetention.thy ===== *)
theory ImageRetention
  imports HookWorld ImageList Json "HOL-Library.Char_ord" "HOL-Library.List_Lexorder"
begin

text \<open>
  \<open>hooks/src/util/imageRetention.ts\<close>: which images the reaper selects, and what it does with them.
  The selection query is a function of the database, the time, the configuration and three things
  that are Postgres' own: the collation (\<open>le\<close>, "sorts at or before"), the order in which an
  \<open>ORDER BY ... LIMIT 1\<close> meets equal rows (\<open>ties\<close>), and errors, which are \<open>None\<close>. One reap runs on the
  database as it finds it: \<open>StoreSystem\<close> interleaves the statements of other connections with its own.
\<close>

section \<open>Configuration\<close>

definition DEFAULT_MIRROR_IDLE_SECONDS :: int where "DEFAULT_MIRROR_IDLE_SECONDS = 30 * 24 * 60 * 60"

text \<open>A finite positive number, rounded down; the shared part of both parsers.\<close>

definition positive_seconds :: "jsnum \<Rightarrow> int option" where
  "positive_seconds n = (case n of Fin q \<Rightarrow> if q \<le> 0 then None else Some \<lfloor>q\<rfloor> | _ \<Rightarrow> None)"

definition parse_mirror_default_idle_seconds :: "env \<Rightarrow> int" where
  "parse_mirror_default_idle_seconds env =
     (let raw = trim (or_else (env ''MIRROR_DEFAULT_IDLE_SECONDS'') []) in
      if raw = [] then DEFAULT_MIRROR_IDLE_SECONDS
      else (case positive_seconds (js_Number_string raw) of None \<Rightarrow> DEFAULT_MIRROR_IDLE_SECONDS | Some s \<Rightarrow> s))"

text \<open>An assignment to \<open>__proto__\<close> of a number is ignored.\<close>

definition parse_mirror_upstream_retention_map :: "env \<Rightarrow> string option \<Rightarrow> (string \<times> int) list" where
  "parse_mirror_upstream_retention_map env raw =
     (let source = (case raw of None \<Rightarrow> or_else (env ''MIRROR_UPSTREAM_RETENTION_JSON'') [] | Some r \<Rightarrow> r); trimmed = trim source in
      if trimmed = [] then []
      else (case json_parse trimmed of
              Some (JObj ps) \<Rightarrow>
                List.map_filter (\<lambda>(upstream, v). if upstream = ''__proto__'' then None
                   else map_option (Pair upstream) (positive_seconds (js_Number v))) ps
            | _ \<Rightarrow> []))"

definition DEFAULT_PROTECTED_NAMESPACE :: string where "DEFAULT_PROTECTED_NAMESPACE = ''wasm/std''"

definition parse_protected_namespaces :: "env \<Rightarrow> string option \<Rightarrow> string list" where
  "parse_protected_namespaces env raw =
     (let fallback = trim (or_else (env ''AOCR_WASM_STD_NAMESPACE'') DEFAULT_PROTECTED_NAMESPACE);
          source = (case raw of None \<Rightarrow> env ''AOCR_RETENTION_PROTECTED_NAMESPACES'' | Some r \<Rightarrow> Some r);
          text = (case source of None \<Rightarrow> fallback | Some s \<Rightarrow> if trim s \<noteq> [] then s else fallback)
      in uniq (filter (\<lambda>entry. entry \<noteq> [])
           (map (\<lambda>entry. strip_slashes (trim entry)) (split_on (\<lambda>c. c = CHR 0x0A \<or> c = CHR '','') text))))"

definition normalize_repository_ids :: "string list option \<Rightarrow> string list" where
  "normalize_repository_ids ids = filter (\<lambda>i. i \<noteq> []) (map trim (case ids of None \<Rightarrow> [] | Some xs \<Rightarrow> xs))"

definition get_configured_repository_ids :: "env \<Rightarrow> string list" where
  "get_configured_repository_ids env =
     normalize_repository_ids
       (Some (split_on (\<lambda>c. c = CHR '','') (or_else (env ''REPOSITORY_IDS'') (or_else (env ''REPOSITORY_ID'') []))))"

text \<open>No value where there is no \<open>WHERE\<close> clause.\<close>

record repository_scope =
  sp_values :: "string list option"
  sp_label :: string

definition build_repository_scope :: "string list \<Rightarrow> repository_scope" where
  "build_repository_scope ids =
     (if ids = [] then \<lparr>sp_values = None, sp_label = ''all repositories''\<rparr>
      else \<lparr>sp_values = Some ids, sp_label = nat_to_string (length ids) @ '' configured repository scope(s)''\<rparr>)"

section \<open>SQL\<close>

text \<open>\<open>LIKE\<close>, with its wildcards and its escape character.\<close>

function (sequential) like :: "string \<Rightarrow> string \<Rightarrow> bool" where
  "like t [] \<longleftrightarrow> t = []"
| "like t (c # p) \<longleftrightarrow>
     (if c = CHR ''%'' then like t p \<or> (case t of [] \<Rightarrow> False | _ # t' \<Rightarrow> like t' (c # p))
      else if c = CHR ''_'' then
        (case t of [] \<Rightarrow> False | _ # t' \<Rightarrow> like (dropWhile (\<lambda>d. 128 \<le> char_code d \<and> char_code d < 192) t') p)
      else if char_code c = 92 then
        (case p of [] \<Rightarrow> False | d # p' \<Rightarrow> (case t of [] \<Rightarrow> False | x # t' \<Rightarrow> x = d \<and> like t' p'))
      else (case t of [] \<Rightarrow> False | x # t' \<Rightarrow> x = c \<and> like t' p))"
  by pat_completeness auto
termination
  by (relation "measure (\<lambda>(t, p). length t + length p)") (auto simp: less_Suc_eq_le add_mono length_dropWhile_le le_SucI)

declare like.simps(2) [simp del]

text \<open>The last instant of a timestamp, in microseconds of the epoch; adding an interval may overflow.\<close>

definition END_TIMESTAMP :: int where "END_TIMESTAMP = 9224318016000000000"

definition add_interval :: "int \<Rightarrow> int \<Rightarrow> int option" where
  "add_interval t seconds =
     (if seconds * 1000000 \<ge> 2 ^ 63 \<or> t + seconds * 1000000 \<ge> END_TIMESTAMP then None else Some (t + seconds * 1000000))"

text \<open>\<open>COALESCE(last_pulled_at, last_pushed_at, created_at)\<close>; the second column is not null.\<close>

definition anchor :: "image_row \<Rightarrow> int" where
  "anchor i = (case im_last_pulled_at i of None \<Rightarrow> im_last_pushed_at i | Some t \<Rightarrow> t)"

definition in_scope :: "repository_scope \<Rightarrow> image_row \<Rightarrow> bool" where
  "in_scope scope i = (case sp_values scope of None \<Rightarrow> True
     | Some ids \<Rightarrow> list_ex (\<lambda>x. uuid_parse x = Some (im_repository_id i)) ids)"

text \<open>\<open>ORDER BY last_pushed_at DESC, created_at DESC, tag DESC\<close>: strictly before; nulls come first.\<close>

definition ranks_before :: "(string \<Rightarrow> string \<Rightarrow> bool) \<Rightarrow> image_row \<Rightarrow> image_row \<Rightarrow> bool" where
  "ranks_before le a b =
     (if im_last_pushed_at a \<noteq> im_last_pushed_at b then im_last_pushed_at a > im_last_pushed_at b
      else if im_created_at a \<noteq> im_created_at b then
        (case (im_created_at a, im_created_at b) of
           (None, _) \<Rightarrow> True | (Some _, None) \<Rightarrow> False | (Some x, Some y) \<Rightarrow> x > y)
      else im_tag a \<noteq> im_tag b \<and> le (im_tag b) (im_tag a))"

definition keep_latest_images :: "repository_scope \<Rightarrow> database \<Rightarrow> (image_row \<times> repo_row) list" where
  "keep_latest_images scope db =
     filter (\<lambda>(i, r). in_scope scope i \<and> im_retention_mode i = KeepLatest \<and> im_provenance i \<noteq> Mirror) (join_repos db)"

definition row_num :: "(string \<Rightarrow> string \<Rightarrow> bool) \<Rightarrow> (image_row \<times> repo_row) list \<Rightarrow> image_row \<Rightarrow> nat" where
  "row_num le rows i =
     Suc (length (filter (\<lambda>(b, _). im_repository_id b = im_repository_id i \<and> ranks_before le b i) rows))"

definition expired_ttl_images :: "repository_scope \<Rightarrow> int \<Rightarrow> database \<Rightarrow> (image_row \<times> repo_row) list" where
  "expired_ttl_images scope now db =
     filter (\<lambda>(i, r). in_scope scope i \<and> im_retention_mode i = Ttl
       \<and> (case im_expires_at i of None \<Rightarrow> False | Some t \<Rightarrow> t \<le> now)) (join_repos db)"

text \<open>Where the interval arithmetic is evaluated, its seconds; \<open>None\<close> elsewhere.\<close>

definition idle_seconds :: "repository_scope \<Rightarrow> image_row \<Rightarrow> int option" where
  "idle_seconds scope i =
     (if in_scope scope i \<and> im_retention_mode i = Idle \<and> im_provenance i \<noteq> Mirror then im_retention_value i else None)"

definition longest_prefix :: "(string \<times> int) list \<Rightarrow> (string \<times> int) option" where
  "longest_prefix xs = find (\<lambda>(p, s). list_all (\<lambda>(q, _). code_points q \<le> code_points p) xs) xs"

definition mirror_resolved_retention ::
  "(string \<Rightarrow> (string \<times> int) list \<Rightarrow> (string \<times> int) list) \<Rightarrow> (string \<times> int) list \<Rightarrow> int \<Rightarrow> image_row \<Rightarrow> int" where
  "mirror_resolved_retention ties overrides default_idle i =
     (let matching = (case im_upstream_ref i of None \<Rightarrow> []
                      | Some ref \<Rightarrow> filter (\<lambda>(p, s). like ref (p @ ''%'')) overrides) in
      case longest_prefix (ties (im_id i) matching) of None \<Rightarrow> default_idle | Some (p, s) \<Rightarrow> s)"

definition mirror_seconds :: "(image_row \<Rightarrow> int) \<Rightarrow> repository_scope \<Rightarrow> image_row \<Rightarrow> int option" where
  "mirror_seconds resolved scope i =
     (if in_scope scope i \<and> im_provenance i = Mirror \<and> im_retention_mode i \<noteq> Ttl
      then Some (case im_retention_value i of None \<Rightarrow> resolved i | Some s \<Rightarrow> s) else None)"

definition idle_expired :: "(image_row \<Rightarrow> int option) \<Rightarrow> int \<Rightarrow> database \<Rightarrow> (image_row \<times> repo_row) list option" where
  "idle_expired secs now db =
     (if list_ex (\<lambda>(i, r). case secs i of None \<Rightarrow> False | Some s \<Rightarrow> add_interval (anchor i) s = None) (join_repos db) then None
      else Some (filter (\<lambda>(i, r). case secs i of None \<Rightarrow> False | Some s \<Rightarrow> the (add_interval (anchor i) s) \<le> now) (join_repos db)))"

text \<open>The namespace guard.\<close>

definition repo_path :: "repo_row \<Rightarrow> string" where
  "repo_path r = re_organization r @ ''/'' @ re_name r"

definition is_protected :: "string list \<Rightarrow> string \<Rightarrow> bool" where
  "is_protected namespaces path = list_ex (\<lambda>p. path = p \<or> like path (p @ ''/%'')) namespaces"

fun insert_by :: "('a \<Rightarrow> 'a \<Rightarrow> bool) \<Rightarrow> 'a \<Rightarrow> 'a list \<Rightarrow> 'a list" where
  "insert_by le x [] = [x]"
| "insert_by le x (y # ys) = (if le x y then x # y # ys else y # insert_by le x ys)"

definition sort_by :: "('a \<Rightarrow> 'a \<Rightarrow> bool) \<Rightarrow> 'a list \<Rightarrow> 'a list" where
  "sort_by le xs = foldr (insert_by le) xs []"

text \<open>\<open>ORDER BY organization, name, tag\<close>\<close>

definition row_le :: "(string \<Rightarrow> string \<Rightarrow> bool) \<Rightarrow> image_row \<times> repo_row \<Rightarrow> image_row \<times> repo_row \<Rightarrow> bool" where
  "row_le le a b =
     (if re_organization (snd a) \<noteq> re_organization (snd b) then le (re_organization (snd a)) (re_organization (snd b))
      else if re_name (snd a) \<noteq> re_name (snd b) then le (re_name (snd a)) (re_name (snd b))
      else le (im_tag (fst a)) (im_tag (fst b)))"

record reap_params =
  rp_scope :: repository_scope
  rp_default_idle :: int
  rp_overrides :: "(string \<times> int) list"
  rp_protected :: "string list"

definition params_ok :: "reap_params \<Rightarrow> bool" where
  "params_ok p \<longleftrightarrow>
     (case sp_values (rp_scope p) of None \<Rightarrow> True | Some ids \<Rightarrow> list_all (\<lambda>x. uuid_parse x \<noteq> None) ids)
     \<and> rp_default_idle p < 2 ^ 63 \<and> list_all (\<lambda>(u, s). s < 2 ^ 63 \<and> check_text u = None) (rp_overrides p)
     \<and> list_all (\<lambda>n. check_text n = None) (rp_protected p)"

definition outdated_images :: "(string \<Rightarrow> string \<Rightarrow> bool) \<Rightarrow> repository_scope \<Rightarrow> database \<Rightarrow> (image_row \<times> repo_row) list" where
  "outdated_images le scope db =
     (let rows = keep_latest_images scope db in filter (\<lambda>(i, r). row_num le rows i > 1) rows)"

definition select_stale_images ::
  "(string \<Rightarrow> string \<Rightarrow> bool) \<Rightarrow> (string \<Rightarrow> (string \<times> int) list \<Rightarrow> (string \<times> int) list) \<Rightarrow> reap_params \<Rightarrow> int \<Rightarrow> database
     \<Rightarrow> (image_row \<times> repo_row) list option" where
  "select_stale_images le ties p now db =
     (let scope = rp_scope p;
          resolved = mirror_resolved_retention ties (rp_overrides p) (rp_default_idle p) in
      if \<not> params_ok p then None
      else
        (case (idle_expired (idle_seconds scope) now db, idle_expired (mirror_seconds resolved scope) now db) of
           (Some idle, Some mirror) \<Rightarrow>
             (let candidates = outdated_images le scope db @ expired_ttl_images scope now db @ idle @ mirror in
              Some (take 500 (sort_by (row_le le)
                (filter (\<lambda>(i, r). \<not> is_protected (rp_protected p) (repo_path r)) candidates))))
         | _ \<Rightarrow> None))"

section \<open>The reap\<close>

definition manifest_headers :: "(string \<times> string) list" where
  "manifest_headers = [(''Accept'', join_with '', '' [''application/vnd.docker.distribution.manifest.v2+json'',
     ''application/vnd.oci.image.manifest.v1+json'', ''application/vnd.oci.image.index.v1+json''])]"

definition registry_request :: "'a hook_services_scheme \<Rightarrow> string \<Rightarrow> string \<Rightarrow> string \<Rightarrow> http_request" where
  "registry_request sv verb path reference =
     \<lparr>rq_method = verb, rq_url = registry_url (hs_env sv) @ ''/v2/'' @ path @ ''/manifests/'' @ reference, rq_params = [],
      rq_headers = manifest_headers, rq_timeout = 0, rq_body = []\<rparr>"

definition get_digest_for_tag :: "'a hook_services_scheme \<Rightarrow> string \<Rightarrow> string \<Rightarrow> 'w world_scheme
     \<Rightarrow> (string + string option) \<times> 'w world_scheme" where
  "get_digest_for_tag sv path tag w =
     (let (response, w1) = fetch_request sv (registry_request sv ''HEAD'' path tag) w in
      case response of
        Inl e \<Rightarrow> (Inl e, w1)
      | Inr r \<Rightarrow>
          (if rs_status r = 404 then (Inr None, w1)
           else
             (let digest = header_of ''docker-content-digest'' r in
              case (if truthy digest then digest else header_of ''etag'' r) of
                None \<Rightarrow> (Inl (''missing docker-content-digest header for '' @ path @ '':'' @ tag), w1)
              | Some d \<Rightarrow> (Inr (Some (filter (\<lambda>c. c \<noteq> CHR 0x22) d)), w1))))"

definition remove_row :: "'a hook_services_scheme \<Rightarrow> image_row \<Rightarrow> 'w hook_world_scheme \<Rightarrow> bool \<times> 'w hook_world_scheme" where
  "remove_row sv i = pg_statement sv [] (\<lambda>_. delete_image (im_id i))"

definition find_digest :: "'a hook_services_scheme \<Rightarrow> image_row \<times> repo_row \<Rightarrow> 'w world_scheme
     \<Rightarrow> (string + string option) \<times> 'w world_scheme" where
  "find_digest sv ir w =
     (if truthy (im_digest (fst ir)) then (Inr (im_digest (fst ir)), w)
      else get_digest_for_tag sv (repo_path (snd ir)) (im_tag (fst ir)) w)"

text \<open>The body of the loop; whatever throws in it is caught there.\<close>

definition reap_row :: "'a hook_services_scheme \<Rightarrow> image_row \<times> repo_row \<Rightarrow> 'w hook_world_scheme \<Rightarrow> 'w hook_world_scheme" where
  "reap_row sv ir w =
     (let (i, r) = ir; (digest, w1) = find_digest sv ir w in
      case digest of
        Inl _ \<Rightarrow> w1
      | Inr None \<Rightarrow> snd (remove_row sv i w1)
      | Inr (Some d) \<Rightarrow>
          (let (response, w2) = fetch_request sv (registry_request sv ''DELETE'' (repo_path r) d) w1 in
           case response of
             Inl _ \<Rightarrow> w2
           | Inr resp \<Rightarrow>
               (if rs_status resp = 202 \<or> rs_status resp = 204 \<or> rs_status resp = 404 then
                  (let (ok, w3) = remove_row sv i w2 in
                   if ok then snd (remove_cached_image sv (repo_path r @ '':'' @ im_tag i) w3) else w3)
                else w2)))"

definition reap_params_of :: "env \<Rightarrow> string list option \<Rightarrow> reap_params" where
  "reap_params_of env ids =
     \<lparr>rp_scope = build_repository_scope (normalize_repository_ids ids), rp_default_idle = parse_mirror_default_idle_seconds env,
      rp_overrides = parse_mirror_upstream_retention_map env None, rp_protected = parse_protected_namespaces env None\<rparr>"

text \<open>The number of rows selected, or \<open>None\<close> where it throws.\<close>

definition reap_obsolete_images :: "'a hook_services_scheme \<Rightarrow> string list option \<Rightarrow> 'w hook_world_scheme
     \<Rightarrow> nat option \<times> 'w hook_world_scheme" where
  "reap_obsolete_images sv repository_ids w =
     (let p = reap_params_of (hs_env sv) repository_ids; n = hw_sessions w; w1 = w\<lparr>hw_sessions := Suc n\<rparr> in
      case hs_session sv n of
        ConnectFails \<Rightarrow> (None, w1)
      | Connected fault \<Rightarrow>
          (let now = hs_pg_now sv (hw_statements w1); w2 = w1\<lparr>hw_statements := Suc (hw_statements w1)\<rparr> in
           case (if fault \<noteq> NoFault then None else select_stale_images (hs_collate sv) (hs_ties sv) p now (hw_db w2)) of
             None \<Rightarrow> (None, w2)
           | Some rows \<Rightarrow> (Some (length rows), fold (reap_row sv) rows w2)))"

section \<open>Lemmas: sorting and selection\<close>

lemma mset_insert_by [simp]: "mset (insert_by le x xs) = add_mset x (mset xs)"
  by (induction xs) auto

lemma mset_sort_by [simp]: "mset (sort_by le xs) = mset xs"
  by (induction xs) (simp_all add: sort_by_def)

lemma set_sort_by [simp]: "set (sort_by le xs) = set xs"
  by (metis mset_sort_by set_mset_mset)

lemma length_sort_by [simp]: "length (sort_by le xs) = length xs"
  by (metis mset_sort_by size_mset)

lemma sorted_insert_by:
  assumes "\<And>a b. le a b \<or> le b a" and "\<And>a b c. le a b \<Longrightarrow> le b c \<Longrightarrow> le a c" and "sorted_wrt le xs"
  shows "sorted_wrt le (insert_by le x xs)"
  using assms(3)
proof (induction xs)
  case (Cons y ys)
  show ?case
  proof (cases "le x y")
    case True
    with Cons.prems assms(2) show ?thesis by auto
  next
    case False
    then have "le y x" using assms(1) by blast
    moreover have "set (insert_by le x ys) = insert x (set ys)" by (metis mset_insert_by set_mset_add_mset_insert set_mset_mset)
    ultimately show ?thesis using Cons False by simp
  qed
qed simp

lemma sorted_sort_by:
  assumes "\<And>a b. le a b \<or> le b a" and "\<And>a b c. le a b \<Longrightarrow> le b c \<Longrightarrow> le a c"
  shows "sorted_wrt le (sort_by le xs)"
  by (induction xs) (simp_all add: sort_by_def sorted_insert_by [OF assms, unfolded sort_by_def])

lemma char_code_backslash: "char_code c = (92 :: nat) \<longleftrightarrow> c = CHR 0x5C"
proof
  assume "char_code c = (92 :: nat)"
  then have "c = char_of (92 :: nat)" by (metis char_of_char)
  also have "char_of (92 :: nat) = CHR 0x5C" by code_simp
  finally show "c = CHR 0x5C" .
qed simp

lemma like_any: "like t ''%''"
  by (induction t) (simp_all add: like.simps)

definition plain_ascii :: "string \<Rightarrow> bool" where
  "plain_ascii p \<longleftrightarrow> (\<forall>c \<in> set p. char_code c < (128 :: nat) \<and> c \<noteq> CHR 0x5C)"

lemma like_under: "plain_ascii p \<Longrightarrow> like (p @ CHR ''/'' # t) (p @ ''/%'')"
proof (induction p)
  case Nil
  have "like (CHR ''/'' # t) ''/%''" by (subst like.simps(2)) (simp add: like_any)
  then show ?case by simp
next
  case (Cons c p)
  let ?cont = "\<lambda>d. 128 \<le> char_code d \<and> char_code d < (192 :: nat)"
  have IH: "like (p @ CHR ''/'' # t) (p @ ''/%'')" and nb: "char_code c \<noteq> (92 :: nat)"
    using Cons by (auto simp: char_code_backslash plain_ascii_def)
  have skip: "dropWhile ?cont (p @ CHR ''/'' # t) = p @ CHR ''/'' # t"
    using Cons.prems by (cases p) (auto simp: plain_ascii_def)
  show ?case
  proof (cases "c = CHR ''%''")
    case True
    have "like (p @ CHR ''/'' # t) (CHR ''%'' # p @ ''/%'')" using IH by (subst like.simps) simp
    with True show ?thesis by (subst append_Cons, subst append_Cons, subst like.simps) simp
  qed (use IH nb skip in \<open>simp add: like.simps\<close>)
qed

lemma protected_under: "plain_ascii ns \<Longrightarrow> ns \<in> set namespaces \<Longrightarrow> under_namespace ns path \<Longrightarrow> is_protected namespaces path"
  using like_under by (auto simp: is_protected_def list_ex_iff under_namespace_iff)

text \<open>Every image is joined with its one repository.\<close>

lemma join_fst: "db_wf gen db \<Longrightarrow> map fst (join_repos db) = db_images db"
proof -
  assume wf: "db_wf gen db"
  have one: "map (\<lambda>_. i) (filter (\<lambda>r. re_id r = im_repository_id i) (db_repos db)) = [i]" if "i \<in> set (db_images db)" for i
  proof -
    from wf that have "im_repository_id i \<in> re_id ` set (db_repos db)" and d: "distinct (map re_id (db_repos db))"
      by (auto simp: db_wf_def)
    then obtain xs r ys where "db_repos db = xs @ r # ys" "re_id r = im_repository_id i" by (metis imageE in_set_conv_decomp)
    moreover from this d have "filter (\<lambda>r. re_id r = im_repository_id i) xs = []" "filter (\<lambda>r. re_id r = im_repository_id i) ys = []"
      by (auto simp: filter_empty_conv) (metis imageI)+
    ultimately show ?thesis by simp
  qed
  have "concat (map (\<lambda>i. map (\<lambda>_. i) (filter (\<lambda>r. re_id r = im_repository_id i) (db_repos db))) is) = is"
    if "set is \<subseteq> set (db_images db)" for "is"
    using that by (induction "is") (auto simp: one)
  then show ?thesis by (simp add: join_repos_def map_concat comp_def)
qed

lemma join_mem: "(i, r) \<in> set (join_repos db) \<Longrightarrow> i \<in> set (db_images db) \<and> r \<in> set (db_repos db) \<and> re_id r = im_repository_id i"
  by (auto simp: join_repos_def)

lemma join_distinct:
  assumes "db_wf gen db"
  shows "distinct (map (\<lambda>x. im_id (fst x)) (join_repos db))"
proof -
  have "map (\<lambda>x. im_id (fst x)) (join_repos db) = map im_id (db_images db)"
    unfolding join_fst [OF assms, symmetric] by simp
  with assms show ?thesis by (simp add: db_wf_def)
qed

text \<open>What the four branches say together about one image.\<close>

definition keeps_latest :: "image_row \<Rightarrow> bool" where
  "keeps_latest i \<longleftrightarrow> im_retention_mode i = KeepLatest \<and> im_provenance i \<noteq> Mirror"

definition obsolete :: "(string \<Rightarrow> string \<Rightarrow> bool) \<Rightarrow> (image_row \<Rightarrow> int) \<Rightarrow> repository_scope \<Rightarrow> int \<Rightarrow> database \<Rightarrow> image_row \<Rightarrow> bool" where
  "obsolete le resolved scope now db i \<longleftrightarrow> in_scope scope i \<and>
     (if im_retention_mode i = Ttl then (\<exists>t. im_expires_at i = Some t \<and> t \<le> now)
      else if im_provenance i = Mirror then
        anchor i + (case im_retention_value i of None \<Rightarrow> resolved i | Some s \<Rightarrow> s) * 1000000 \<le> now
      else if im_retention_mode i = Idle then (\<exists>s. im_retention_value i = Some s \<and> anchor i + s * 1000000 \<le> now)
      else (\<exists>b \<in> set (db_images db). keeps_latest b \<and> im_repository_id b = im_repository_id i \<and> ranks_before le b i))"

lemma keep_latest_images_alt:
  "keep_latest_images scope db = filter (\<lambda>(i, r). in_scope scope i \<and> keeps_latest i) (join_repos db)"
  by (simp add: keep_latest_images_def keeps_latest_def)

lemma outdated_images_filter:
  assumes "db_wf gen db"
  shows "outdated_images le scope db = filter (\<lambda>(i, r). in_scope scope i \<and> keeps_latest i \<and>
     (\<exists>b \<in> set (db_images db). keeps_latest b \<and> im_repository_id b = im_repository_id i \<and> ranks_before le b i)) (join_repos db)"
proof -
  have partition: "row_num le (keep_latest_images scope db) i > 1 \<longleftrightarrow>
      (\<exists>b \<in> set (db_images db). keeps_latest b \<and> im_repository_id b = im_repository_id i \<and> ranks_before le b i)"
    if "in_scope scope i" for i
  proof -
    have sc: "in_scope scope b" if "im_repository_id b = im_repository_id i" for b
      using \<open>in_scope scope i\<close> unfolding in_scope_def that .
    have "row_num le (keep_latest_images scope db) i > 1 \<longleftrightarrow>
        (\<exists>x \<in> set (join_repos db). keeps_latest (fst x) \<and> im_repository_id (fst x) = im_repository_id i \<and> ranks_before le (fst x) i)"
      using sc by (auto simp: row_num_def keep_latest_images_def keeps_latest_def filter_empty_conv split_beta)
    also have "\<dots> \<longleftrightarrow> (\<exists>b \<in> set (map fst (join_repos db)). keeps_latest b \<and> im_repository_id b = im_repository_id i \<and> ranks_before le b i)"
      by (simp only: set_map bex_simps)
    finally show ?thesis by (simp only: join_fst [OF assms])
  qed
  show ?thesis
    unfolding outdated_images_def Let_def
    by (subst (2) keep_latest_images_alt) (auto simp: partition simp del: One_nat_def intro!: filter_cong)
qed

lemma filter_union_mset:
  "(\<And>x. x \<in> set xs \<Longrightarrow> \<not> (P x \<and> Q x)) \<Longrightarrow> mset (filter P xs) + mset (filter Q xs) = mset (filter (\<lambda>x. P x \<or> Q x) xs)"
  by (induction xs) auto

lemma idle_expired_filter:
  assumes "idle_expired secs now db = Some rows"
  shows "rows = filter (\<lambda>(i, r). \<exists>s. secs i = Some s \<and> anchor i + s * 1000000 \<le> now) (join_repos db)"
proof -
  have ok: "add_interval (anchor i) s = Some (anchor i + s * 1000000)" if "(i, r) \<in> set (join_repos db)" "secs i = Some s" for i r s
  proof -
    have "add_interval (anchor i) s \<noteq> None" using assms that by (auto simp: idle_expired_def list_ex_iff split: if_splits)
    then show ?thesis by (simp add: add_interval_def split: if_splits)
  qed
  have "rows = filter (\<lambda>(i, r). case secs i of None \<Rightarrow> False | Some s \<Rightarrow> the (add_interval (anchor i) s) \<le> now) (join_repos db)"
    using assms by (auto simp: idle_expired_def split: if_splits)
  also have "\<dots> = filter (\<lambda>(i, r). \<exists>s. secs i = Some s \<and> anchor i + s * 1000000 \<le> now) (join_repos db)"
    using ok by (auto intro!: filter_cong split: option.splits)
  finally show ?thesis .
qed

abbreviation resolved_of where
  "resolved_of ties p \<equiv> mirror_resolved_retention ties (rp_overrides p) (rp_default_idle p)"

definition reapable :: "(string \<Rightarrow> string \<Rightarrow> bool) \<Rightarrow> (string \<Rightarrow> (string \<times> int) list \<Rightarrow> (string \<times> int) list) \<Rightarrow> reap_params
     \<Rightarrow> int \<Rightarrow> database \<Rightarrow> image_row \<times> repo_row \<Rightarrow> bool" where
  "reapable le ties p now db x \<longleftrightarrow>
     \<not> is_protected (rp_protected p) (repo_path (snd x)) \<and> obsolete le (resolved_of ties p) (rp_scope p) now db (fst x)"

lemma select_stale_mset:
  assumes wf: "db_wf gen db" and sel: "select_stale_images le ties p now db = Some rows"
  obtains cands where "rows = take 500 (sort_by (row_le le) cands)"
    "mset cands = mset (filter (reapable le ties p now db) (join_repos db))"
proof -
  let ?sc = "rp_scope p" and ?j = "join_repos db" and ?np = "\<lambda>(i, r). \<not> is_protected (rp_protected p) (repo_path r)"
  from sel obtain idle mirror where
    idle: "idle_expired (idle_seconds ?sc) now db = Some idle" and
    mirror: "idle_expired (mirror_seconds (resolved_of ties p) ?sc) now db = Some mirror" and
    rows: "rows = take 500 (sort_by (row_le le) (filter ?np (outdated_images le ?sc db @ expired_ttl_images ?sc now db @ idle @ mirror)))"
    by (auto simp: select_stale_images_def Let_def split: if_splits option.splits)
  let ?K = "\<lambda>(i, r). in_scope ?sc i \<and> keeps_latest i \<and>
     (\<exists>b \<in> set (db_images db). keeps_latest b \<and> im_repository_id b = im_repository_id i \<and> ranks_before le b i)"
  let ?T = "\<lambda>(i, r :: repo_row). in_scope ?sc i \<and> im_retention_mode i = Ttl
       \<and> (case im_expires_at i of None \<Rightarrow> False | Some t \<Rightarrow> t \<le> now)"
  let ?I = "\<lambda>(i, r :: repo_row). \<exists>s. idle_seconds ?sc i = Some s \<and> anchor i + s * 1000000 \<le> now"
  let ?M = "\<lambda>(i, r :: repo_row). \<exists>s. mirror_seconds (resolved_of ties p) ?sc i = Some s \<and> anchor i + s * 1000000 \<le> now"
  have im: "mset (filter ?I ?j) + mset (filter ?M ?j) = mset (filter (\<lambda>x. ?I x \<or> ?M x) ?j)"
    by (rule filter_union_mset) (auto simp: idle_seconds_def mirror_seconds_def split: if_splits)
  have tim: "mset (filter ?T ?j) + mset (filter (\<lambda>x. ?I x \<or> ?M x) ?j) = mset (filter (\<lambda>x. ?T x \<or> ?I x \<or> ?M x) ?j)"
    by (rule filter_union_mset) (auto simp: idle_seconds_def mirror_seconds_def split: if_splits)
  have ktim: "mset (filter ?K ?j) + mset (filter (\<lambda>x. ?T x \<or> ?I x \<or> ?M x) ?j) = mset (filter (\<lambda>x. ?K x \<or> ?T x \<or> ?I x \<or> ?M x) ?j)"
    by (rule filter_union_mset) (auto simp: keeps_latest_def idle_seconds_def mirror_seconds_def split: if_splits)
  have spec: "(?K x \<or> ?T x \<or> ?I x \<or> ?M x) \<longleftrightarrow> obsolete le (resolved_of ties p) ?sc now db (fst x)" for x
    by (cases x, cases "im_retention_mode (fst x)")
      (auto simp: obsolete_def keeps_latest_def idle_seconds_def mirror_seconds_def split: option.split)
  let ?cands = "filter ?np (outdated_images le ?sc db @ expired_ttl_images ?sc now db @ idle @ mirror)"
  have "mset (outdated_images le ?sc db @ expired_ttl_images ?sc now db @ idle @ mirror)
      = mset (filter (\<lambda>x. obsolete le (resolved_of ties p) ?sc now db (fst x)) ?j)"
    unfolding outdated_images_filter [OF wf] expired_ttl_images_def idle_expired_filter [OF idle] idle_expired_filter [OF mirror]
      mset_append im tim ktim spec ..
  then have "mset ?cands = mset (filter ?np (filter (\<lambda>x. obsolete le (resolved_of ties p) ?sc now db (fst x)) ?j))"
    by (simp only: mset_filter)
  also have "\<dots> = mset (filter (reapable le ties p now db) ?j)"
    by (simp add: reapable_def [abs_def] split_beta conj_commute)
  finally show thesis using that rows by blast
qed

section \<open>Lemmas: the order of tags\<close>

text \<open>A collation is a linear order of texts.\<close>

definition collation :: "(string \<Rightarrow> string \<Rightarrow> bool) \<Rightarrow> bool" where
  "collation le \<longleftrightarrow> (\<forall>a b. le a b \<or> le b a) \<and> (\<forall>a b c. le a b \<longrightarrow> le b c \<longrightarrow> le a c) \<and> (\<forall>a b. le a b \<longrightarrow> le b a \<longrightarrow> a = b)"

lemma row_le_total: "collation le \<Longrightarrow> row_le le a b \<or> row_le le b a"
  by (simp add: row_le_def collation_def)

lemma row_le_trans: "collation le \<Longrightarrow> row_le le a b \<Longrightarrow> row_le le b c \<Longrightarrow> row_le le a c"
  unfolding row_le_def collation_def by (smt (verit))

lemma ranks_before_asym: "collation le \<Longrightarrow> ranks_before le a b \<Longrightarrow> \<not> ranks_before le b a"
  by (cases "im_created_at a"; cases "im_created_at b") (auto simp: ranks_before_def collation_def split: if_splits)

lemma ranks_before_trans:
  assumes "collation le" and ab: "ranks_before le a b" and bc: "ranks_before le b c"
  shows "ranks_before le a c"
proof -
  consider "im_last_pushed_at a > im_last_pushed_at b" | "im_last_pushed_at a = im_last_pushed_at b" "im_last_pushed_at b > im_last_pushed_at c"
    | "im_last_pushed_at a = im_last_pushed_at b" "im_last_pushed_at b = im_last_pushed_at c"
    using ab bc by (auto simp: ranks_before_def split: if_splits)
  then show ?thesis
  proof cases
    case 3
    let ?c = "\<lambda>x y. case (x, y) of (None, _) \<Rightarrow> True | (Some _, None) \<Rightarrow> False | (Some (x :: int), Some y) \<Rightarrow> x > y"
    have created: "x \<noteq> y \<Longrightarrow> ?c x y \<Longrightarrow> y \<noteq> z \<Longrightarrow> ?c y z \<Longrightarrow> x \<noteq> z \<and> ?c x z" for x y z
      by (auto split: option.splits)
    from 3 assms created show ?thesis
      unfolding ranks_before_def collation_def by (smt (verit))
  qed (use ab bc in \<open>auto simp: ranks_before_def split: if_splits\<close>)
qed

text \<open>So every repository with a keep-latest image has a newest one, and that one is never selected.\<close>

lemma newest_exists:
  assumes "collation le" and "i \<in> set (db_images db)" and "keeps_latest i"
  obtains m where "m \<in> set (db_images db)" "keeps_latest m" "im_repository_id m = im_repository_id i"
    "\<And>b. b \<in> set (db_images db) \<Longrightarrow> keeps_latest b \<Longrightarrow> im_repository_id b = im_repository_id i \<Longrightarrow> \<not> ranks_before le b m"
proof -
  let ?S = "{b \<in> set (db_images db). keeps_latest b \<and> im_repository_id b = im_repository_id i}"
  have "\<exists>m \<in> ?S. \<forall>x \<in> ?S. x \<noteq> m \<longrightarrow> \<not> ranks_before le x m"
  proof (rule Finite_Set.bex_min_element)
    show "asymp_on ?S (ranks_before le)" using ranks_before_asym [OF assms(1)] by (auto intro: asymp_onI)
    show "transp_on ?S (ranks_before le)" using ranks_before_trans [OF assms(1)] by (auto intro: transp_onI)
  qed (use assms in auto)
  then obtain m where m: "m \<in> ?S" "\<forall>x \<in> ?S. x \<noteq> m \<longrightarrow> \<not> ranks_before le x m" by blast
  show thesis
  proof (rule that)
    fix b assume "b \<in> set (db_images db)" "keeps_latest b" "im_repository_id b = im_repository_id i"
    with m show "\<not> ranks_before le b m" using ranks_before_asym [OF assms(1), of b m] by (cases "b = m") auto
  qed (use m in auto)
qed

section \<open>Lemmas: the reap\<close>

definition registry_confirms :: "'a hook_services_scheme \<Rightarrow> http_request list \<Rightarrow> image_row \<times> repo_row \<Rightarrow> bool" where
  "registry_confirms sv sent ir \<longleftrightarrow> (\<exists>pre req post resp. sent = pre @ req # post \<and> sv_net sv pre req = Inr resp \<and>
     ((\<exists>d. req = registry_request sv ''DELETE'' (repo_path (snd ir)) d \<and> rs_status resp \<in> {202, 204, 404})
      \<or> req = registry_request sv ''HEAD'' (repo_path (snd ir)) (im_tag (fst ir)) \<and> rs_status resp = 404))"

lemma registry_confirms_more: "registry_confirms sv sent ir \<Longrightarrow> registry_confirms sv (sent @ later) ir"
  unfolding registry_confirms_def by fastforce

lemma find_digest_world:
  assumes "find_digest sv ir w = (res, w1)"
  shows "\<exists>reqs. w1 = w\<lparr>w_sent := w_sent w @ reqs\<rparr> \<and> (res = Inr None \<longrightarrow> registry_confirms sv (w_sent w1) ir)"
proof (cases "truthy (im_digest (fst ir))")
  case True
  with assms show ?thesis by (auto simp: find_digest_def truthy_def intro!: exI [of _ "[]"])
next
  case False
  let ?req = "registry_request sv ''HEAD'' (repo_path (snd ir)) (im_tag (fst ir))"
  obtain out w2 where f: "fetch_request sv ?req w = (out, w2)" by force
  note w2 = fetch_request_next [OF f]
  have w1: "w1 = w2"
    using assms False f by (auto simp: find_digest_def get_digest_for_tag_def Let_def split: sum.splits if_splits option.splits)
  have "registry_confirms sv (w_sent w2) ir" if "res = Inr None"
  proof -
    have "\<exists>r. out = Inr r \<and> rs_status r = 404"
      using assms False f that by (auto simp: find_digest_def get_digest_for_tag_def Let_def split: sum.splits if_splits option.splits)
    then obtain r where r: "out = Inr r" "rs_status r = 404" by blast
    from fetch_request_ok [OF f [unfolded r(1)]] r(2) show ?thesis
      unfolding registry_confirms_def
      by (intro exI [of _ "w_sent w"] exI [of _ ?req] exI [of _ "[]"] exI [of _ r]) simp
  qed
  with w1 w2 show ?thesis by auto
qed

lemma remove_row_effect:
  "(hw_db (snd (remove_row sv i w)) = hw_db w \<or> hw_db (snd (remove_row sv i w)) = delete_image (im_id i) (hw_db w))
   \<and> w_sent (snd (remove_row sv i w)) = w_sent w"
  using pg_statement_db [of sv "[]" "\<lambda>_. delete_image (im_id i)" w] by (auto simp: remove_row_def)

lemma reap_row_effect:
  fixes w :: "'w hook_world_scheme"
  shows "\<exists>reqs. w_sent (reap_row sv ir w) = w_sent w @ reqs \<and>
     (hw_db (reap_row sv ir w) = hw_db w \<or>
      hw_db (reap_row sv ir w) = delete_image (im_id (fst ir)) (hw_db w) \<and> registry_confirms sv (w_sent (reap_row sv ir w)) ir)"
proof -
  obtain i r where ir: "ir = (i, r)" by (cases ir)
  obtain res w1 where fd: "find_digest sv ir w = (res, w1)" by force
  from find_digest_world [OF fd] obtain reqs where
    w1: "w1 = w\<lparr>w_sent := w_sent w @ reqs\<rparr>" and none: "res = Inr None \<Longrightarrow> registry_confirms sv (w_sent w1) ir" by blast
  show ?thesis
  proof (cases res)
    case (Inl e)
    with fd ir have "reap_row sv ir w = w1" by (simp add: reap_row_def)
    with w1 show ?thesis by simp
  next
    case (Inr d)
    show ?thesis
    proof (cases d)
      case None
      with Inr fd ir have "reap_row sv ir w = snd (remove_row sv i w1)" by (simp add: reap_row_def)
      with none Inr None w1 remove_row_effect [of sv i w1] ir show ?thesis by auto
    next
      case (Some dg)
      let ?req = "registry_request sv ''DELETE'' (repo_path r) dg"
      obtain out w2 where f: "fetch_request sv ?req w1 = (out, w2)" by force
      note w2 = fetch_request_next [OF f]
      show ?thesis
      proof (cases "\<exists>resp. out = Inr resp \<and> rs_status resp \<in> {202, 204, 404}")
        case False
        with Inr Some fd f ir have "reap_row sv ir w = w2" by (auto simp: reap_row_def split: sum.split)
        with w1 w2 show ?thesis by simp
      next
        case True
        then obtain resp where resp: "out = Inr resp" "rs_status resp \<in> {202, 204, 404}" by blast
        have conf: "registry_confirms sv (w_sent w2) ir"
          using fetch_request_ok [OF f [unfolded resp(1)]] resp(2) ir
          unfolding registry_confirms_def by (intro exI [of _ "w_sent w1"] exI [of _ ?req] exI [of _ "[]"] exI [of _ resp]) auto
        let ?w3 = "snd (remove_row sv i w2)"
        have "redis_only ?w3 (reap_row sv ir w)"
          using Inr Some fd f ir resp remove_cached_image_only by (auto simp: reap_row_def case_prod_beta' Let_def)
        from redis_only_frame [OF this] have "hw_db (reap_row sv ir w) = hw_db ?w3" "w_sent (reap_row sv ir w) = w_sent ?w3" by simp_all
        with remove_row_effect [of sv i w2] conf w1 w2 ir show ?thesis by auto
      qed
    qed
  qed
qed

text \<open>A run of the loop deletes some of its rows, each after the registry confirmed it.\<close>

lemma reap_rows_effect:
  fixes w :: "'w hook_world_scheme"
  shows "\<exists>removed reqs. hw_db (fold (reap_row sv) rows w) = (hw_db w)\<lparr>db_images := filter (\<lambda>i. im_id i \<notin> removed) (db_images (hw_db w))\<rparr>
     \<and> w_sent (fold (reap_row sv) rows w) = w_sent w @ reqs
     \<and> (\<forall>x \<in> removed. \<exists>ir \<in> set rows. im_id (fst ir) = x \<and> registry_confirms sv (w_sent w @ reqs) ir)"
proof (induction rows arbitrary: w)
  case Nil
  show ?case by (rule exI [of _ "{}"], rule exI [of _ "[]"]) simp
next
  case (Cons ir rows)
  let ?w1 = "reap_row sv ir w"
  from Cons obtain removed reqs where IH:
    "hw_db (fold (reap_row sv) rows ?w1) = (hw_db ?w1)\<lparr>db_images := filter (\<lambda>i. im_id i \<notin> removed) (db_images (hw_db ?w1))\<rparr>"
    "w_sent (fold (reap_row sv) rows ?w1) = w_sent ?w1 @ reqs"
    "\<forall>x \<in> removed. \<exists>ir \<in> set rows. im_id (fst ir) = x \<and> registry_confirms sv (w_sent ?w1 @ reqs) ir" by blast
  from reap_row_effect obtain reqs1 where r1: "w_sent ?w1 = w_sent w @ reqs1"
    "hw_db ?w1 = hw_db w \<or> hw_db ?w1 = delete_image (im_id (fst ir)) (hw_db w) \<and> registry_confirms sv (w_sent ?w1) ir" by blast
  from r1(2) show ?case
  proof
    assume "hw_db ?w1 = hw_db w"
    with IH r1 show ?thesis by (intro exI [of _ removed] exI [of _ "reqs1 @ reqs"]) auto
  next
    assume d: "hw_db ?w1 = delete_image (im_id (fst ir)) (hw_db w) \<and> registry_confirms sv (w_sent ?w1) ir"
    then have "registry_confirms sv (w_sent ?w1 @ reqs) ir" using registry_confirms_more by blast
    with IH r1 d show ?thesis
      by (intro exI [of _ "insert (im_id (fst ir)) removed"] exI [of _ "reqs1 @ reqs"])
        (auto simp: delete_image_def conj_commute)
  qed
qed

lemma reap_effect:
  fixes w :: "'w hook_world_scheme"
  assumes "reap_obsolete_images sv ids w = (res, w')"
  obtains removed reqs where "hw_db w' = (hw_db w)\<lparr>db_images := filter (\<lambda>i. im_id i \<notin> removed) (db_images (hw_db w))\<rparr>"
    "w_sent w' = w_sent w @ reqs"
    "\<And>x. x \<in> removed \<Longrightarrow> \<exists>rows ir. select_stale_images (hs_collate sv) (hs_ties sv) (reap_params_of (hs_env sv) ids) (hs_pg_now sv (hw_statements w)) (hw_db w) = Some rows
       \<and> ir \<in> set rows \<and> im_id (fst ir) = x \<and> registry_confirms sv (w_sent w') ir"
proof -
  consider "hw_db w' = hw_db w" "w_sent w' = w_sent w"
    | rows w2 where "select_stale_images (hs_collate sv) (hs_ties sv) (reap_params_of (hs_env sv) ids) (hs_pg_now sv (hw_statements w)) (hw_db w) = Some rows"
        "w' = fold (reap_row sv) rows w2" "hw_db w2 = hw_db w" "w_sent w2 = w_sent w"
    using assms by (auto simp: reap_obsolete_images_def Let_def split: session.splits option.splits if_splits)
  then show thesis
  proof cases
    case 1
    then show ?thesis using that [of "{}" "[]"] by simp
  next
    case (2 rows w2)
    from reap_rows_effect [of sv rows w2] obtain removed reqs where r:
      "hw_db (fold (reap_row sv) rows w2) = (hw_db w2)\<lparr>db_images := filter (\<lambda>i. im_id i \<notin> removed) (db_images (hw_db w2))\<rparr>"
      "w_sent (fold (reap_row sv) rows w2) = w_sent w2 @ reqs"
      "\<forall>x \<in> removed. \<exists>ir \<in> set rows. im_id (fst ir) = x \<and> registry_confirms sv (w_sent w2 @ reqs) ir" by blast
    have sent: "w_sent w' = w_sent w @ reqs" using r(2) 2 by simp
    show ?thesis
    proof (rule that [of removed reqs])
      show "hw_db w' = (hw_db w)\<lparr>db_images := filter (\<lambda>i. im_id i \<notin> removed) (db_images (hw_db w))\<rparr>" using r(1) 2 by simp
    next
      fix x assume "x \<in> removed"
      with r(3) obtain ir where "ir \<in> set rows" "im_id (fst ir) = x" "registry_confirms sv (w_sent w') ir"
        unfolding 2(4) sent by blast
      with 2(1) show "\<exists>rows ir. select_stale_images (hs_collate sv) (hs_ties sv) (reap_params_of (hs_env sv) ids) (hs_pg_now sv (hw_statements w)) (hw_db w) = Some rows
        \<and> ir \<in> set rows \<and> im_id (fst ir) = x \<and> registry_confirms sv (w_sent w') ir" by blast
    qed (rule sent)
  qed
qed

lemma selected_reapable:
  assumes "db_wf gen db" and "select_stale_images le ties p now db = Some rows" and "x \<in> set rows"
  shows "x \<in> set (join_repos db) \<and> reapable le ties p now db x"
proof -
  obtain cands where c: "rows = take 500 (sort_by (row_le le) cands)"
      "mset cands = mset (filter (reapable le ties p now db) (join_repos db))"
    by (rule select_stale_mset [OF assms(1,2)])
  have "x \<in> set cands" using assms(3) in_set_takeD unfolding c(1) by (metis set_sort_by)
  then have "x \<in> set (filter (reapable le ties p now db) (join_repos db))" using c(2) by (metis set_mset_mset)
  then show ?thesis by simp
qed

lemma same_id_same_image:
  "db_wf gen db \<Longrightarrow> i \<in> set (db_images db) \<Longrightarrow> j \<in> set (db_images db) \<Longrightarrow> im_id i = im_id j \<Longrightarrow> i = j"
  by (auto simp: db_wf_def distinct_map dest: inj_onD)

text \<open>An image the selection does not allow survives a reap.\<close>

lemma unreapable_survives:
  fixes w :: "'w hook_world_scheme"
  assumes "db_wf gen (hw_db w)" and "reap_obsolete_images sv ids w = (res, w')" and "i \<in> set (db_images (hw_db w))"
    and "\<And>r. (i, r) \<in> set (join_repos (hw_db w)) \<Longrightarrow>
       \<not> reapable (hs_collate sv) (hs_ties sv) (reap_params_of (hs_env sv) ids) (hs_pg_now sv (hw_statements w)) (hw_db w) (i, r)"
  shows "i \<in> set (db_images (hw_db w'))"
proof -
  obtain removed reqs where e: "hw_db w' = (hw_db w)\<lparr>db_images := filter (\<lambda>i. im_id i \<notin> removed) (db_images (hw_db w))\<rparr>"
      "\<And>x. x \<in> removed \<Longrightarrow> \<exists>rows ir. select_stale_images (hs_collate sv) (hs_ties sv) (reap_params_of (hs_env sv) ids) (hs_pg_now sv (hw_statements w)) (hw_db w) = Some rows
       \<and> ir \<in> set rows \<and> im_id (fst ir) = x \<and> registry_confirms sv (w_sent w') ir"
    using reap_effect [OF assms(2)] by blast
  have "im_id i \<notin> removed"
  proof
    assume "im_id i \<in> removed"
    with e(2) obtain rows j r where "select_stale_images (hs_collate sv) (hs_ties sv) (reap_params_of (hs_env sv) ids) (hs_pg_now sv (hw_statements w)) (hw_db w) = Some rows"
        "(j, r) \<in> set rows" "im_id j = im_id i" by fastforce
    from selected_reapable [OF assms(1) this(1,2)] this(3) have "(j, r) \<in> set (join_repos (hw_db w))" "im_id j = im_id i"
      "reapable (hs_collate sv) (hs_ties sv) (reap_params_of (hs_env sv) ids) (hs_pg_now sv (hw_statements w)) (hw_db w) (j, r)"
      by blast+
    with same_id_same_image [OF assms(1) assms(3)] assms(4) join_mem show False by metis
  qed
  with e(1) assms(3) show ?thesis by simp
qed

section \<open>Properties\<close>

text \<open>
  C13. The selection query computes its specification: of the images of the scope, those that are
  superseded in their repository, past their TTL, idle for too long or, mirrored, untouched for their
  upstream's retention, unless their repository is protected; each at most once although the query is
  a \<open>UNION ALL\<close> of four branches, in the order of organization, name and tag, and all of them unless
  there are 500.
\<close>

theorem reap_selection_exact:
  assumes wf: "db_wf gen db" and col: "collation le" and sel: "select_stale_images le ties p now db = Some rows"
  shows "sorted_wrt (row_le le) rows \<and> distinct (map (\<lambda>x. im_id (fst x)) rows) \<and> length rows \<le> 500
    \<and> set rows \<subseteq> {x \<in> set (join_repos db). reapable le ties p now db x}
    \<and> (length rows < 500 \<longrightarrow> set rows = {x \<in> set (join_repos db). reapable le ties p now db x})"
proof -
  obtain cands where c: "rows = take 500 (sort_by (row_le le) cands)"
      "mset cands = mset (filter (reapable le ties p now db) (join_repos db))"
    by (rule select_stale_mset [OF wf sel])
  have "set cands = set (filter (reapable le ties p now db) (join_repos db))" using c(2) by (metis set_mset_mset)
  then have all: "set (sort_by (row_le le) cands) = {x \<in> set (join_repos db). reapable le ties p now db x}" by simp
  have "mset (map (\<lambda>x. im_id (fst x)) (sort_by (row_le le) cands))
      = mset (map (\<lambda>x. im_id (fst x)) (filter (reapable le ties p now db) (join_repos db)))" by (simp add: c(2))
  moreover have "distinct (map (\<lambda>x. im_id (fst x)) (filter (reapable le ties p now db) (join_repos db)))"
    using join_distinct [OF wf] by (rule distinct_map_filter)
  ultimately have "distinct (map (\<lambda>x. im_id (fst x)) (sort_by (row_le le) cands))" using mset_eq_imp_distinct_iff by blast
  then have "distinct (map (\<lambda>x. im_id (fst x)) rows)" unfolding c(1) by (simp flip: take_map)
  moreover have "sorted_wrt (row_le le) rows"
    unfolding c(1) by (rule sorted_wrt_take, rule sorted_sort_by [OF row_le_total [OF col] row_le_trans [OF col]])
  moreover have "set rows \<subseteq> {x \<in> set (join_repos db). reapable le ties p now db x}" unfolding c(1) all [symmetric] by (rule set_take_subset)
  moreover have "length rows < 500 \<longrightarrow> set rows = {x \<in> set (join_repos db). reapable le ties p now db x}"
    unfolding c(1) all [symmetric] by auto
  moreover have "length rows \<le> 500" unfolding c(1) by simp
  ultimately show ?thesis by blast
qed

text \<open>
  C5. The reaper keeps the latest: whatever the registry and the database answer, after a reap every
  repository that had a keep-latest image still has its newest one.
\<close>

theorem newest_tag_survives:
  fixes w :: "'w hook_world_scheme"
  assumes wf: "db_wf gen (hw_db w)" and col: "collation (hs_collate sv)" and r: "reap_obsolete_images sv ids w = (res, w')"
    and i: "i \<in> set (db_images (hw_db w))" "keeps_latest i"
  shows "\<exists>m \<in> set (db_images (hw_db w')). m \<in> set (db_images (hw_db w)) \<and> keeps_latest m \<and> im_repository_id m = im_repository_id i
    \<and> (\<forall>b \<in> set (db_images (hw_db w)). keeps_latest b \<and> im_repository_id b = im_repository_id i \<longrightarrow> \<not> ranks_before (hs_collate sv) b m)"
proof -
  obtain m where m: "m \<in> set (db_images (hw_db w))" "keeps_latest m" "im_repository_id m = im_repository_id i"
      "\<And>b. b \<in> set (db_images (hw_db w)) \<Longrightarrow> keeps_latest b \<Longrightarrow> im_repository_id b = im_repository_id i
         \<Longrightarrow> \<not> ranks_before (hs_collate sv) b m"
    using newest_exists [OF col i] by blast
  have "m \<in> set (db_images (hw_db w'))"
  proof (rule unreapable_survives [OF wf r m(1)])
    show "\<not> reapable (hs_collate sv) (hs_ties sv) (reap_params_of (hs_env sv) ids) (hs_pg_now sv (hw_statements w)) (hw_db w) (m, x)" for x
      using m by (auto simp: reapable_def obsolete_def keeps_latest_def)
  qed
  with m show ?thesis by blast
qed

text \<open>
  C17. Protected namespaces are never touched: an image whose repository is a protected namespace or
  lies under one is there after every reap.
\<close>

theorem protected_namespace_survives:
  fixes w :: "'w hook_world_scheme"
  assumes wf: "db_wf gen (hw_db w)" and r: "reap_obsolete_images sv ids w = (res, w')"
    and ns: "ns \<in> set (parse_protected_namespaces (hs_env sv) None)" "plain_ascii ns"
    and i: "(i, rp) \<in> set (join_repos (hw_db w))" "under_namespace ns (repo_path rp)"
  shows "i \<in> set (db_images (hw_db w'))"
proof (rule unreapable_survives [OF wf r])
  show "i \<in> set (db_images (hw_db w))" using join_mem [OF i(1)] by blast
next
  fix x assume x: "(i, x) \<in> set (join_repos (hw_db w))"
  have d: "distinct (map re_id (db_repos (hw_db w)))" using wf by (simp add: db_wf_def)
  have m: "x \<in> set (db_repos (hw_db w))" "rp \<in> set (db_repos (hw_db w))" "re_id x = re_id rp"
    using join_mem [OF x] join_mem [OF i(1)] by simp_all
  then have "x = rp" using d by (auto simp: distinct_map dest: inj_onD)
  with protected_under [OF ns(2) ns(1) i(2)]
  show "\<not> reapable (hs_collate sv) (hs_ties sv) (reap_params_of (hs_env sv) ids) (hs_pg_now sv (hw_statements w)) (hw_db w) (i, x)"
    by (simp add: reapable_def reap_params_of_def)
qed

interpretation reap_store: image_store "db_inv gen" "range (\<lambda>i db. Inr ((), delete_image i db))" for gen
  by unfold_locales (auto dest: delete_image_inv)


section \<open>Instances\<close>

definition demo_gen :: "nat \<Rightarrow> string" where
  "demo_gen n = (if n < 4 then [''u1'', ''r1'', ''i1'', ''i2''] ! n else replicate n CHR ''x'')"

definition demo_hook_services :: hook_services where
  "demo_hook_services = \<lparr>sv_net = (\<lambda>_ _. Inr \<lparr>rs_status = 202, rs_headers = [], rs_data = JStr []\<rparr>), sv_hrtime = int,
     sv_date = (\<lambda>i. 1000 + int i), sv_metrics_enabled = True, hs_env = (\<lambda>_. None), hs_gen = demo_gen, hs_session = (\<lambda>_. Connected NoFault),
     hs_statement = (\<lambda>_. NoFault), hs_pg_now = (\<lambda>_. 10), hs_redis_ready = (\<lambda>_. False), hs_redis_reply = (\<lambda>_. RedisOk),
     hs_collate = (\<le>), hs_ties = (\<lambda>_ xs. xs), hs_param_text = js_String\<rparr>"

definition demo_hook_world :: hook_world where
  "demo_hook_world = \<lparr>w_sent = [], w_hr_reads = 0, w_date_reads = 0, w_metrics = [], w_pool_bound = False, hw_db = demo_database,
     hw_sessions = 0, hw_statements = 0, hw_redis = \<lparr>rd_current = [], rd_hashes = []\<rparr>, hw_redis_calls = 0\<rparr>"

lemma demo_collation: "collation ((\<le>) :: string \<Rightarrow> string \<Rightarrow> bool)"
  unfolding collation_def by (meson linear order_trans antisym)

lemma demo_database_wf: "db_wf demo_gen demo_database"
proof -
  have "{''u1'', ''r1'', ''i1'', ''i2''} \<subseteq> demo_gen ` {..<4}"
  proof -
    have "demo_gen ` {..<4} = demo_gen ` set [0, 1, 2, 3]" by (intro arg_cong [of _ _ "image demo_gen"]) auto
    then show ?thesis by (simp add: demo_gen_def)
  qed
  then show ?thesis by (simp add: db_wf_def demo_database_def demo_image_def)
qed

lemma demo_database_inv: "db_inv demo_gen demo_database"
proof -
  have "demo_gen m = demo_gen n \<Longrightarrow> m = n" for m n
  proof -
    have len: "length (demo_gen k) = (if k < 4 then 2 else k)" for k by (auto simp: demo_gen_def less_Suc_eq numeral_eq_Suc)
    assume e: "demo_gen m = demo_gen n"
    then have "length (demo_gen m) = length (demo_gen n)" by simp
    then consider "m < 4" "n < 4" | "m = n" unfolding len by (auto split: if_splits)
    then show "m = n" using e by cases (auto simp: demo_gen_def less_Suc_eq numeral_eq_Suc)
  qed
  then show ?thesis using demo_database_wf by (simp add: db_inv_def inj_def)
qed

lemma demo_params: "reap_params_of (\<lambda>_. None) None
   = \<lparr>rp_scope = \<lparr>sp_values = None, sp_label = ''all repositories''\<rparr>, rp_default_idle = 2592000, rp_overrides = [], rp_protected = [''wasm/std'']\<rparr>"
  by code_simp

lemma demo_join: "join_repos demo_database =
   [(demo_image ''i1'' ''a'' 5, \<lparr>re_id = ''r1'', re_organization = ''bob'', re_name = ''app'', re_user_id = Some ''u1''\<rparr>),
    (demo_image ''i2'' ''b'' 5, \<lparr>re_id = ''r1'', re_organization = ''bob'', re_name = ''app'', re_user_id = Some ''u1''\<rparr>)]"
  by (simp add: join_repos_def demo_database_def demo_image_def)

lemma demo_selected: "\<exists>rows. select_stale_images (\<le>) (\<lambda>_ xs. xs) (reap_params_of (\<lambda>_. None) None) 10 demo_database = Some rows"
  unfolding demo_params
  by (simp add: select_stale_images_def Let_def params_ok_def check_text_def idle_expired_def idle_seconds_def mirror_seconds_def
      demo_join demo_image_def list_ex_iff)

theorem reap_selection_exact_witness:
  "\<exists>rows. select_stale_images (\<le>) (\<lambda>_ xs. xs) (reap_params_of (\<lambda>_. None) None) 10 demo_database = Some rows
     \<and> distinct (map (\<lambda>x. im_id (fst x)) rows) \<and> length rows \<le> 500"
proof -
  obtain rows where s: "select_stale_images (\<le>) (\<lambda>_ xs. xs) (reap_params_of (\<lambda>_. None) None) 10 demo_database = Some rows"
    using demo_selected by blast
  from reap_selection_exact [OF demo_database_wf demo_collation s] s show ?thesis by blast
qed

theorem newest_tag_survives_witness:
  "\<exists>m \<in> set (db_images (hw_db (snd (reap_obsolete_images demo_hook_services None demo_hook_world)))). im_repository_id m = ''r1''"
proof -
  have db: "hw_db demo_hook_world = demo_database" by (simp add: demo_hook_world_def)
  have col: "collation (hs_collate demo_hook_services)" using demo_collation by (simp add: demo_hook_services_def)
  have i: "demo_image ''i1'' ''a'' 5 \<in> set (db_images (hw_db demo_hook_world))" "keeps_latest (demo_image ''i1'' ''a'' 5)"
    by (simp_all add: db demo_database_def keeps_latest_def demo_image_def)
  from newest_tag_survives [OF demo_database_wf [folded db] col prod.collapse [symmetric] i] show ?thesis
    by (auto simp: demo_image_def)
qed


text \<open>A repository under the protected namespace with a superseded tag.\<close>

definition demo_std_database :: database where
  "demo_std_database = demo_database\<lparr>db_repos := [\<lparr>re_id = ''r1'', re_organization = ''wasm'', re_name = ''std/http'', re_user_id = None\<rparr>]\<rparr>"

theorem protected_namespace_survives_witness:
  "demo_image ''i1'' ''a'' 5
     \<in> set (db_images (hw_db (snd (reap_obsolete_images demo_hook_services None (demo_hook_world\<lparr>hw_db := demo_std_database\<rparr>)))))"
proof -
  let ?w = "demo_hook_world\<lparr>hw_db := demo_std_database\<rparr>" and ?r = "\<lparr>re_id = ''r1'', re_organization = ''wasm'', re_name = ''std/http'', re_user_id = None\<rparr>"
  have wf: "db_wf demo_gen (hw_db ?w)"
    using demo_database_wf by (simp add: demo_std_database_def db_wf_def demo_database_def demo_image_def)
  have ns: "''wasm/std'' \<in> set (parse_protected_namespaces (hs_env demo_hook_services) None)" "plain_ascii ''wasm/std''"
  proof -
    have "parse_protected_namespaces (\<lambda>_. None) None = [''wasm/std'']" by code_simp
    then show "''wasm/std'' \<in> set (parse_protected_namespaces (hs_env demo_hook_services) None)" by (simp add: demo_hook_services_def)
    show "plain_ascii ''wasm/std''" by (simp add: plain_ascii_def)
  qed
  have i: "(demo_image ''i1'' ''a'' 5, ?r) \<in> set (join_repos (hw_db ?w))" "under_namespace ''wasm/std'' (repo_path ?r)"
    by (simp_all add: join_repos_def demo_std_database_def demo_database_def demo_image_def under_namespace_def repo_path_def starts_with_def)
  from protected_namespace_survives [OF wf prod.collapse [symmetric] ns i] show ?thesis .
qed

text \<open>
  The registry deletes manifests by digest, and the query does not look at digests: of two tags of one
  manifest the superseded one is reaped, and the manifest of the tag that is kept goes with it.
\<close>

lemma demo_stale:
  "select_stale_images (\<le>) (\<lambda>_ xs. xs) (reap_params_of (\<lambda>_. None) None) 10 demo_database
     = Some [(demo_image ''i1'' ''a'' 5, \<lparr>re_id = ''r1'', re_organization = ''bob'', re_name = ''app'', re_user_id = Some ''u1''\<rparr>)]"
proof -
  have ab: "(''a'' :: string) \<le> ''b'' = True" "(''b'' :: string) \<le> ''a'' = False" by code_simp+
  have np: "is_protected [''wasm/std''] ''bob/app'' = False" by code_simp
  show ?thesis
    unfolding demo_params
    by (simp add: select_stale_images_def Let_def params_ok_def check_text_def idle_expired_def idle_seconds_def mirror_seconds_def
      demo_join demo_image_def list_ex_iff outdated_images_def keep_latest_images_def in_scope_def row_num_def ranks_before_def ab
      expired_ttl_images_def sort_by_def repo_path_def np)
qed

theorem reap_deletes_shared_manifest:
  "let w = snd (reap_obsolete_images demo_hook_services None demo_hook_world) in
     w_sent w = [registry_request demo_hook_services ''DELETE'' ''bob/app'' ''sha256:d'']
     \<and> map (\<lambda>i. (im_tag i, im_digest i)) (db_images (hw_db w)) = [(''b'', Some ''sha256:d'')]"
proof -
  have sv: "hs_collate demo_hook_services = (\<le>)" "hs_ties demo_hook_services = (\<lambda>_ xs. xs)" "hs_env demo_hook_services = (\<lambda>_. None)"
    "hs_session demo_hook_services 0 = Connected NoFault" "hs_pg_now demo_hook_services 0 = 10"
    by (simp_all add: demo_hook_services_def)
  have url: "get_redis_url (hs_env demo_hook_services) = None" unfolding sv by code_simp
  let ?x = "(demo_image ''i1'' ''a'' 5, \<lparr>re_id = ''r1'', re_organization = ''bob'', re_name = ''app'', re_user_id = Some ''u1''\<rparr>)"
  let ?w = "demo_hook_world\<lparr>hw_sessions := Suc 0, hw_statements := Suc 0\<rparr>"
  have w: "hw_sessions demo_hook_world = 0" "hw_statements demo_hook_world = 0" "hw_db demo_hook_world = demo_database"
    "w_sent demo_hook_world = []"
    by (simp_all add: demo_hook_world_def)
  have reap: "snd (reap_obsolete_images demo_hook_services None demo_hook_world) = reap_row demo_hook_services ?x ?w"
    by (simp add: reap_obsolete_images_def w sv demo_stale)
  have net: "sv_net demo_hook_services sent req = Inr \<lparr>rs_status = 202, rs_headers = [], rs_data = JStr []\<rparr>"
    "hs_statement demo_hook_services n = NoFault" for sent req n
    by (simp_all add: demo_hook_services_def)
  have i1: "im_digest (demo_image ''i1'' ''a'' 5) = Some ''sha256:d''" "im_id (demo_image ''i1'' ''a'' 5) = ''i1''"
    by (simp_all add: demo_image_def)
  have rest: "map (\<lambda>i. (im_tag i, im_digest i)) (db_images (delete_image ''i1'' demo_database)) = [(''b'', Some ''sha256:d'')]"
    by (simp add: delete_image_def demo_database_def demo_image_def)
  have "reap_row demo_hook_services ?x ?w = ?w\<lparr>w_sent := [registry_request demo_hook_services ''DELETE'' ''bob/app'' ''sha256:d''],
      hw_statements := 2, hw_db := delete_image ''i1'' demo_database\<rparr>"
    by (simp add: reap_row_def find_digest_def i1 truthy_def fetch_request_def axios_request_def repo_path_def remove_row_def
        pg_statement_def run_statement_def no_redis_url [OF url] net w numeral_2_eq_2)
  then show ?thesis unfolding reap Let_def using rest by simp
qed

end
