(* ===== verification/HookEvents.thy ===== *)
theory HookEvents
  imports ImageRetention
begin

text \<open>
  The webhook: \<open>hooks/src/controllers/hookEvents.ts\<close> and \<open>hooks/src/controllers/HookAPI.ts\<close>. A batch of
  registry events arrives as untyped JSON; each push, delete or pull of a manifest is written to the
  database, and the repositories pushed to are reaped at once. A handler that throws is \<open>None\<close>.
\<close>

section \<open>One event\<close>

definition is_manifest_pull_media_type :: "js \<Rightarrow> bool" where
  "is_manifest_pull_media_type v = (case v of JStr s \<Rightarrow> s \<noteq> [] \<and> (js_includes ''manifest'' s \<or> js_includes ''image.index'' s) | _ \<Rightarrow> False)"

definition text_or_null :: "js \<Rightarrow> string option" where
  "text_or_null v = (case v of JStr s \<Rightarrow> Some s | _ \<Rightarrow> None)"

definition push_body :: "(nat \<Rightarrow> string) \<Rightarrow> int \<Rightarrow> inferred_provenance \<Rightarrow> string \<Rightarrow> int \<Rightarrow> parsed_tag_retention \<Rightarrow> string option \<Rightarrow> database
     \<Rightarrow> sql_error + string \<times> database" where
  "push_body gen now ip tag pushed_at retention digest db =
     (case upsert_repo gen (ip_organization ip) (ip_name ip) db of
        Inl e \<Rightarrow> Inl e
      | Inr (repo_id, db1) \<Rightarrow>
          (case upsert_image gen now
              \<lparr>ia_repository_id = repo_id, ia_tag = tag, ia_pushed_at = pushed_at, ia_mode = tr_mode retention,
               ia_value = tr_seconds retention, ia_expires_at = tr_expires_at retention, ia_raw_suffix = tr_raw_suffix retention,
               ia_digest = digest, ia_provenance = ip_provenance ip, ia_cluster_id = ip_cluster_id ip,
               ia_upstream_ref = ip_upstream_ref ip\<rparr> db1 of
             Inl e \<Rightarrow> Inl e | Inr (_, db2) \<Rightarrow> Inr (repo_id, db2)))"

definition add_repository :: "string \<Rightarrow> string list \<Rightarrow> string list" where
  "add_repository x repos = (if x \<in> set repos then repos else repos @ [x])"

definition sync_push :: "'a hook_services_scheme \<Rightarrow> (int \<Rightarrow> database \<Rightarrow> sql_error + string \<times> database) \<Rightarrow> string list
     \<Rightarrow> 'w hook_world_scheme \<Rightarrow> string list \<times> 'w hook_world_scheme" where
  "sync_push sv body repos w =
     (let (started_at, w1) = read_hrtime sv w; n = hw_sessions w1; w2 = w1\<lparr>hw_sessions := Suc n\<rparr> in
      case hs_session sv n of
        ConnectFails \<Rightarrow> (repos, w2)
      | Connected fault \<Rightarrow>
          (let now = hs_pg_now sv (hw_statements w2); (outcome, db) = run_transaction fault (body now) (hw_db w2);
               w3 = w2\<lparr>hw_statements := Suc (hw_statements w2), hw_db := db\<rparr> in
           case outcome of
             TxDone repo_id \<Rightarrow>
               (let (duration, w4) = elapsed_seconds_since sv started_at w3
                in (add_repository repo_id repos, record_postgres_sync sv ''success'' duration w4))
           | TxRolledBack \<Rightarrow>
               (let (duration, w4) = elapsed_seconds_since sv started_at w3 in (repos, record_postgres_sync sv ''error'' duration w4))
           | TxRollbackThrows \<Rightarrow> (repos, w3)))"

definition cache_push :: "'a hook_services_scheme \<Rightarrow> string \<Rightarrow> int \<Rightarrow> 'w hook_world_scheme \<Rightarrow> 'w hook_world_scheme" where
  "cache_push sv image_with_tag pushed_at w =
     (let (started_at, w1) = read_hrtime sv w; (ok, w2) = cache_pushed_image sv image_with_tag pushed_at w1;
          (duration, w3) = elapsed_seconds_since sv started_at w2
      in record_redis_cache sv (if ok then ''success'' else ''error'') duration w3)"

definition handle_push :: "'a hook_services_scheme \<Rightarrow> js \<Rightarrow> string list \<Rightarrow> 'w hook_world_scheme \<Rightarrow> string list \<times> 'w hook_world_scheme" where
  "handle_push sv target repos w =
     (let image = js_prop target ''repository''; tag = js_prop target ''tag''; digest = text_or_null (js_prop target ''digest'') in
      if \<not> js_truthy image \<or> \<not> js_truthy tag then (repos, w)
      else
        (let (pushed_at, w1) = read_date sv w;
             retention = parse_tag_retention (js_String tag) pushed_at;
             w2 = cache_push sv (js_String image @ '':'' @ js_String tag) pushed_at w1 in
         case infer_provenance image of
           None \<Rightarrow> (repos, w2)
         | Some ip \<Rightarrow> sync_push sv (\<lambda>now. push_body (hs_gen sv) now ip (param_text sv tag) pushed_at retention digest) repos w2))"

text \<open>The single statement of a delete or a pull, with its stopwatch.\<close>

definition sync_statement :: "'a hook_services_scheme \<Rightarrow> string list \<Rightarrow> (int \<Rightarrow> database \<Rightarrow> database) \<Rightarrow> 'w hook_world_scheme \<Rightarrow> 'w hook_world_scheme" where
  "sync_statement sv params stmt w =
     (let (started_at, w1) = read_hrtime sv w; n = hw_sessions w1; w2 = w1\<lparr>hw_sessions := Suc n\<rparr> in
      case hs_session sv n of
        ConnectFails \<Rightarrow> w2
      | Connected _ \<Rightarrow>
          (let (ok, w3) = pg_statement sv params stmt w2; (duration, w4) = elapsed_seconds_since sv started_at w3
           in record_postgres_sync sv (if ok then ''success'' else ''error'') duration w4))"

definition handle_delete :: "'a hook_services_scheme \<Rightarrow> js \<Rightarrow> 'w hook_world_scheme \<Rightarrow> 'w hook_world_scheme" where
  "handle_delete sv target w =
     (let image = js_prop target ''repository''; digest = text_or_null (js_prop target ''digest'') in
      if \<not> js_truthy image \<or> \<not> truthy digest then w
      else
        (case infer_provenance image of
           None \<Rightarrow> w
         | Some ip \<Rightarrow> sync_statement sv [ip_organization ip, ip_name ip, the digest]
                        (\<lambda>_. delete_manifest (ip_organization ip) (ip_name ip) (the digest)) w))"

definition handle_pull :: "'a hook_services_scheme \<Rightarrow> js \<Rightarrow> 'w hook_world_scheme \<Rightarrow> 'w hook_world_scheme" where
  "handle_pull sv target w =
     (let image = js_prop target ''repository''; tag = js_prop target ''tag''; media_type = js_prop target ''mediaType'' in
      if \<not> js_truthy image \<or> \<not> js_truthy tag \<or> \<not> is_manifest_pull_media_type media_type then w
      else
        (case infer_provenance image of
           None \<Rightarrow> w
         | Some ip \<Rightarrow> sync_statement sv [ip_organization ip, ip_name ip, param_text sv tag]
                        (\<lambda>now. update_last_pulled now (ip_organization ip) (ip_name ip) (param_text sv tag)) w))"

definition process_event :: "'a hook_services_scheme \<Rightarrow> js \<Rightarrow> string list \<Rightarrow> 'w hook_world_scheme \<Rightarrow> string list \<times> 'w hook_world_scheme" where
  "process_event sv event repos w =
     (let action = js_prop event ''action''; target = js_prop event ''target'';
          w1 = record_registry_event sv (if js_truthy action then js_String action else ''unknown'') w in
      if action = JStr ''push'' then handle_push sv target repos w1
      else if action = JStr ''delete'' then (repos, handle_delete sv target w1)
      else if action = JStr ''pull'' then (repos, handle_pull sv target w1)
      else (repos, w1))"

section \<open>The batch\<close>

text \<open>\<open>for (const event of body.events || [])\<close>: a null body throws, so does a truthy value that is not iterable.\<close>

definition events_of :: "js \<Rightarrow> js list option" where
  "events_of body =
     (if js_nullish body then None
      else
        (let events = js_prop body ''events'' in
         if \<not> js_truthy events then Some []
         else (case events of
                 JArr es \<Rightarrow> Some es
               | JStr s \<Rightarrow> Some (map (\<lambda>c. JStr [c]) (filter (\<lambda>c. \<not> (128 \<le> char_code c \<and> char_code c < (192 :: nat))) s))
               | _ \<Rightarrow> None)))"

text \<open>Reading \<open>action\<close> of a null event throws out of the loop.\<close>

fun process_events :: "'a hook_services_scheme \<Rightarrow> js list \<Rightarrow> string list \<Rightarrow> 'w hook_world_scheme \<Rightarrow> string list option \<times> 'w hook_world_scheme" where
  "process_events sv [] repos w = (Some repos, w)"
| "process_events sv (event # events) repos w =
     (if js_nullish event then (None, w)
      else (let (repos', w') = process_event sv event repos w in process_events sv events repos' w'))"

definition reap_repository :: "'a hook_services_scheme \<Rightarrow> string \<Rightarrow> 'w hook_world_scheme \<Rightarrow> 'w hook_world_scheme" where
  "reap_repository sv repository_id w =
     (let (started_at, w1) = read_hrtime sv w; (result, w2) = reap_obsolete_images sv (Some [repository_id]) w1;
          (duration, w3) = elapsed_seconds_since sv started_at w2 in
      case result of
        Some _ \<Rightarrow> mark_successful_reap sv (record_immediate_reap sv ''success'' duration w3)
      | None \<Rightarrow> record_immediate_reap sv ''error'' duration w3)"

definition batch_size :: "js \<Rightarrow> nat" where
  "batch_size body = (case js_prop body ''events'' of JArr es \<Rightarrow> length es | _ \<Rightarrow> 0)"

definition process_registry_events :: "'a hook_services_scheme \<Rightarrow> js \<Rightarrow> 'w hook_world_scheme \<Rightarrow> unit option \<times> 'w hook_world_scheme" where
  "process_registry_events sv body w =
     (let w1 = record_registry_event_batch sv (batch_size body) w in
      case events_of body of
        None \<Rightarrow> (None, w1)
      | Some events \<Rightarrow>
          (let (repos, w2) = process_events sv events [] w1 in
           case repos of
             None \<Rightarrow> (None, w2)
           | Some rs \<Rightarrow>
               (Some (), mark_successful_webhook sv
                  (fold (reap_repository sv) rs (record_repositories_scheduled_for_reap sv (length rs) w2)))))"

section \<open>The endpoint\<close>

definition expected_hook_authorization :: "env \<Rightarrow> string" where
  "expected_hook_authorization env = ''Token '' @ (case env ''HOOK_TOKEN'' of None \<Rightarrow> ''undefined'' | Some t \<Rightarrow> t)"

text \<open>The status of the answer, whose body is \<open>{}\<close>; \<open>None\<close> where the handler throws.\<close>

definition hook :: "'a hook_services_scheme \<Rightarrow> string option \<Rightarrow> js \<Rightarrow> 'w hook_world_scheme \<Rightarrow> int option \<times> 'w hook_world_scheme" where
  "hook sv authorization body w =
     (if authorization \<noteq> Some (expected_hook_authorization (hs_env sv)) then (Some 401, record_webhook_authorization sv ''rejected'' w)
      else
        (let (result, w1) = process_registry_events sv body (record_webhook_authorization sv ''accepted'' w) in
         (map_option (\<lambda>_. 200) result, w1)))"

section \<open>What the parts leave alone\<close>

text \<open>Clocks and metrics change the common part of the state only.\<close>

lemma hook_frame:
  "world.more v = world.more w \<Longrightarrow> hw_db v = hw_db w \<and> hw_sessions v = hw_sessions w \<and> hw_statements v = hw_statements w
     \<and> hw_redis v = hw_redis w \<and> hw_redis_calls v = hw_redis_calls w"
  for v w :: "'w hook_world_scheme"
  by (cases v, cases w) simp

lemma hook_record_more [simp]:
  "world.more (record_registry_event sv a w) = world.more w"
  "world.more (record_registry_event_batch sv n w) = world.more w"
  "world.more (record_redis_cache sv o1 d w) = world.more w"
  "world.more (record_postgres_sync sv o1 d w) = world.more w"
  "world.more (record_immediate_reap sv o1 d w) = world.more w"
  "world.more (record_repositories_scheduled_for_reap sv n w) = world.more w"
  "world.more (record_webhook_authorization sv o1 w) = world.more w"
  "world.more (mark_successful_webhook sv w) = world.more w"
  "world.more (mark_successful_reap sv w) = world.more w"
  by (simp_all add: record_defs mark_successful_webhook_def mark_successful_reap_def emit_def case_prod_beta' Let_def read_date_def)

lemma hook_clock_more [simp]:
  "world.more (snd (read_hrtime sv w)) = world.more w" "world.more (snd (read_date sv w)) = world.more w"
  "world.more (snd (elapsed_seconds_since sv t w)) = world.more w"
  by (simp_all add: read_hrtime_def read_date_def elapsed_seconds_since_def case_prod_beta' Let_def)

lemma hook_clock_frame [simp]:
  "hw_db (snd (read_hrtime sv w)) = hw_db w" "hw_sessions (snd (read_hrtime sv w)) = hw_sessions w"
  "hw_statements (snd (read_hrtime sv w)) = hw_statements w" "hw_db (snd (read_date sv w)) = hw_db w"
  "hw_sessions (snd (read_date sv w)) = hw_sessions w" "hw_statements (snd (read_date sv w)) = hw_statements w"
  by (simp_all add: read_hrtime_def read_date_def)

lemma timed_record_db [simp]: "hw_db (record_postgres_sync sv o1 d (snd (elapsed_seconds_since sv t v))) = hw_db v"
  using hook_frame [of "record_postgres_sync sv o1 d (snd (elapsed_seconds_since sv t v))" v] by simp

lemma cache_push_db [simp]: "hw_db (cache_push sv i t w) = hw_db w \<and> hw_sessions (cache_push sv i t w) = hw_sessions w
    \<and> hw_statements (cache_push sv i t w) = hw_statements w"
proof -
  let ?w1 = "snd (read_hrtime sv w)"
  let ?w2 = "snd (cache_pushed_image sv i t ?w1)"
  have "world.more (cache_push sv i t w) = world.more ?w2" by (simp add: cache_push_def case_prod_beta' Let_def)
  with hook_frame [of "cache_push sv i t w" ?w2] hook_frame [of ?w1 w] redis_only_frame [OF cache_pushed_image_only [of ?w1 sv i t]]
  show ?thesis by simp
qed

lemma sync_push_db:
  assumes "sync_push sv body repos w = (repos', w')"
  shows "(hw_db w' = hw_db w \<and> repos' = repos) \<or>
    (\<exists>x. body (hs_pg_now sv (hw_statements w)) (hw_db w) = Inr (x, hw_db w') \<and> (repos' = repos \<or> repos' = add_repository x repos)
       \<and> (hs_session sv (hw_sessions w) = Connected NoFault \<longrightarrow> repos' = add_repository x repos))"
proof -
  show ?thesis
  proof (cases "hs_session sv (hw_sessions w)")
    case ConnectFails
    with assms show ?thesis by (auto simp: sync_push_def case_prod_beta' Let_def)
  next
    case (Connected fault)
    obtain outcome db where t: "run_transaction fault (body (hs_pg_now sv (hw_statements w))) (hw_db w) = (outcome, db)" by force
    from run_transaction_atomic [of fault "body (hs_pg_now sv (hw_statements w))" "hw_db w"] t
    have atom: "db = hw_db w \<or> (\<exists>x. body (hs_pg_now sv (hw_statements w)) (hw_db w) = Inr (x, db))" by simp
    show ?thesis
    proof (cases outcome)
      case (TxDone x)
      with assms Connected t run_transaction_done [OF t [unfolded TxDone]] show ?thesis
        by (auto simp: sync_push_def case_prod_beta' Let_def)
    next
      case TxRolledBack
      with t have "db = hw_db w" by (auto simp: run_transaction_def split: db_fault.splits sum.splits)
      with assms Connected t TxRolledBack show ?thesis by (auto simp: sync_push_def case_prod_beta' Let_def)
    next
      case TxRollbackThrows
      with t have "fault \<noteq> NoFault" by (auto simp: run_transaction_def split: sum.splits)
      with assms Connected t atom TxRollbackThrows show ?thesis by (auto simp: sync_push_def case_prod_beta' Let_def)
    qed
  qed
qed

lemma sync_statement_db:
  "hw_db (sync_statement sv params stmt w) = hw_db w \<or> (\<exists>now. hw_db (sync_statement sv params stmt w) = stmt now (hw_db w))"
proof -
  let ?w1 = "snd (read_hrtime sv w)"
  let ?w2 = "?w1\<lparr>hw_sessions := Suc (hw_sessions ?w1)\<rparr>"
  have "hw_db (sync_statement sv params stmt w) \<in> {hw_db w, hw_db (snd (pg_statement sv params stmt ?w2))}"
    by (auto simp: sync_statement_def case_prod_beta' Let_def split: session.split)
  with pg_statement_db [of sv params stmt ?w2] show ?thesis by auto
qed

section \<open>The store's invariant\<close>

lemma push_body_inv:
  assumes "push_body gen now ip tag t ret digest db = Inr (x, db')" and "db_inv gen db"
  shows "db_inv gen db'"
proof -
  obtain repo_id db1 p u where "upsert_repo gen (ip_organization ip) (ip_name ip) db = Inr (repo_id, db1)"
      "upsert_image gen now p db1 = Inr (u, db')"
    using assms(1) by (auto simp: push_body_def split: sum.splits)
  with assms(2) upsert_repo_inv upsert_image_inv show ?thesis by blast
qed

interpretation push_store: image_store "db_inv gen" "{push_body gen now ip tag t ret digest | now ip tag t ret digest. True}" for gen
  by unfold_locales (auto dest: push_body_inv)

text \<open>
  What a batch does to the database is a run of a few statements. The contract of an invariant under them: pushes
  of the repositories it allows, the loss of images, and a pull's time stamp keep it. Then every call of the webhook
  whose pushes it allows keeps it, whatever faults occur.
\<close>

definition event_pushable :: "(inferred_provenance \<Rightarrow> bool) \<Rightarrow> js \<Rightarrow> bool" where
  "event_pushable P event \<longleftrightarrow> js_prop event ''action'' = JStr ''push'' \<longrightarrow>
     (\<forall>ip. infer_provenance (js_prop (js_prop event ''target'') ''repository'') = Some ip \<longrightarrow> P ip)"

locale webhook_invariant =
  fixes inv :: "database \<Rightarrow> bool" and gen :: "nat \<Rightarrow> string" and pushable :: "inferred_provenance \<Rightarrow> bool"
  assumes push_keeps: "inv db \<Longrightarrow> pushable ip \<Longrightarrow> push_body gen now ip tag t ret digest db = Inr (x, db') \<Longrightarrow> inv db'"
    and losses_keep: "inv db \<Longrightarrow> inv (db\<lparr>db_images := filter P (db_images db)\<rparr>)"
    and pull_keeps: "inv db \<Longrightarrow> inv (update_last_pulled now org name tag db)"
begin

lemma handle_push_keeps:
  assumes gen: "hs_gen sv = gen" and inv: "inv (hw_db w)" and h: "handle_push sv target repos w = (repos', w')"
    and ok: "\<And>ip. infer_provenance (js_prop target ''repository'') = Some ip \<Longrightarrow> pushable ip"
  shows "inv (hw_db w')"
proof -
  let ?w1 = "snd (read_date sv w)"
  consider "w' = w" | t i where "w' = cache_push sv i t ?w1"
    | i t ip tag ret digest where "infer_provenance (js_prop target ''repository'') = Some ip"
      "sync_push sv (\<lambda>now. push_body gen now ip tag t ret digest) repos (cache_push sv i t ?w1) = (repos', w')"
    using h by (auto simp: handle_push_def gen case_prod_beta' Let_def split: if_splits option.splits)
  then show ?thesis
  proof cases
    case 3
    from sync_push_db [OF 3(2)] inv push_keeps [OF _ ok [OF 3(1)]] show ?thesis by auto
  qed (use inv in auto)
qed

lemma process_event_keeps:
  assumes gen: "hs_gen sv = gen" and inv: "inv (hw_db w)" and e: "process_event sv ev repos w = (repos', w')"
    and ok: "event_pushable pushable ev"
  shows "inv (hw_db w')"
proof -
  let ?w1 = "record_registry_event sv (if js_truthy (js_prop ev ''action'') then js_String (js_prop ev ''action'') else ''unknown'') w"
  have i1: "inv (hw_db ?w1)" using hook_frame [of ?w1 w] inv by simp
  consider (push) "js_prop ev ''action'' = JStr ''push''" "handle_push sv (js_prop ev ''target'') repos ?w1 = (repos', w')"
    | (same) "w' = ?w1"
    | (delete) org name d where "w' = sync_statement sv [org, name, d] (\<lambda>_. delete_manifest org name d) ?w1"
    | (pull) org name t where "w' = sync_statement sv [org, name, t] (\<lambda>now. update_last_pulled now org name t) ?w1"
    using e by (auto simp: process_event_def handle_delete_def handle_pull_def Let_def split: if_splits option.splits)
  then show ?thesis
  proof cases
    case push
    with ok handle_push_keeps [OF gen i1 push(2)] show ?thesis by (simp add: event_pushable_def)
  next
    case delete
    with sync_statement_db [of sv "[org, name, d]" "\<lambda>_. delete_manifest org name d" ?w1] i1 losses_keep show ?thesis
      by (auto simp: delete_manifest_def)
  next
    case pull
    with sync_statement_db [of sv "[org, name, t]" "\<lambda>now. update_last_pulled now org name t" ?w1] i1 pull_keeps show ?thesis by auto
  qed (use i1 in simp)
qed

lemma process_events_keep:
  "hs_gen sv = gen \<Longrightarrow> inv (hw_db w) \<Longrightarrow> \<forall>ev \<in> set evs. event_pushable pushable ev \<Longrightarrow>
     process_events sv evs repos w = (res, w') \<Longrightarrow> inv (hw_db w')"
proof (induction evs arbitrary: repos w)
  case (Cons ev evs)
  obtain repos1 w1 where e: "process_event sv ev repos w = (repos1, w1)" by force
  with Cons process_event_keeps [OF Cons.prems(1,2) e] show ?case by (auto split: if_splits)
qed simp

lemma reap_keeps:
  assumes "inv (hw_db w)" and "reap_obsolete_images sv ids w = (res, w')"
  shows "inv (hw_db w')"
proof -
  obtain removed where "hw_db w' = (hw_db w)\<lparr>db_images := filter (\<lambda>i. im_id i \<notin> removed) (db_images (hw_db w))\<rparr>"
    using reap_effect [OF assms(2)] by blast
  with assms(1) losses_keep show ?thesis by simp
qed

lemma reap_repositories_keep: "inv (hw_db w) \<Longrightarrow> inv (hw_db (fold (reap_repository sv) xs w))"
proof (induction xs arbitrary: w)
  case (Cons x xs)
  let ?w1 = "snd (read_hrtime sv w)"
  obtain res w2 where r: "reap_obsolete_images sv (Some [x]) ?w1 = (res, w2)" by force
  have "world.more (reap_repository sv x w) = world.more w2"
    using r by (simp add: reap_repository_def case_prod_beta' Let_def split: option.split)
  then have "hw_db (reap_repository sv x w) = hw_db w2" using hook_frame [of "reap_repository sv x w" w2] by simp
  with reap_keeps [OF _ r] Cons.prems Cons.IH show ?case by simp
qed simp

lemma process_registry_events_keep:
  assumes gen: "hs_gen sv = gen" and inv: "inv (hw_db w)" and p: "process_registry_events sv body w = (res, w')"
    and ok: "\<And>evs. events_of body = Some evs \<Longrightarrow> \<forall>ev \<in> set evs. event_pushable pushable ev"
  shows "inv (hw_db w')"
proof -
  let ?w1 = "record_registry_event_batch sv (batch_size body) w"
  have i1: "inv (hw_db ?w1)" using inv hook_frame [of ?w1 w] by simp
  show ?thesis
  proof (cases "events_of body")
    case None
    with p i1 show ?thesis by (simp add: process_registry_events_def)
  next
    case (Some events)
    obtain repos w2 where e: "process_events sv events [] ?w1 = (repos, w2)" by force
    note i2 = process_events_keep [OF gen i1 ok [OF Some] e]
    show ?thesis
    proof (cases repos)
      case None
      with p Some e i2 show ?thesis by (simp add: process_registry_events_def)
    next
      case rs: (Some rs)
      let ?w3 = "record_repositories_scheduled_for_reap sv (length rs) w2"
      have "inv (hw_db (fold (reap_repository sv) rs ?w3))"
        using i2 hook_frame [of ?w3 w2] by (intro reap_repositories_keep) simp
      moreover have "w' = mark_successful_webhook sv (fold (reap_repository sv) rs ?w3)"
        using p Some e rs by (simp add: process_registry_events_def)
      ultimately show ?thesis using hook_frame [of w' "fold (reap_repository sv) rs ?w3"] by simp
    qed
  qed
qed

lemma hook_keeps:
  assumes gen: "hs_gen sv = gen" and inv: "inv (hw_db w)" and h: "hook sv authorization body w = (status, w')"
    and ok: "\<And>evs. authorization = Some (expected_hook_authorization (hs_env sv)) \<Longrightarrow> events_of body = Some evs \<Longrightarrow>
      \<forall>ev \<in> set evs. event_pushable pushable ev"
  shows "inv (hw_db w')"
proof (cases "authorization = Some (expected_hook_authorization (hs_env sv))")
  case True
  let ?w1 = "record_webhook_authorization sv ''accepted'' w"
  have i1: "inv (hw_db ?w1)" using inv hook_frame [of ?w1 w] by simp
  obtain res w2 where p: "process_registry_events sv body ?w1 = (res, w2)" by force
  from process_registry_events_keep [OF gen i1 p ok [OF True]] True h p show ?thesis by (auto simp: hook_def)
next
  case False
  with h have "w' = record_webhook_authorization sv ''rejected'' w" by (simp add: hook_def)
  with inv hook_frame [of w' w] show ?thesis by simp
qed

end

interpretation schema: webhook_invariant "db_inv gen" gen "\<lambda>_. True" for gen
  by unfold_locales (auto intro: push_body_inv filter_images_inv update_last_pulled_inv)

lemma process_events_total:
  "fst (process_events sv evs repos w) = None \<longleftrightarrow> (\<exists>ev \<in> set evs. js_nullish ev)"
  by (induction evs arbitrary: repos w) (simp_all add: case_prod_beta' Let_def)

lemma process_registry_events_total:
  "fst (process_registry_events sv body w) = (case events_of body of None \<Rightarrow> None
      | Some evs \<Rightarrow> if \<exists>ev \<in> set evs. js_nullish ev then None else Some ())"
proof (cases "events_of body")
  case (Some evs)
  let ?r = "fst (process_events sv evs [] (record_registry_event_batch sv (batch_size body) w))"
  have "?r = None \<longleftrightarrow> (\<exists>ev \<in> set evs. js_nullish ev)" by (rule process_events_total)
  with Some show ?thesis
    by (cases ?r) (simp_all add: process_registry_events_def case_prod_beta' Let_def)
qed (simp add: process_registry_events_def)

section \<open>One row per tag\<close>

definition the_image :: "string \<Rightarrow> string \<Rightarrow> image_row \<Rightarrow> bool" where
  "the_image repository_id tag i \<longleftrightarrow> im_repository_id i = repository_id \<and> im_tag i = tag"

lemma filter_unique_key:
  assumes "distinct (map f xs)" and "x \<in> set xs"
  shows "filter (\<lambda>y. f y = f x) xs = [x]"
  using assms
proof (induction xs)
  case (Cons y ys)
  then show ?case by (cases "y = x") (auto simp: filter_empty_conv image_iff)
qed simp

text \<open>What an upsert leaves: one row for the tag, new or merged, and every other row as it was.\<close>

lemma upsert_image_recorded:
  assumes "upsert_image gen now p db = Inr (x, db')" and "db_inv gen db"
  obtains i where "filter (the_image (ia_repository_id p) (ia_tag p)) (db_images db') = [i]"
    "i = excluded_row (gen (db_next_id db)) now p \<or> (\<exists>old. i = merge_image (excluded_row (gen (db_next_id db)) now p) old)"
    "filter (\<lambda>j. \<not> the_image (ia_repository_id p) (ia_tag p) j) (db_images db')
       = filter (\<lambda>j. \<not> the_image (ia_repository_id p) (ia_tag p) j) (db_images db)"
proof -
  let ?e = "excluded_row (gen (db_next_id db)) now p" and ?P = "the_image (ia_repository_id p) (ia_tag p)"
  have e: "im_repository_id ?e = ia_repository_id p" "im_tag ?e = ia_tag p" by (simp_all add: excluded_row_def)
  have same: "same_image ?e j \<longleftrightarrow> ?P j" for j by (auto simp: same_image_def the_image_def e)
  have key: "?P j \<longleftrightarrow> (im_repository_id j, im_tag j) = (ia_repository_id p, ia_tag p)" for j by (simp add: the_image_def)
  have d: "distinct (map (\<lambda>j. (im_repository_id j, im_tag j)) (db_images db))" using assms(2) by (simp add: db_inv_def db_wf_def)
  show thesis
  proof (cases "\<exists>old \<in> set (db_images db). ?P old")
    case True
    then obtain old where old: "old \<in> set (db_images db)" "?P old" by blast
    then have "db_images db' = map (\<lambda>j. if ?P j then merge_image ?e j else j) (db_images db)"
      using assms(1) by (auto simp: upsert_image_def Let_def same list_ex_iff split: option.splits if_splits)
    moreover have "filter ?P (map (\<lambda>j. if ?P j then merge_image ?e j else j) xs) = map (merge_image ?e) (filter ?P xs)"
      "filter (\<lambda>j. \<not> ?P j) (map (\<lambda>j. if ?P j then merge_image ?e j else j) xs) = filter (\<lambda>j. \<not> ?P j) xs" for xs
      by (induction xs) (auto simp: the_image_def)
    moreover have "filter ?P (db_images db) = [old]"
      using filter_unique_key [OF d old(1)] old(2) unfolding key by simp
    ultimately show thesis using that [of "merge_image ?e old"] by auto
  next
    case False
    then have "db_images db' = db_images db @ [?e]"
      using assms(1) by (auto simp: upsert_image_def Let_def same list_ex_iff split: option.splits if_splits)
    moreover have "filter ?P (db_images db) = []" using False by (simp add: filter_empty_conv)
    moreover have "?P ?e" by (simp add: the_image_def e)
    ultimately show thesis using that [of ?e] by simp
  qed
qed

section \<open>Properties\<close>

text \<open>
  Whatever arrives at the webhook, in whatever order, and whatever fails, the tables stay
  consistent: ids and keys unique, every image with its repository. A request without the configured
  token changes nothing but a counter and is answered 401.
\<close>

theorem webhook_keeps_schema:
  assumes inv: "db_inv (hs_gen sv) (hw_db w)" and h: "hook sv authorization body w = (status, w')"
  shows "db_inv (hs_gen sv) (hw_db w') \<and>
    (authorization \<noteq> Some (expected_hook_authorization (hs_env sv)) \<longrightarrow>
       status = Some 401 \<and> world.more w' = world.more w \<and> w_sent w' = w_sent w)"
proof
  show "db_inv (hs_gen sv) (hw_db w')" by (rule schema.hook_keeps [OF refl inv h]) (simp add: event_pushable_def)
  show "authorization \<noteq> Some (expected_hook_authorization (hs_env sv)) \<longrightarrow>
       status = Some 401 \<and> world.more w' = world.more w \<and> w_sent w' = w_sent w"
    using h by (auto simp: hook_def record_defs)
qed


text \<open>
  The webhook answers: failures of Redis, the database, the registry or the reaper never escape the
  handler. An authorised batch is answered 200 unless it is malformed, that is a null body, a truthy
  \<open>events\<close> that cannot be iterated, or a null among the events.
\<close>

theorem webhook_answers:
  "fst (hook sv authorization body w) =
     (if authorization \<noteq> Some (expected_hook_authorization (hs_env sv)) then Some 401
      else (case events_of body of None \<Rightarrow> None | Some evs \<Rightarrow> if \<exists>ev \<in> set evs. js_nullish ev then None else Some 200))"
  by (simp add: hook_def case_prod_beta' Let_def process_registry_events_total split: option.split)

section \<open>Instances\<close>

lemma demo_hook_world_db: "hw_db demo_hook_world = demo_database"
  by (simp add: demo_hook_world_def)

theorem webhook_keeps_schema_witness:
  "fst (hook demo_hook_services (Some ''Token x'') JNull demo_hook_world) = Some 401"
proof -
  have inv: "db_inv (hs_gen demo_hook_services) (hw_db demo_hook_world)"
    using demo_database_inv by (simp add: demo_hook_services_def demo_hook_world_db)
  have "Some ''Token x'' \<noteq> Some (expected_hook_authorization (hs_env demo_hook_services))"
    by (simp add: demo_hook_services_def expected_hook_authorization_def)
  with webhook_keeps_schema [OF inv prod.collapse [symmetric]] show ?thesis by blast
qed


text \<open>Without a configured token the webhook accepts the authorization \<open>Token undefined\<close>.\<close>

lemma unset_hook_token_is_a_token:
  "hs_env sv ''HOOK_TOKEN'' = None \<Longrightarrow> fst (hook sv (Some ''Token undefined'') (JObj []) w) = Some 200"
  by (simp add: hook_def expected_hook_authorization_def process_registry_events_def events_of_def js_nullish_def js_prop_def
      js_truthy_def case_prod_beta' Let_def)

end
