(* ===== verification/StoreTrack.thy ===== *)
theory StoreTrack
  imports CreateApp HookEvents
begin

text \<open>
  How the database of both services develops, whoever writes to it: what a later state still says about an
  earlier one (\<open>evolves\<close>), and that every row stays within its columns' types (\<open>db_typed\<close>). Both are proved for each
  statement of the code and combined in the locale \<open>tracked_store\<close>.
\<close>

section \<open>Development\<close>

text \<open>
  Ids are never used again, an image never changes its repository or tag, and a repository is never
  renamed or deleted.
\<close>

definition evolves :: "(nat \<Rightarrow> string) \<Rightarrow> database \<Rightarrow> database \<Rightarrow> bool" where
  "evolves gen db db' \<longleftrightarrow> db_next_id db \<le> db_next_id db'
     \<and> (\<forall>j \<in> set (db_images db'). im_id j \<in> gen ` {db_next_id db..} \<or>
          (\<exists>i \<in> set (db_images db). im_id i = im_id j \<and> im_repository_id i = im_repository_id j \<and> im_tag i = im_tag j))
     \<and> (\<forall>r \<in> set (db_repos db). \<exists>r' \<in> set (db_repos db'). re_id r' = re_id r
          \<and> re_organization r' = re_organization r \<and> re_name r' = re_name r)"

lemma evolves_refl [simp]: "evolves gen db db"
  by (auto simp: evolves_def)

lemma evolves_trans:
  assumes "evolves gen a b" and "evolves gen b c"
  shows "evolves gen a c"
  unfolding evolves_def
proof (intro conjI ballI)
  show "db_next_id a \<le> db_next_id c" using assms by (simp add: evolves_def)
next
  fix j assume "j \<in> set (db_images c)"
  with assms(2) consider "im_id j \<in> gen ` {db_next_id b..}"
    | i where "i \<in> set (db_images b)" "im_id i = im_id j" "im_repository_id i = im_repository_id j" "im_tag i = im_tag j"
    unfolding evolves_def by blast
  then show "im_id j \<in> gen ` {db_next_id a..} \<or>
      (\<exists>i \<in> set (db_images a). im_id i = im_id j \<and> im_repository_id i = im_repository_id j \<and> im_tag i = im_tag j)"
  proof cases
    case 1
    then show ?thesis using assms(1) by (auto simp: evolves_def)
  next
    case 2
    with assms(1) show ?thesis unfolding evolves_def by metis
  qed
next
  fix r assume "r \<in> set (db_repos a)"
  with assms show "\<exists>r' \<in> set (db_repos c). re_id r' = re_id r \<and> re_organization r' = re_organization r \<and> re_name r' = re_name r"
    unfolding evolves_def by metis
qed

lemma evolves_repos:
  assumes "db_images db' = db_images db" and "db_next_id db \<le> db_next_id db'"
    and "\<forall>r \<in> set (db_repos db). \<exists>r' \<in> set (db_repos db'). re_id r' = re_id r
       \<and> re_organization r' = re_organization r \<and> re_name r' = re_name r"
  shows "evolves gen db db'"
  using assms by (auto simp: evolves_def)

lemma evolves_images:
  assumes "db_repos db' = db_repos db" and "db_next_id db \<le> db_next_id db'"
    and "\<And>j. j \<in> set (db_images db') \<Longrightarrow> im_id j \<in> gen ` {db_next_id db..} \<or>
       (\<exists>i \<in> set (db_images db). im_id i = im_id j \<and> im_repository_id i = im_repository_id j \<and> im_tag i = im_tag j)"
  shows "evolves gen db db'"
  using assms by (auto simp: evolves_def)

lemma evolves_map_images:
  "(\<And>i. P i \<Longrightarrow> im_id (f i) = im_id i \<and> im_repository_id (f i) = im_repository_id i \<and> im_tag (f i) = im_tag i) \<Longrightarrow>
     evolves gen db (db\<lparr>db_images := map (\<lambda>i. if P i then f i else i) (db_images db)\<rparr>)"
  by (rule evolves_images) force+

lemma evolves_map_repos:
  assumes "\<And>r. P r \<Longrightarrow> re_id (f r) = re_id r \<and> re_organization (f r) = re_organization r \<and> re_name (f r) = re_name r"
  shows "evolves gen db (db\<lparr>db_repos := map (\<lambda>r. if P r then f r else r) (db_repos db)\<rparr>)"
proof (rule evolves_repos, simp, simp, rule ballI)
  fix r assume "r \<in> set (db_repos db)"
  then have "(\<lambda>r. if P r then f r else r) r \<in> set (map (\<lambda>r. if P r then f r else r) (db_repos db))"
    unfolding list.set_map by (rule imageI)
  then show "\<exists>r' \<in> set (db_repos (db\<lparr>db_repos := map (\<lambda>r. if P r then f r else r) (db_repos db)\<rparr>)).
      re_id r' = re_id r \<and> re_organization r' = re_organization r \<and> re_name r' = re_name r"
    using assms by (intro bexI [of _ "if P r then f r else r"]) auto
qed

lemma evolves_add_image:
  "im_id i = gen (db_next_id db) \<Longrightarrow> evolves gen db (db\<lparr>db_images := db_images db @ [i], db_next_id := Suc (db_next_id db)\<rparr>)"
  by (rule evolves_images) auto

lemma evolves_add_repo: "evolves gen db (db\<lparr>db_repos := db_repos db @ [r], db_next_id := Suc (db_next_id db)\<rparr>)"
  by (rule evolves_repos) auto

lemma upsert_user_evolves: "upsert_user gen p db = Inr (u, db') \<Longrightarrow> evolves gen db db'"
  by (rule evolves_repos) (auto simp: upsert_user_def Let_def split: option.splits)

lemma upsert_repo_owner_evolves: "upsert_repo_owner gen org repo u db = Inr (x, db') \<Longrightarrow> evolves gen db db'"
  by (auto simp: upsert_repo_owner_def intro: evolves_map_repos evolves_add_repo split: option.splits if_splits)

lemma upsert_repo_evolves: "upsert_repo gen org name db = Inr (i, db') \<Longrightarrow> evolves gen db db'"
  by (auto simp: upsert_repo_def Let_def intro: evolves_add_repo split: option.splits)

lemma upsert_image_evolves: "upsert_image gen now p db = Inr (x, db') \<Longrightarrow> evolves gen db db'"
proof -
  let ?e = "excluded_row (gen (db_next_id db)) now p"
  have id: "im_id ?e = gen (db_next_id db)" by (simp add: excluded_row_def)
  assume "upsert_image gen now p db = Inr (x, db')"
  then consider "db' = db\<lparr>db_images := map (\<lambda>i. if same_image ?e i then merge_image ?e i else i) (db_images db)\<rparr>"
    | "db' = db\<lparr>db_images := db_images db @ [?e], db_next_id := Suc (db_next_id db)\<rparr>"
    by (auto simp: upsert_image_def Let_def split: option.splits if_splits)
  then show ?thesis by cases (simp_all add: evolves_map_images evolves_add_image id)
qed

lemma filter_images_evolves: "evolves gen db (db\<lparr>db_images := filter P (db_images db)\<rparr>)"
  by (rule evolves_images) auto

lemma update_last_pulled_evolves: "evolves gen db (update_last_pulled now org name tag db)"
  unfolding update_last_pulled_def by (rule evolves_map_images) simp

lemma sync_repos_evolves: "sync_repos gen u scs db = Inr (x, db') \<Longrightarrow> evolves gen db db'"
proof (induction scs arbitrary: db)
  case (Cons sc scs)
  from Cons.prems consider "sync_repos gen u scs db = Inr (x, db')"
    | org repo db1 where "upsert_repo_owner gen org repo u db = Inr ((), db1)" "sync_repos gen u scs db1 = Inr (x, db')"
    by (auto split: if_splits list.splits sum.splits)
  then show ?case using Cons.IH evolves_trans upsert_repo_owner_evolves by cases blast+
qed simp

lemma sync_body_evolves: "sync_body gen p scs db = Inr (x, db') \<Longrightarrow> evolves gen db db'"
  using upsert_user_evolves sync_repos_evolves evolves_trans by (fastforce simp: sync_body_def split: sum.splits)

lemma push_body_evolves: "push_body gen now ip tag t ret digest db = Inr (x, db') \<Longrightarrow> evolves gen db db'"
  using upsert_repo_evolves upsert_image_evolves evolves_trans by (fastforce simp: push_body_def split: sum.splits)

section \<open>Column types\<close>

definition varchar_ok :: "nat \<Rightarrow> string \<Rightarrow> bool" where
  "varchar_ok n s \<longleftrightarrow> CHR 0x00 \<notin> set s \<and> code_points s \<le> n"

definition opt_ok :: "('a \<Rightarrow> bool) \<Rightarrow> 'a option \<Rightarrow> bool" where
  "opt_ok P v \<longleftrightarrow> (\<forall>x. v = Some x \<longrightarrow> P x)"

definition typed_user :: "user_row \<Rightarrow> bool" where
  "typed_user u \<longleftrightarrow> varchar_ok 255 (us_external_id u) \<and> opt_ok (varchar_ok 255) (us_username u) \<and> opt_ok (varchar_ok 255) (us_email u)
     \<and> opt_ok (varchar_ok 255) (us_display_name u) \<and> opt_ok (\<lambda>s. CHR 0x00 \<notin> set s) (us_avatar_url u)
     \<and> opt_ok (varchar_ok 255) (us_auth_provider u)"

definition typed_repo :: "repo_row \<Rightarrow> bool" where
  "typed_repo r \<longleftrightarrow> varchar_ok 255 (re_organization r) \<and> varchar_ok 255 (re_name r)"

definition typed_image :: "image_row \<Rightarrow> bool" where
  "typed_image i \<longleftrightarrow> varchar_ok 255 (im_tag i) \<and> opt_ok (\<lambda>n. - (2 ^ 31) \<le> n \<and> n < 2 ^ 31) (im_retention_value i)
     \<and> opt_ok (varchar_ok 64) (im_raw_suffix i) \<and> opt_ok (varchar_ok 255) (im_digest i)
     \<and> opt_ok (\<lambda>c. \<exists>s. uuid_parse s = Some c) (im_cluster_id i) \<and> opt_ok (\<lambda>s. CHR 0x00 \<notin> set s) (im_upstream_ref i)"

definition db_typed :: "database \<Rightarrow> bool" where
  "db_typed db \<longleftrightarrow> list_all typed_user (db_users db) \<and> list_all typed_repo (db_repos db) \<and> list_all typed_image (db_images db)"

lemma first_error_none: "first_error es = None \<longleftrightarrow> (\<forall>e \<in> set es. e = None)"
  by (induction es) (auto simp: first_error_def map_filter_simps split: list.splits option.splits)

lemma check_varchar_ok: "check_varchar n s = None \<longleftrightarrow> varchar_ok n s"
  by (auto simp: check_varchar_def varchar_ok_def)

lemma check_opt_ok: "check_opt check v = None \<longleftrightarrow> opt_ok (\<lambda>x. check x = None) v"
  by (auto simp: check_opt_def opt_ok_def split: option.split)

lemma check_text_ok: "check_text s = None \<longleftrightarrow> CHR 0x00 \<notin> set s"
  by (simp add: check_text_def)

lemmas check_ok = first_error_none check_varchar_ok check_opt_ok check_text_ok

lemma opt_ok_coalesce: "opt_ok P a \<Longrightarrow> opt_ok P b \<Longrightarrow> opt_ok P (coalesce a b)"
  by (auto simp: opt_ok_def coalesce_def split: option.split)

lemma excluded_row_typed: "check_image p = None \<Longrightarrow> typed_image (excluded_row i now p)"
  by (auto simp: check_image_def check_ok typed_image_def excluded_row_def opt_ok_def check_integer_def check_uuid_def
      split: option.splits looked_up.splits if_splits)

lemma merge_image_typed: "typed_image e \<Longrightarrow> typed_image i \<Longrightarrow> typed_image (merge_image e i)"
  by (auto simp: typed_image_def merge_image_def intro: opt_ok_coalesce)

lemma upsert_user_typed: "upsert_user gen p db = Inr (u, db') \<Longrightarrow> db_typed db \<Longrightarrow> db_typed db'"
  by (auto simp: upsert_user_def db_typed_def Let_def list_all_iff check_user_def check_ok typed_user_def split: option.splits)

lemma upsert_repo_owner_typed: "upsert_repo_owner gen org repo u db = Inr (x, db') \<Longrightarrow> db_typed db \<Longrightarrow> db_typed db'"
  by (auto simp: upsert_repo_owner_def db_typed_def list_all_iff check_ok typed_repo_def split: option.splits if_splits)

lemma upsert_repo_typed: "upsert_repo gen org name db = Inr (i, db') \<Longrightarrow> db_typed db \<Longrightarrow> db_typed db'"
  by (auto simp: upsert_repo_def db_typed_def Let_def list_all_iff check_ok typed_repo_def split: option.splits)

lemma upsert_image_typed: "upsert_image gen now p db = Inr (x, db') \<Longrightarrow> db_typed db \<Longrightarrow> db_typed db'"
  by (auto simp: upsert_image_def db_typed_def Let_def list_all_iff excluded_row_typed merge_image_typed split: option.splits if_splits)

lemma filter_images_typed: "db_typed db \<Longrightarrow> db_typed (db\<lparr>db_images := filter P (db_images db)\<rparr>)"
  by (auto simp: db_typed_def list_all_iff)

lemma update_last_pulled_typed: "db_typed db \<Longrightarrow> db_typed (update_last_pulled now org name tag db)"
  by (auto simp: update_last_pulled_def db_typed_def list_all_iff typed_image_def)

lemma sync_repos_typed: "sync_repos gen u scs db = Inr (x, db') \<Longrightarrow> db_typed db \<Longrightarrow> db_typed db'"
proof (induction scs arbitrary: db)
  case (Cons sc scs)
  from Cons.prems(1) consider "sync_repos gen u scs db = Inr (x, db')"
    | org repo db1 where "upsert_repo_owner gen org repo u db = Inr ((), db1)" "sync_repos gen u scs db1 = Inr (x, db')"
    by (auto split: if_splits list.splits sum.splits)
  then show ?case using Cons.IH Cons.prems(2) upsert_repo_owner_typed by cases blast+
qed simp

lemma sync_body_typed: "sync_body gen p scs db = Inr (x, db') \<Longrightarrow> db_typed db \<Longrightarrow> db_typed db'"
  using upsert_user_typed sync_repos_typed by (fastforce simp: sync_body_def split: sum.splits)

lemma push_body_typed: "push_body gen now ip tag t ret digest db = Inr (x, db') \<Longrightarrow> db_typed db \<Longrightarrow> db_typed db'"
  using upsert_repo_typed upsert_image_typed by (fastforce simp: push_body_def split: sum.splits)

section \<open>The contract of a writer\<close>

text \<open>
  A writer is a set of statements; each keeps the schema's invariant and the types, and develops the
  database. So does every run of them, with whatever faults.
\<close>

locale tracked_store = image_store "\<lambda>db. db_inv gen db \<and> db_typed db" stmts
  for gen :: "nat \<Rightarrow> string" and stmts :: "(database \<Rightarrow> sql_error + 'a \<times> database) set" +
  assumes stmt_evolves: "s \<in> stmts \<Longrightarrow> s db = Inr (x, db') \<Longrightarrow> evolves gen db db'"
begin

lemma transaction_tracked:
  assumes "s \<in> stmts" and "db_inv gen db" and "db_typed db"
  shows "db_inv gen (snd (run_transaction fault s db)) \<and> db_typed (snd (run_transaction fault s db))
    \<and> evolves gen db (snd (run_transaction fault s db))"
proof -
  have "evolves gen db (snd (run_transaction fault s db))"
    using run_transaction_atomic [of fault s db] stmt_evolves [OF assms(1)] by (metis evolves_refl)
  with transaction_inv [OF assms(1)] assms(2,3) show ?thesis by blast
qed

lemma runs_tracked:
  "\<forall>(fault, s) \<in> set runs. s \<in> stmts \<Longrightarrow> db_inv gen db \<Longrightarrow> db_typed db \<Longrightarrow>
     evolves gen db (fold (\<lambda>(fault, s) db. snd (run_transaction fault s db)) runs db)"
proof (induction runs arbitrary: db)
  case (Cons run runs)
  obtain fault s where run: "run = (fault, s)" by (cases run)
  with Cons.prems have "s \<in> stmts" by auto
  from transaction_tracked [OF this Cons.prems(2,3), of fault] Cons.IH [of "snd (run_transaction fault s db)"] Cons.prems(1)
  show ?case unfolding run by (auto intro: evolves_trans)
qed simp

end

text \<open>What the two services and the reaper send the database, as statements with a result.\<close>

definition silent :: "(database \<Rightarrow> database) \<Rightarrow> database \<Rightarrow> sql_error + unit \<times> database" where
  "silent f db = Inr ((), f db)"

interpretation token_writes: tracked_store gen "range (\<lambda>(p, scs). sync_body gen p scs)" for gen
  by unfold_locales (auto dest: sync_body_inv sync_body_typed sync_body_evolves)

interpretation push_writes: tracked_store gen "{push_body gen now ip tag t ret digest | now ip tag t ret digest. True}" for gen
  by unfold_locales (auto dest: push_body_inv push_body_typed push_body_evolves)

interpretation event_writes: tracked_store gen
  "{silent (delete_manifest org name d) | org name d. True} \<union> {silent (update_last_pulled now org name t) | now org name t. True}" for gen
  by unfold_locales
    (auto simp: silent_def delete_manifest_inv update_last_pulled_inv update_last_pulled_typed update_last_pulled_evolves
      delete_manifest_def filter_images_inv filter_images_typed filter_images_evolves)

interpretation reap_writes: tracked_store gen "range (\<lambda>i. silent (delete_image i))" for gen
  by unfold_locales (auto simp: silent_def delete_image_def filter_images_inv filter_images_typed filter_images_evolves)

end
