(* ===== verification/StoreSystem.thy ===== *)
theory StoreSystem
  imports StoreTrack
begin

text \<open>
  Both services and any number of reapers on one database. The loop of \<open>reapObsoleteImages\<close>
  (\<open>hooks/src/util/imageRetention.ts\<close>) is cut at its awaits: the selection, the look-up of a digest, the
  deletion at the registry, the deletion of the row. In between, other reapers move and the services commit
  their transactions (the rows a transaction touched stay locked until it commits, and no repository is ever
  deleted, so one is a single step). What the registry answers, and whether a statement fails, is left open.
  \<open>rp_seen\<close>, \<open>rp_time\<close>, \<open>rp_query\<close>, \<open>rp_rows\<close> and \<open>rp_confirmed\<close> are ghosts: what a reaper's query read
  and returned, and for which rows the registry has confirmed the deletion.
\<close>

section \<open>State\<close>

type_synonym stale_row = "image_row \<times> repo_row"

datatype reap_phase =
    Looping "stale_row list"
  | LookingUp stale_row "stale_row list"
  | Deleting stale_row string "stale_row list"
  | Removing stale_row "stale_row list"
  | ReapDone

record reaper =
  rp_phase :: reap_phase
  rp_seen :: database
  rp_time :: int
  rp_query :: reap_params
  rp_rows :: "stale_row list"
  rp_confirmed :: "stale_row list"

record store_system =
  ss_db :: database
  ss_reapers :: "reaper list"

definition initial_store :: "database \<Rightarrow> store_system" where
  "initial_store db = \<lparr>ss_db = db, ss_reapers = []\<rparr>"

definition move_reaper :: "nat \<Rightarrow> reap_phase \<Rightarrow> store_system \<Rightarrow> store_system" where
  "move_reaper k phase s = s\<lparr>ss_reapers := (ss_reapers s)[k := (ss_reapers s ! k)\<lparr>rp_phase := phase\<rparr>]\<rparr>"

definition confirm_reaper :: "nat \<Rightarrow> stale_row \<Rightarrow> store_system \<Rightarrow> store_system" where
  "confirm_reaper k row s =
     s\<lparr>ss_reapers := (ss_reapers s)[k := (ss_reapers s ! k)\<lparr>rp_confirmed := row # rp_confirmed (ss_reapers s ! k)\<rparr>]\<rparr>"

section \<open>Steps\<close>

text \<open>What the handlers commit: a token request's sync, a push, a registry deletion, a pull.\<close>

inductive traffic_step :: "(nat \<Rightarrow> string) \<Rightarrow> database \<Rightarrow> database \<Rightarrow> bool" for gen where
  sync: "sync_body gen profile scopes db = Inr (x, db') \<Longrightarrow> traffic_step gen db db'"
| push: "push_body gen now ip tag t retention digest db = Inr (repo, db') \<Longrightarrow> traffic_step gen db db'"
| delete: "traffic_step gen db (delete_manifest org name digest db)"
| pull: "traffic_step gen db (update_last_pulled now org name tag db)"

text \<open>One await of reaper \<open>k\<close>.\<close>

inductive reap_step :: "nat \<Rightarrow> store_system \<Rightarrow> store_system \<Rightarrow> bool" for k where
  known: "k < length (ss_reapers s) \<Longrightarrow> rp_phase (ss_reapers s ! k) = Looping (row # rows) \<Longrightarrow>
    truthy (im_digest (fst row)) \<Longrightarrow> reap_step k s (move_reaper k (Deleting row (the (im_digest (fst row))) rows) s)"
| unknown: "k < length (ss_reapers s) \<Longrightarrow> rp_phase (ss_reapers s ! k) = Looping (row # rows) \<Longrightarrow>
    \<not> truthy (im_digest (fst row)) \<Longrightarrow> reap_step k s (move_reaper k (LookingUp row rows) s)"
| found: "k < length (ss_reapers s) \<Longrightarrow> rp_phase (ss_reapers s ! k) = LookingUp row rows \<Longrightarrow>
    reap_step k s (move_reaper k (Deleting row d rows) s)"
| gone: "k < length (ss_reapers s) \<Longrightarrow> rp_phase (ss_reapers s ! k) = LookingUp row rows \<Longrightarrow>
    reap_step k s (move_reaper k (Removing row rows) (confirm_reaper k row s))"
| lookup_fails: "k < length (ss_reapers s) \<Longrightarrow> rp_phase (ss_reapers s ! k) = LookingUp row rows \<Longrightarrow>
    reap_step k s (move_reaper k (Looping rows) s)"
| confirmed: "k < length (ss_reapers s) \<Longrightarrow> rp_phase (ss_reapers s ! k) = Deleting row d rows \<Longrightarrow>
    reap_step k s (move_reaper k (Removing row rows) (confirm_reaper k row s))"
| refused: "k < length (ss_reapers s) \<Longrightarrow> rp_phase (ss_reapers s ! k) = Deleting row d rows \<Longrightarrow>
    reap_step k s (move_reaper k (Looping rows) s)"
| removed: "k < length (ss_reapers s) \<Longrightarrow> rp_phase (ss_reapers s ! k) = Removing row rows \<Longrightarrow>
    reap_step k s (move_reaper k (Looping rows)
      (s\<lparr>ss_db := snd (run_statement fault (delete_image (im_id (fst row))) (ss_db s))\<rparr>))"
| finished: "k < length (ss_reapers s) \<Longrightarrow> rp_phase (ss_reapers s ! k) = Looping [] \<Longrightarrow>
    reap_step k s (move_reaper k ReapDone s)"

text \<open>A reaper starts with its query, under the configuration of the environment.\<close>

inductive store_step ::
  "(nat \<Rightarrow> string) \<Rightarrow> env \<Rightarrow> (string \<Rightarrow> string \<Rightarrow> bool) \<Rightarrow> (string \<Rightarrow> (string \<times> int) list \<Rightarrow> (string \<times> int) list)
     \<Rightarrow> store_system \<Rightarrow> store_system \<Rightarrow> bool" for gen env le ties where
  traffic: "traffic_step gen (ss_db s) db' \<Longrightarrow> store_step gen env le ties s (s\<lparr>ss_db := db'\<rparr>)"
| select: "select_stale_images le ties (reap_params_of env ids) now (ss_db s) = Some rows \<Longrightarrow>
    store_step gen env le ties s
      (s\<lparr>ss_reapers := ss_reapers s @ [\<lparr>rp_phase = Looping rows, rp_seen = ss_db s, rp_time = now,
          rp_query = reap_params_of env ids, rp_rows = rows, rp_confirmed = []\<rparr>]\<rparr>)"
| reap: "reap_step k s s' \<Longrightarrow> store_step gen env le ties s s'"

inductive_cases traffic_stepE: "traffic_step gen db db'"
inductive_cases reap_stepE: "reap_step k s s'"
inductive_cases store_stepE: "store_step gen env le ties s s'"

section \<open>Frames\<close>

lemma move_reaper_simps [simp]:
  "ss_db (move_reaper k p s) = ss_db s" "length (ss_reapers (move_reaper k p s)) = length (ss_reapers s)"
  "ss_db (confirm_reaper k row s) = ss_db s" "length (ss_reapers (confirm_reaper k row s)) = length (ss_reapers s)"
  by (simp_all add: move_reaper_def confirm_reaper_def)

lemma move_reaper_nth:
  "j < length (ss_reapers s) \<Longrightarrow> ss_reapers (move_reaper k p s) ! j
     = (if j = k then (ss_reapers s ! j)\<lparr>rp_phase := p\<rparr> else ss_reapers s ! j)"
  "j < length (ss_reapers s) \<Longrightarrow> ss_reapers (confirm_reaper k row s) ! j
     = (if j = k then (ss_reapers s ! j)\<lparr>rp_confirmed := row # rp_confirmed (ss_reapers s ! j)\<rparr> else ss_reapers s ! j)"
  by (auto simp: move_reaper_def confirm_reaper_def nth_list_update)

text \<open>The rows a reaper still has to look at, the one in hand first, and what it may remove.\<close>

definition rows_left :: "reap_phase \<Rightarrow> stale_row list" where
  "rows_left p = (case p of Looping rows \<Rightarrow> rows | LookingUp row rows \<Rightarrow> row # rows | Deleting row _ rows \<Rightarrow> row # rows
     | Removing row rows \<Rightarrow> row # rows | ReapDone \<Rightarrow> [])"

text \<open>What a step of a reaper can be, as a fact about the state.\<close>

lemma reap_step_effect:
  assumes "reap_step k s s'"
  shows "k < length (ss_reapers s) \<and> length (ss_reapers s') = length (ss_reapers s)
    \<and> (\<forall>j < length (ss_reapers s). j \<noteq> k \<longrightarrow> ss_reapers s' ! j = ss_reapers s ! j)
    \<and> (let q = ss_reapers s ! k; q' = ss_reapers s' ! k in
        rp_seen q' = rp_seen q \<and> rp_time q' = rp_time q \<and> rp_query q' = rp_query q \<and> rp_rows q' = rp_rows q
        \<and> (\<exists>done. rows_left (rp_phase q) = done @ rows_left (rp_phase q'))
        \<and> set (rp_confirmed q') \<subseteq> set (rp_confirmed q) \<union> set (rows_left (rp_phase q))
        \<and> set (rp_confirmed q) \<subseteq> set (rp_confirmed q')
        \<and> (\<forall>row rows. rp_phase q' = Removing row rows \<longrightarrow> row \<in> set (rp_confirmed q'))
        \<and> (ss_db s' = ss_db s \<or> (\<exists>row rows. rp_phase q = Removing row rows \<and> ss_db s' = delete_image (im_id (fst row)) (ss_db s))))"
  using assms
  by cases (auto simp: Let_def move_reaper_nth rows_left_def run_statement_def split: db_fault.splits)

end
