(* ===== verification/StoreSafety.thy ===== *)
theory StoreSafety
  imports StoreSystem
begin

text \<open>
  What holds in every interleaving of the services and the reapers: the tables stay consistent and typed,
  whatever a reaper still holds was to be reaped when it looked, and only for such rows, once the
  registry has confirmed, it deletes anything.
\<close>

section \<open>The invariant\<close>

definition reaper_ok ::
  "(nat \<Rightarrow> string) \<Rightarrow> (string \<Rightarrow> string \<Rightarrow> bool) \<Rightarrow> (string \<Rightarrow> (string \<times> int) list \<Rightarrow> (string \<times> int) list) \<Rightarrow> env
     \<Rightarrow> database \<Rightarrow> reaper \<Rightarrow> bool" where
  "reaper_ok gen le ties env db q \<longleftrightarrow>
     db_wf gen (rp_seen q) \<and> evolves gen (rp_seen q) db \<and> (\<exists>ids. rp_query q = reap_params_of env ids)
     \<and> select_stale_images le ties (rp_query q) (rp_time q) (rp_seen q) = Some (rp_rows q)
     \<and> (\<exists>done. rp_rows q = done @ rows_left (rp_phase q)) \<and> set (rp_confirmed q) \<subseteq> set (rp_rows q)
     \<and> (\<forall>row rows. rp_phase q = Removing row rows \<longrightarrow> row \<in> set (rp_confirmed q))"

definition store_inv ::
  "(nat \<Rightarrow> string) \<Rightarrow> (string \<Rightarrow> string \<Rightarrow> bool) \<Rightarrow> (string \<Rightarrow> (string \<times> int) list \<Rightarrow> (string \<times> int) list) \<Rightarrow> env
     \<Rightarrow> store_system \<Rightarrow> bool" where
  "store_inv gen le ties env s \<longleftrightarrow> db_inv gen (ss_db s) \<and> db_typed (ss_db s)
     \<and> (\<forall>q \<in> set (ss_reapers s). reaper_ok gen le ties env (ss_db s) q)"

text \<open>The writers' contracts, for one step of traffic.\<close>

lemma silent_step: "silent f db = Inr ((), f db)"
  by (simp add: silent_def)

lemma traffic_step_tracked:
  assumes "traffic_step gen db db'" and "db_inv gen db" and "db_typed db"
  shows "db_inv gen db' \<and> db_typed db' \<and> evolves gen db db'"
  using assms(1)
proof cases
  case (sync profile scopes x)
  with assms(2,3) show ?thesis using sync_body_inv sync_body_typed sync_body_evolves by blast
next
  case (push now ip tag t retention digest repo)
  from push_body_inv [OF push assms(2)] push_body_typed [OF push assms(3)] push_body_evolves [OF push] show ?thesis by simp
next
  case (delete org name digest)
  have "silent (delete_manifest org name digest) \<in> {silent (delete_manifest org name d) | org name d. True}
      \<union> {silent (update_last_pulled now org name t) | now org name t. True}" by blast
  from event_writes.transaction_tracked [OF this assms(2,3), of NoFault] delete show ?thesis by (simp add: run_transaction_def silent_step)
next
  case (pull now org name tag)
  have "silent (update_last_pulled now org name tag) \<in> {silent (delete_manifest org name d) | org name d. True}
      \<union> {silent (update_last_pulled now org name t) | now org name t. True}" by blast
  from event_writes.transaction_tracked [OF this assms(2,3), of NoFault] pull show ?thesis by (simp add: run_transaction_def silent_step)
qed

lemma reap_step_tracked:
  assumes "reap_step k s s'" and "db_inv gen (ss_db s)" and "db_typed (ss_db s)"
  shows "db_inv gen (ss_db s') \<and> db_typed (ss_db s') \<and> evolves gen (ss_db s) (ss_db s')"
proof -
  from reap_step_effect [OF assms(1)] consider "ss_db s' = ss_db s" | i where "ss_db s' = delete_image i (ss_db s)"
    unfolding Let_def by blast
  then show ?thesis
  proof cases
    case 2
    from reap_writes.transaction_tracked [OF _ assms(2,3), of "silent (delete_image i)" NoFault] 2
    show ?thesis by (simp add: run_transaction_def silent_step)
  qed (use assms in simp)
qed

lemma reaper_ok_mono: "reaper_ok gen le ties env db q \<Longrightarrow> evolves gen db db' \<Longrightarrow> reaper_ok gen le ties env db' q"
  unfolding reaper_ok_def by (blast intro: evolves_trans)

lemma reap_step_reaper_ok:
  assumes "reap_step k s s'" and "reaper_ok gen le ties env (ss_db s) (ss_reapers s ! k)"
  shows "reaper_ok gen le ties env (ss_db s) (ss_reapers s' ! k)"
proof -
  let ?q = "ss_reapers s ! k" and ?q' = "ss_reapers s' ! k"
  note e = reap_step_effect [OF assms(1), unfolded Let_def]
  obtain past1 where d1: "rows_left (rp_phase ?q) = past1 @ rows_left (rp_phase ?q')" using e by blast
  obtain past where d: "rp_rows ?q = past @ rows_left (rp_phase ?q)" using assms(2) by (auto simp: reaper_ok_def)
  have "rp_rows ?q' = (past @ past1) @ rows_left (rp_phase ?q')" using e d d1 by simp
  moreover have "set (rp_confirmed ?q') \<subseteq> set (rp_rows ?q')" using e d assms(2) by (auto simp: reaper_ok_def)
  ultimately show ?thesis using e assms(2) unfolding reaper_ok_def by metis
qed

lemma store_step_inv:
  assumes "store_step gen env le ties s s'" and "store_inv gen le ties env s"
  shows "store_inv gen le ties env s'"
  using assms(1)
proof cases
  case (traffic db')
  from assms(2) traffic_step_tracked [OF traffic(2)] show ?thesis
    unfolding traffic(1) by (auto simp: store_inv_def intro: reaper_ok_mono)
next
  case (select ids now rows)
  with assms(2) show ?thesis by (auto simp: store_inv_def reaper_ok_def rows_left_def db_inv_def)
next
  case (reap k)
  note e = reap_step_effect [OF reap]
  have t: "db_inv gen (ss_db s')" "db_typed (ss_db s')" "evolves gen (ss_db s) (ss_db s')"
    using reap_step_tracked [OF reap] assms(2) by (auto simp: store_inv_def)
  have "reaper_ok gen le ties env (ss_db s') (ss_reapers s' ! j)" if j: "j < length (ss_reapers s')" for j
  proof -
    have q: "reaper_ok gen le ties env (ss_db s) (ss_reapers s ! j)" using assms(2) e j by (simp add: store_inv_def)
    then have "reaper_ok gen le ties env (ss_db s) (ss_reapers s' ! j)"
      using e j reap_step_reaper_ok [OF reap] by (cases "j = k") auto
    then show ?thesis using t(3) by (rule reaper_ok_mono)
  qed
  with t show ?thesis by (auto simp: store_inv_def in_set_conv_nth)
qed

definition store_reachable ::
  "(nat \<Rightarrow> string) \<Rightarrow> env \<Rightarrow> (string \<Rightarrow> string \<Rightarrow> bool) \<Rightarrow> (string \<Rightarrow> (string \<times> int) list \<Rightarrow> (string \<times> int) list)
     \<Rightarrow> database \<Rightarrow> store_system \<Rightarrow> bool" where
  "store_reachable gen env le ties db s \<longleftrightarrow> (store_step gen env le ties)\<^sup>*\<^sup>* (initial_store db) s"

lemma store_reachable_inv:
  assumes "store_reachable gen env le ties db s" and "db_inv gen db" and "db_typed db"
  shows "store_inv gen le ties env s"
  using assms(1) unfolding store_reachable_def
proof (induction rule: rtranclp_induct)
  case base
  with assms(2,3) show ?case by (simp add: store_inv_def initial_store_def)
next
  case (step s1 s2)
  then show ?case using store_step_inv by blast
qed

text \<open>Any number of steps develop the database.\<close>

lemma store_step_evolves: "store_step gen env le ties s s' \<Longrightarrow> store_inv gen le ties env s \<Longrightarrow> evolves gen (ss_db s) (ss_db s')"
  by (erule store_stepE) (auto simp: store_inv_def dest: traffic_step_tracked reap_step_tracked)

section \<open>What removes an image\<close>

text \<open>Only two statements remove anything: an event's deletion by digest and a reaper's deletion by id.\<close>

lemma upsert_image_ids: "upsert_image gen now p db = Inr (x, db') \<Longrightarrow> im_id ` set (db_images db) \<subseteq> im_id ` set (db_images db')"
proof -
  let ?e = "excluded_row (gen (db_next_id db)) now p"
  assume "upsert_image gen now p db = Inr (x, db')"
  then consider "db' = db\<lparr>db_images := map (\<lambda>i. if same_image ?e i then merge_image ?e i else i) (db_images db)\<rparr>"
    | "db' = db\<lparr>db_images := db_images db @ [?e], db_next_id := Suc (db_next_id db)\<rparr>"
    by (auto simp: upsert_image_def Let_def split: option.splits if_splits)
  then show ?thesis
  proof cases
    case 1
    have "map im_id (db_images db') = map im_id (db_images db)" unfolding 1 by (simp add: map_if_key)
    then show ?thesis by (simp add: map_eq_image [of im_id "db_images db'"])
  qed auto
qed

lemma push_body_ids:
  assumes "push_body gen now ip tag t ret digest db = Inr (x, db')" and "db_inv gen db"
  shows "im_id ` set (db_images db) \<subseteq> im_id ` set (db_images db')"
proof -
  obtain repo_id db1 p u where "upsert_repo gen (ip_organization ip) (ip_name ip) db = Inr (repo_id, db1)"
      "upsert_image gen now p db1 = Inr (u, db')"
    using assms(1) by (auto simp: push_body_def split: sum.splits)
  with assms(2) upsert_repo_inv upsert_image_ids show ?thesis by metis
qed

lemma update_last_pulled_ids: "im_id ` set (db_images (update_last_pulled now org name tag db)) = im_id ` set (db_images db)"
  by (rule map_eq_image) (simp add: update_last_pulled_def map_if_key)

definition loses :: "store_system \<Rightarrow> store_system \<Rightarrow> image_row \<Rightarrow> bool" where
  "loses s s' i \<longleftrightarrow> i \<in> set (db_images (ss_db s)) \<and> im_id i \<notin> im_id ` set (db_images (ss_db s'))"

lemma traffic_step_loses:
  assumes "traffic_step gen db db'" and "db_inv gen db" and "i \<in> set (db_images db)" and "im_id i \<notin> im_id ` set (db_images db')"
  shows "\<exists>org name d. db' = delete_manifest org name d db \<and> repo_named org name db i \<and> im_digest i = Some d"
  using assms(1)
proof cases
  case (sync profile scopes x)
  with assms sync_body_inv show ?thesis by fastforce
next
  case (push now ip tag t retention digest repo)
  with assms push_body_ids show ?thesis by blast
next
  case (delete org name digest)
  with assms(3,4) show ?thesis by (auto simp: delete_manifest_def)
next
  case (pull now org name tag)
  with assms(3,4) update_last_pulled_ids show ?thesis by blast
qed

text \<open>A reaper's pending or confirmed row is an image of the repository and tag it had when it was selected.\<close>

lemma reaper_row_current:
  assumes ok: "reaper_ok gen le ties env db q" and inv: "db_inv gen db"
    and row: "row \<in> set (rp_rows q)" and i: "i \<in> set (db_images db)" "im_id i = im_id (fst row)"
  shows "im_repository_id i = im_repository_id (fst row) \<and> im_tag i = im_tag (fst row)
    \<and> row \<in> set (join_repos (rp_seen q)) \<and> reapable le ties (rp_query q) (rp_time q) (rp_seen q) row"
proof -
  have wf: "db_wf gen (rp_seen q)" and ev: "evolves gen (rp_seen q) db"
    and sel: "select_stale_images le ties (rp_query q) (rp_time q) (rp_seen q) = Some (rp_rows q)"
    using ok by (simp_all add: reaper_ok_def)
  note sr = selected_reapable [OF wf sel row]
  then have f: "fst row \<in> set (db_images (rp_seen q))" using join_mem by (metis prod.collapse)
  then have "im_id i \<in> gen ` {..<db_next_id (rp_seen q)}" using wf i(2) by (auto simp: db_wf_def)
  then have "im_id i \<notin> gen ` {db_next_id (rp_seen q)..}" using inv by (auto simp: db_inv_def inj_eq)
  with ev i(1) obtain j where "j \<in> set (db_images (rp_seen q))" "im_id j = im_id i"
      "im_repository_id j = im_repository_id i" "im_tag j = im_tag i"
    unfolding evolves_def by blast
  with same_id_same_image [OF wf _ f] i(2) sr show ?thesis by metis
qed

lemma reap_step_loses:
  assumes step: "reap_step k s s'" and inv: "store_inv gen le ties env s" and lost: "loses s s' i"
  shows "\<exists>q \<in> set (ss_reapers s). \<exists>row \<in> set (rp_confirmed q). reaper_ok gen le ties env (ss_db s) q
    \<and> row \<in> set (rp_rows q) \<and> im_id i = im_id (fst row)"
proof -
  let ?q = "ss_reapers s ! k"
  have q: "?q \<in> set (ss_reapers s)" using reap_step_effect [OF step] by simp
  then have ok: "reaper_ok gen le ties env (ss_db s) ?q" using inv by (simp add: store_inv_def)
  have "ss_db s' \<noteq> ss_db s" using lost by (auto simp: loses_def)
  with reap_step_effect [OF step] obtain row rows where
    row: "rp_phase ?q = Removing row rows" "ss_db s' = delete_image (im_id (fst row)) (ss_db s)"
    unfolding Let_def by blast
  then have "im_id i = im_id (fst row)" using lost by (auto simp: loses_def delete_image_def)
  moreover have "row \<in> set (rp_confirmed ?q)" "set (rp_confirmed ?q) \<subseteq> set (rp_rows ?q)" using ok row(1) by (auto simp: reaper_ok_def)
  ultimately show ?thesis using q ok by blast
qed

section \<open>Properties\<close>


text \<open>
  C6. No image is lost but for a reason: whatever is interleaved, a step after which a recorded image is no
  longer there is the deletion of its manifest, as the registry reported it, or a reaper's for a row it
  had selected, which named this very repository and tag and was to be reaped when the reaper looked, and
  whose deletion the registry had confirmed to it.
\<close>

theorem lost_images_accounted:
  assumes "db_inv gen db" and "db_typed db" and reach: "store_reachable gen env le ties db s"
    and step: "store_step gen env le ties s s'" and lost: "loses s s' i"
  shows "(\<exists>org name d. ss_db s' = delete_manifest org name d (ss_db s) \<and> repo_named org name (ss_db s) i \<and> im_digest i = Some d)
    \<or> (\<exists>q \<in> set (ss_reapers s). \<exists>row \<in> set (rp_confirmed q). im_id (fst row) = im_id i
         \<and> im_repository_id (fst row) = im_repository_id i \<and> im_tag (fst row) = im_tag i
         \<and> reapable le ties (rp_query q) (rp_time q) (rp_seen q) row)"
proof -
  note inv = store_reachable_inv [OF reach assms(1,2)]
  then have db: "db_inv gen (ss_db s)" by (simp add: store_inv_def)
  have i: "i \<in> set (db_images (ss_db s))" "im_id i \<notin> im_id ` set (db_images (ss_db s'))" using lost by (simp_all add: loses_def)
  from step show ?thesis
  proof cases
    case (traffic db')
    then have "ss_db s' = db'" by simp
    with traffic_step_loses [OF traffic(2) db i(1)] i(2) show ?thesis by blast
  next
    case (select ids now rows)
    then show ?thesis using i by simp
  next
    case (reap k)
    from reap_step_loses [OF reap inv lost] obtain q row where q: "q \<in> set (ss_reapers s)" "row \<in> set (rp_confirmed q)"
        "reaper_ok gen le ties env (ss_db s) q" "row \<in> set (rp_rows q)" "im_id i = im_id (fst row)" by blast
    with reaper_row_current [OF q(3) db q(4) i(1) q(5)] show ?thesis by auto
  qed
qed

text \<open>
  No interleaving reaps a protected namespace: if an image of a repository in or under one is lost
  in any step, that step was the recording of a deletion at the registry of the image's own manifest.
\<close>

theorem protected_images_never_reaped:
  assumes "db_inv gen db" and "db_typed db" and reach: "store_reachable gen env le ties db s"
    and step: "store_step gen env le ties s s'" and lost: "loses s s' i"
    and ns: "ns \<in> set (parse_protected_namespaces env None)" "plain_ascii ns"
    and rp: "(i, rp) \<in> set (join_repos (ss_db s))" "under_namespace ns (repo_path rp)"
  shows "\<exists>d. im_digest i = Some d \<and> ss_db s' = delete_manifest (re_organization rp) (re_name rp) d (ss_db s)"
proof -
  note inv = store_reachable_inv [OF reach assms(1,2)]
  then have db: "db_inv gen (ss_db s)" by (simp add: store_inv_def)
  then have "inj_on re_id (set (db_repos (ss_db s)))" by (simp add: db_inv_def db_wf_def distinct_map)
  then have uniq: "r = rp" if "r \<in> set (db_repos (ss_db s))" "re_id r = im_repository_id i" for r
    using that join_mem [OF rp(1)] inj_onD by metis
  have i: "i \<in> set (db_images (ss_db s))" "im_id i \<notin> im_id ` set (db_images (ss_db s'))" using lost by (simp_all add: loses_def)
  from step show ?thesis
  proof cases
    case (traffic db')
    then have "ss_db s' = db'" by simp
    with traffic_step_loses [OF traffic(2) db i(1)] i(2) obtain org name d where
      "ss_db s' = delete_manifest org name d (ss_db s)" "repo_named org name (ss_db s) i" "im_digest i = Some d" by blast
    with uniq show ?thesis by (auto simp: repo_named_def list_ex_iff)
  next
    case (select ids now rows)
    then show ?thesis using i by simp
  next
    case (reap k)
    from reap_step_loses [OF reap inv lost] obtain q row where q: "reaper_ok gen le ties env (ss_db s) q" "row \<in> set (rp_rows q)"
        "im_id i = im_id (fst row)" by blast
    note cur = reaper_row_current [OF q(1) db q(2) i(1) q(3)]
    obtain j x where row: "row = (j, x)" by (cases row)
    with cur have x: "x \<in> set (db_repos (rp_seen q))" "re_id x = im_repository_id i" using join_mem [of j x] by auto
    from q(1) x(1) obtain x' where "x' \<in> set (db_repos (ss_db s))" "re_id x' = re_id x"
        "re_organization x' = re_organization x" "re_name x' = re_name x"
      unfolding reaper_ok_def evolves_def by blast
    with uniq x(2) have "repo_path x = repo_path rp" by (metis repo_path_def)
    then have "is_protected (rp_protected (rp_query q)) (repo_path x)"
      using q(1) protected_under [OF ns(2,1) rp(2)] by (auto simp: reaper_ok_def reap_params_of_def)
    with cur row show ?thesis by (simp add: reapable_def)
  qed
qed

section \<open>Instances\<close>

definition demo_row :: stale_row where
  "demo_row = (demo_image ''i1'' ''a'' 5, \<lparr>re_id = ''r1'', re_organization = ''bob'', re_name = ''app'', re_user_id = Some ''u1''\<rparr>)"

definition demo_held :: "reap_phase \<Rightarrow> stale_row list \<Rightarrow> database \<Rightarrow> store_system" where
  "demo_held p c db = \<lparr>ss_db = db, ss_reapers = [\<lparr>rp_phase = p, rp_seen = demo_database, rp_time = 10,
     rp_query = reap_params_of (\<lambda>_. None) None, rp_rows = [demo_row], rp_confirmed = c\<rparr>]\<rparr>"

abbreviation demo_step :: "store_system \<Rightarrow> store_system \<Rightarrow> bool" where
  "demo_step \<equiv> store_step demo_gen (\<lambda>_. None) (\<le>) (\<lambda>_ xs. xs)"

lemma demo_database_typed: "db_typed demo_database" "db_typed demo_std_database"
  by (simp_all add: db_typed_def demo_std_database_def demo_database_def typed_user_def typed_repo_def typed_image_def demo_image_def
      opt_ok_def varchar_ok_def code_points_def)

lemma demo_steps:
  "demo_step (initial_store demo_database) (demo_held (Looping [demo_row]) [] demo_database)"
  "demo_step (demo_held (Looping [demo_row]) c db) (demo_held (Deleting demo_row ''sha256:d'' []) c db)"
  "demo_step (demo_held (Deleting demo_row d []) [] db) (demo_held (Removing demo_row []) [demo_row] db)"
  "demo_step (demo_held (Removing demo_row []) c db) (demo_held (Looping []) c (delete_image ''i1'' db))"
  "traffic_step demo_gen db db' \<Longrightarrow> demo_step (demo_held p c db) (demo_held p c db')"
proof -
  from store_step.select [of "(\<le>)" "\<lambda>_ xs. xs" "\<lambda>_. None" None 10 "initial_store demo_database" "[demo_row]" demo_gen]
  show "demo_step (initial_store demo_database) (demo_held (Looping [demo_row]) [] demo_database)"
    by (simp add: initial_store_def demo_stale demo_row_def demo_held_def)
  have dg: "im_digest (fst demo_row) = Some ''sha256:d''" "im_id (fst demo_row) = ''i1''" by (simp_all add: demo_row_def demo_image_def)
  from reap_step.known [of 0 "demo_held (Looping [demo_row]) c db" demo_row "[]"]
  show "demo_step (demo_held (Looping [demo_row]) c db) (demo_held (Deleting demo_row ''sha256:d'' []) c db)"
    by (intro store_step.reap [of 0]) (simp add: demo_held_def move_reaper_def dg truthy_def)
  from reap_step.confirmed [of 0 "demo_held (Deleting demo_row d []) [] db" demo_row d "[]"]
  show "demo_step (demo_held (Deleting demo_row d []) [] db) (demo_held (Removing demo_row []) [demo_row] db)"
    by (intro store_step.reap [of 0]) (simp add: demo_held_def move_reaper_def confirm_reaper_def)
  from reap_step.removed [of 0 "demo_held (Removing demo_row []) c db" demo_row "[]" NoFault]
  show "demo_step (demo_held (Removing demo_row []) c db) (demo_held (Looping []) c (delete_image ''i1'' db))"
    by (intro store_step.reap [of 0]) (simp add: demo_held_def move_reaper_def run_statement_def dg)
  assume "traffic_step demo_gen db db'"
  then show "demo_step (demo_held p c db) (demo_held p c db')"
    using store_step.traffic [of demo_gen "demo_held p c db" db'] by (simp add: demo_held_def)
qed

lemma demo_reachable:
  "store_reachable demo_gen (\<lambda>_. None) (\<le>) (\<lambda>_ xs. xs) demo_database (demo_held (Deleting demo_row ''sha256:d'' []) [] demo_database)"
  "traffic_step demo_gen demo_database db \<Longrightarrow>
     store_reachable demo_gen (\<lambda>_. None) (\<le>) (\<lambda>_ xs. xs) demo_database (demo_held (Removing demo_row []) [demo_row] db)"
proof -
  show "store_reachable demo_gen (\<lambda>_. None) (\<le>) (\<lambda>_ xs. xs) demo_database (demo_held (Deleting demo_row ''sha256:d'' []) [] demo_database)"
    unfolding store_reachable_def using demo_steps(1,2) by (meson converse_rtranclp_into_rtranclp r_into_rtranclp)
  moreover assume "traffic_step demo_gen demo_database db"
  ultimately show "store_reachable demo_gen (\<lambda>_. None) (\<le>) (\<lambda>_ xs. xs) demo_database (demo_held (Removing demo_row []) [demo_row] db)"
    unfolding store_reachable_def using demo_steps(3,5) by (meson rtranclp.rtrancl_into_rtrancl)
qed


lemma pull_step: "traffic_step demo_gen demo_database (update_last_pulled 10 ''bob'' ''app'' ''b'' demo_database)"
  by (rule traffic_step.pull)

lemma demo_loses:
  "im_id i = ''i1'' \<Longrightarrow> i \<in> set (db_images db) \<Longrightarrow>
     loses (demo_held p c db) (demo_held p' c' (delete_image ''i1'' db)) i"
  by (auto simp: loses_def demo_held_def delete_image_def)

text \<open>A pull between the selection and the removal: the row is removed all the same.\<close>

theorem lost_images_accounted_witness:
  "let s = demo_held (Removing demo_row []) [demo_row] (update_last_pulled 10 ''bob'' ''app'' ''b'' demo_database) in
     \<exists>q \<in> set (ss_reapers s). \<exists>row \<in> set (rp_confirmed q). im_id (fst row) = ''i1''"
proof -
  let ?db = "update_last_pulled 10 ''bob'' ''app'' ''b'' demo_database"
  have i: "demo_image ''i1'' ''a'' 5 \<in> set (db_images ?db)" "im_id (demo_image ''i1'' ''a'' 5) = ''i1''"
    "im_digest (demo_image ''i1'' ''a'' 5) = Some ''sha256:d''"
    by (simp_all add: update_last_pulled_def demo_database_def demo_image_def)
  let ?s = "demo_held (Removing demo_row []) [demo_row] ?db"
  have "ss_db (demo_held (Looping []) [demo_row] (delete_image ''i1'' ?db)) \<noteq> delete_manifest org name d ?db"
    if "repo_named org name ?db (demo_image ''i1'' ''a'' 5)" "Some d = Some ''sha256:d''" for org name d
  proof -
    have "org = ''bob''" "name = ''app''" using that(1) by (auto simp: repo_named_def update_last_pulled_def demo_database_def demo_image_def)
    then have "db_images (delete_manifest org name d ?db) = []" using that(2)
      by (simp add: delete_manifest_def repo_named_def update_last_pulled_def demo_database_def demo_image_def)
    moreover have "db_images (delete_image ''i1'' ?db) \<noteq> []"
      by (simp add: delete_image_def update_last_pulled_def demo_database_def demo_image_def)
    ultimately show ?thesis by (auto simp: demo_held_def)
  qed
  with lost_images_accounted [OF demo_database_inv demo_database_typed(1) demo_reachable(2) [OF pull_step] demo_steps(4) demo_loses [OF i(2,1)]] i
  show ?thesis by (auto simp: demo_held_def)
qed

theorem protected_images_never_reaped_witness:
  "\<exists>d. im_digest (demo_image ''i1'' ''a'' 5) = Some d \<and> delete_manifest ''wasm'' ''std/http'' ''sha256:d'' demo_std_database
     = delete_manifest ''wasm'' ''std/http'' d demo_std_database"
proof -
  let ?r = "\<lparr>re_id = ''r1'', re_organization = ''wasm'', re_name = ''std/http'', re_user_id = None\<rparr>"
  let ?s = "initial_store demo_std_database" and ?db = "delete_manifest ''wasm'' ''std/http'' ''sha256:d'' demo_std_database"
  have inv: "db_inv demo_gen demo_std_database"
    using demo_database_inv by (simp add: demo_std_database_def db_inv_def db_wf_def demo_database_def demo_image_def)
  have reach: "store_reachable demo_gen (\<lambda>_. None) (\<le>) (\<lambda>_ xs. xs) demo_std_database ?s" by (simp add: store_reachable_def)
  have step: "demo_step ?s (?s\<lparr>ss_db := ?db\<rparr>)"
    by (rule store_step.traffic) (simp add: initial_store_def traffic_step.delete)
  have lost: "loses ?s (?s\<lparr>ss_db := ?db\<rparr>) (demo_image ''i1'' ''a'' 5)"
    by (simp add: loses_def initial_store_def delete_manifest_def repo_named_def demo_std_database_def demo_database_def demo_image_def)
  have "parse_protected_namespaces (\<lambda>_. None) None = [''wasm/std'']" by code_simp
  then have ns: "''wasm/std'' \<in> set (parse_protected_namespaces (\<lambda>_. None) None)" "plain_ascii ''wasm/std''"
    by (simp_all add: plain_ascii_def)
  have i: "(demo_image ''i1'' ''a'' 5, ?r) \<in> set (join_repos (ss_db ?s))" "under_namespace ''wasm/std'' (repo_path ?r)"
    by (simp_all add: initial_store_def join_repos_def demo_std_database_def demo_database_def demo_image_def under_namespace_def repo_path_def starts_with_def)
  from protected_images_never_reaped [OF inv demo_database_typed(2) reach step lost ns i] show ?thesis by (auto simp: initial_store_def)
qed

text \<open>
  C20. The reaper can remove a tag that was pushed a moment ago: between the query and the deletion of the row
  nothing looks again. Here the superseded tag \<open>a\<close> is selected, the registry is asked to delete its old manifest, a push
  moves the tag to a new one and is recorded, and the reaper then removes the row: the newest image of
  its repository, pushed after the reaper looked.
\<close>

theorem reap_removes_fresh_push:
  "\<exists>s s' i. store_reachable demo_gen (\<lambda>_. None) (\<le>) (\<lambda>_ xs. xs) demo_database s \<and> reap_step 0 s s' \<and> loses s s' i
     \<and> keeps_latest i \<and> im_last_pushed_at i > rp_time (ss_reapers s ! 0) \<and> im_digest i = Some ''sha256:e''
     \<and> filter (\<lambda>b. ranks_before (\<le>) b i) (db_images (ss_db s)) = []"
proof -
  let ?i = "(demo_image ''i1'' ''a'' 5)\<lparr>im_last_pushed_at := 20000, im_digest := Some ''sha256:e''\<rparr>"
  let ?db = "demo_database\<lparr>db_images := [?i, demo_image ''i2'' ''b'' 5]\<rparr>"
  let ?s = "demo_held (Removing demo_row []) [demo_row] ?db" and ?s' = "demo_held (Looping []) [demo_row] (delete_image ''i1'' ?db)"
  have "push_body demo_gen 12 \<lparr>ip_provenance = Pushed, ip_organization = ''bob'', ip_name = ''app'', ip_cluster_id = None, ip_upstream_ref = None\<rparr>
      ''a'' 20 keep_latest_retention (Some ''sha256:e'') demo_database = Inr (''r1'', ?db)"
    by (simp add: push_body_def upsert_repo_def upsert_image_def first_error_def map_filter_simps check_varchar_def check_image_def
        check_opt_def check_text_def code_points_def demo_database_def keep_latest_retention_def excluded_row_def same_image_def merge_image_def
        demo_image_def coalesce_def timestamp_of_ms_def Let_def)
  then have "traffic_step demo_gen demo_database ?db" by (rule traffic_step.push)
  from demo_reachable(2) [OF this] have reach: "store_reachable demo_gen (\<lambda>_. None) (\<le>) (\<lambda>_ xs. xs) demo_database ?s" .
  have lost: "loses ?s ?s' ?i" by (rule demo_loses) (simp_all add: demo_image_def)
  from reap_step.removed [of 0 ?s demo_row "[]" NoFault] have step: "reap_step 0 ?s ?s'"
    by (simp add: demo_held_def move_reaper_def run_statement_def demo_row_def demo_image_def)
  have "filter (\<lambda>b. ranks_before (\<le>) b ?i) (db_images (ss_db ?s)) = []"
    by (simp add: demo_held_def ranks_before_def demo_image_def)
  with reach lost step show ?thesis
    by (intro exI [of _ ?s] exI [of _ ?s'] exI [of _ ?i]) (simp add: keeps_latest_def demo_held_def demo_image_def)
qed

end
