(* ===== verification/StoreRuns.thy ===== *)
theory StoreRuns
  imports StoreSafety
begin

text \<open>
  Runs of the interleaved store: a reaper comes to its end after a bounded number of its own awaits,
  whatever the others do in between, and what the handlers do one after another (\<open>hook\<close>, \<open>reap_obsolete_images\<close>,
  \<open>handle_token\<close>) is one of the runs, so that the facts about all interleavings hold of them.
\<close>

section \<open>Termination\<close>

definition reap_weight :: "reap_phase \<Rightarrow> nat" where
  "reap_weight p = (case p of Looping rows \<Rightarrow> 4 * length rows + 1 | LookingUp _ rows \<Rightarrow> 4 * length rows + 4
     | Deleting _ _ rows \<Rightarrow> 4 * length rows + 3 | Removing _ rows \<Rightarrow> 4 * length rows + 2 | ReapDone \<Rightarrow> 0)"

abbreviation phase_of :: "nat \<Rightarrow> store_system \<Rightarrow> reap_phase" where
  "phase_of k s \<equiv> rp_phase (ss_reapers s ! k)"

lemma reap_weight_pos: "reap_weight p = 0 \<longleftrightarrow> p = ReapDone"
  by (cases p) (simp_all add: reap_weight_def)

lemma reap_step_decreases: "reap_step k s s' \<Longrightarrow> reap_weight (phase_of k s') < reap_weight (phase_of k s)"
  by (erule reap_stepE) (auto simp: move_reaper_nth reap_weight_def)

text \<open>A reaper that has not ended can always move: every await returns or throws.\<close>

lemma reap_step_enabled:
  assumes "k < length (ss_reapers s)" and "phase_of k s \<noteq> ReapDone"
  shows "\<exists>s'. reap_step k s s'"
proof (cases "phase_of k s")
  case (Looping rows)
  then show ?thesis
  proof (cases rows)
    case Nil
    with Looping assms show ?thesis by (blast intro: reap_step.finished)
  next
    case (Cons row rest)
    with Looping assms reap_step.known [of k s row rest] reap_step.unknown [of k s row rest] show ?thesis
      by (cases "truthy (im_digest (fst row))") blast+
  qed
next
  case (LookingUp row rows)
  with assms show ?thesis by (blast intro: reap_step.lookup_fails)
next
  case (Deleting row d rows)
  with assms show ?thesis by (blast intro: reap_step.refused)
next
  case (Removing row rows)
  with assms show ?thesis by (blast intro: reap_step.removed)
qed (use assms in simp)

text \<open>Nobody else moves it.\<close>

lemma others_keep_phase:
  assumes "store_step gen env le ties s s'" and "\<not> reap_step k s s'" and "k < length (ss_reapers s)"
  shows "phase_of k s' = phase_of k s \<and> k < length (ss_reapers s')"
  using assms(1)
proof cases
  case (reap j)
  with assms(2) have "j \<noteq> k" by blast
  with reap_step_effect [OF reap] assms(3) show ?thesis by auto
qed (use assms(3) in \<open>auto simp: nth_append\<close>)

text \<open>A run, with the number of moves reaper \<open>k\<close> makes in it.\<close>

inductive counted_run ::
  "(nat \<Rightarrow> string) \<Rightarrow> env \<Rightarrow> (string \<Rightarrow> string \<Rightarrow> bool) \<Rightarrow> (string \<Rightarrow> (string \<times> int) list \<Rightarrow> (string \<times> int) list)
     \<Rightarrow> nat \<Rightarrow> nat \<Rightarrow> store_system \<Rightarrow> store_system \<Rightarrow> bool" for gen env le ties k where
  start: "counted_run gen env le ties k 0 s s"
| own: "counted_run gen env le ties k n s s' \<Longrightarrow> reap_step k s' s'' \<Longrightarrow> counted_run gen env le ties k (Suc n) s s''"
| other: "counted_run gen env le ties k n s s' \<Longrightarrow> store_step gen env le ties s' s'' \<Longrightarrow> \<not> reap_step k s' s'' \<Longrightarrow>
    counted_run gen env le ties k n s s''"

lemma counted_run_weight:
  "counted_run gen env le ties k n s s' \<Longrightarrow> k < length (ss_reapers s) \<Longrightarrow>
     n + reap_weight (phase_of k s') \<le> reap_weight (phase_of k s) \<and> k < length (ss_reapers s')"
proof (induction rule: counted_run.induct)
  case (own n s s' s'')
  with reap_step_decreases [OF own(2)] reap_step_effect [OF own(2)] show ?case by auto
next
  case (other n s s' s'')
  with others_keep_phase [OF other(2,3)] show ?case by simp
qed simp

lemma select_length: "select_stale_images le ties p now db = Some rows \<Longrightarrow> length rows \<le> 500"
  by (auto simp: select_stale_images_def Let_def split: if_splits option.splits)

text \<open>
  C7. Every reap comes to an end: from its query on, in any interleaving with the services and other
  reapers, a reaper makes at most 2001 moves (four for each of at most 500 rows, and the last), and as
  long as it has not ended it has a move to make, whatever the registry answers and whether or not its
  statements fail.
\<close>

theorem every_reap_ends:
  assumes sel: "select_stale_images le ties (reap_params_of env ids) now (ss_db s) = Some rows"
    and run: "counted_run gen env le ties (length (ss_reapers s)) n
      (s\<lparr>ss_reapers := ss_reapers s @ [\<lparr>rp_phase = Looping rows, rp_seen = ss_db s, rp_time = now,
          rp_query = reap_params_of env ids, rp_rows = rows, rp_confirmed = []\<rparr>]\<rparr>) s'"
  shows "n \<le> 2001 \<and> (n < 2001 \<or> rp_phase (ss_reapers s' ! length (ss_reapers s)) = ReapDone)
    \<and> (rp_phase (ss_reapers s' ! length (ss_reapers s)) = ReapDone \<or> (\<exists>s''. reap_step (length (ss_reapers s)) s' s''))"
proof -
  let ?k = "length (ss_reapers s)"
  from counted_run_weight [OF run] have w: "n + reap_weight (phase_of ?k s') \<le> 4 * length rows + 1" and k: "?k < length (ss_reapers s')"
    by (simp_all add: reap_weight_def)
  have "n + reap_weight (phase_of ?k s') \<le> 2001" using w select_length [OF sel] by simp
  moreover from this have "n < 2001 \<or> phase_of ?k s' = ReapDone" unfolding reap_weight_pos [symmetric] by linarith
  ultimately show ?thesis using reap_step_enabled [OF k] by auto
qed

theorem every_reap_ends_witness:
  "\<exists>s'. phase_of 0 s' = Deleting demo_row ''sha256:d'' [] \<and> (\<exists>s''. reap_step 0 s' s'')"
proof -
  let ?s = "initial_store demo_database" and ?s' = "demo_held (Deleting demo_row ''sha256:d'' []) [] demo_database"
  let ?started = "?s\<lparr>ss_reapers := ss_reapers ?s @ [\<lparr>rp_phase = Looping [demo_row], rp_seen = ss_db ?s, rp_time = 10,
          rp_query = reap_params_of (\<lambda>_. None) None, rp_rows = [demo_row], rp_confirmed = []\<rparr>]\<rparr>"
  have k: "length (ss_reapers ?s) = 0" and st: "?started = demo_held (Looping [demo_row]) [] demo_database"
    by (simp_all add: initial_store_def demo_held_def)
  have sel: "select_stale_images (\<le>) (\<lambda>_ xs. xs) (reap_params_of (\<lambda>_. None) None) 10 (ss_db ?s) = Some [demo_row]"
    by (simp add: initial_store_def demo_stale demo_row_def)
  have dg: "im_digest (fst demo_row) = Some ''sha256:d''" by (simp add: demo_row_def demo_image_def)
  from reap_step.known [of 0 "demo_held (Looping [demo_row]) [] demo_database" demo_row "[]"]
  have "reap_step 0 (demo_held (Looping [demo_row]) [] demo_database) ?s'"
    by (simp add: demo_held_def move_reaper_def dg truthy_def)
  then have "counted_run demo_gen (\<lambda>_. None) (\<le>) (\<lambda>_ xs. xs) (length (ss_reapers ?s)) 1 ?started ?s'"
    unfolding k st One_nat_def by (rule counted_run.own [OF counted_run.start])
  note ends = every_reap_ends [OF sel this, unfolded k]
  have "phase_of 0 ?s' = Deleting demo_row ''sha256:d'' []" by (simp add: demo_held_def)
  with ends show ?thesis by (intro exI [of _ ?s']) simp
qed

section \<open>The handlers one after another\<close>

text \<open>Some reapers that came and went: the database changes by a run of the system.\<close>

abbreviation sv_step :: "'a hook_services_scheme \<Rightarrow> store_system \<Rightarrow> store_system \<Rightarrow> bool" where
  "sv_step sv \<equiv> store_step (hs_gen sv) (hs_env sv) (hs_collate sv) (hs_ties sv)"

definition settles :: "'a hook_services_scheme \<Rightarrow> database \<Rightarrow> database \<Rightarrow> bool" where
  "settles sv db db' \<longleftrightarrow> (\<forall>rs. \<exists>qs. (sv_step sv)\<^sup>*\<^sup>* \<lparr>ss_db = db, ss_reapers = rs\<rparr> \<lparr>ss_db = db', ss_reapers = rs @ qs\<rparr>
     \<and> list_all (\<lambda>q. rp_phase q = ReapDone) qs)"

lemma settles_refl [simp]: "settles sv db db"
  unfolding settles_def by (intro allI exI [of _ "[]"]) simp

lemma settles_trans:
  assumes "settles sv a b" and "settles sv b c"
  shows "settles sv a c"
  unfolding settles_def
proof
  fix rs
  obtain qs where 1: "(sv_step sv)\<^sup>*\<^sup>* \<lparr>ss_db = a, ss_reapers = rs\<rparr> \<lparr>ss_db = b, ss_reapers = rs @ qs\<rparr>" "list_all (\<lambda>q. rp_phase q = ReapDone) qs"
    using assms(1) unfolding settles_def by blast
  obtain qs' where "(sv_step sv)\<^sup>*\<^sup>* \<lparr>ss_db = b, ss_reapers = rs @ qs\<rparr> \<lparr>ss_db = c, ss_reapers = (rs @ qs) @ qs'\<rparr>"
      "list_all (\<lambda>q. rp_phase q = ReapDone) qs'"
    using assms(2) unfolding settles_def by blast
  with 1 show "\<exists>qs. (sv_step sv)\<^sup>*\<^sup>* \<lparr>ss_db = a, ss_reapers = rs\<rparr> \<lparr>ss_db = c, ss_reapers = rs @ qs\<rparr> \<and> list_all (\<lambda>q. rp_phase q = ReapDone) qs"
    by (intro exI [of _ "qs @ qs'"]) (auto intro: rtranclp_trans)
qed

lemma settles_traffic: "traffic_step (hs_gen sv) db db' \<Longrightarrow> settles sv db db'"
  unfolding settles_def
proof (intro allI exI [of _ "[]"] conjI)
  fix rs assume "traffic_step (hs_gen sv) db db'"
  from store_step.traffic [of "hs_gen sv" "\<lparr>ss_db = db, ss_reapers = rs\<rparr>" db'] this
  show "(sv_step sv)\<^sup>*\<^sup>* \<lparr>ss_db = db, ss_reapers = rs\<rparr> \<lparr>ss_db = db', ss_reapers = rs @ []\<rparr>" by auto
qed simp

lemma settles_event [simp]:
  "settles sv db (delete_manifest org name d db)" "settles sv db (update_last_pulled now org name t db)"
  by (rule settles_traffic, rule traffic_step.delete) (rule settles_traffic, rule traffic_step.pull)

text \<open>One reaper at the end of the list, as the loop's body moves it.\<close>

definition with_reaper :: "reaper list \<Rightarrow> reaper \<Rightarrow> reap_phase \<Rightarrow> stale_row list \<Rightarrow> database \<Rightarrow> store_system" where
  "with_reaper rs q p c db = \<lparr>ss_db = db, ss_reapers = rs @ [q\<lparr>rp_phase := p, rp_confirmed := c\<rparr>]\<rparr>"

lemma with_reaper_simps [simp]:
  "length rs < length (ss_reapers (with_reaper rs q p c db))" "phase_of (length rs) (with_reaper rs q p c db) = p"
  "ss_db (with_reaper rs q p c db) = db"
  "move_reaper (length rs) p' (with_reaper rs q p c db) = with_reaper rs q p' c db"
  "confirm_reaper (length rs) row (with_reaper rs q p c db) = with_reaper rs q p (row # c) db"
  "with_reaper rs q p c db\<lparr>ss_db := db'\<rparr> = with_reaper rs q p c db'"
  by (simp_all add: with_reaper_def move_reaper_def confirm_reaper_def)

abbreviation reaper_moves :: "reaper list \<Rightarrow> store_system \<Rightarrow> store_system \<Rightarrow> bool" where
  "reaper_moves rs \<equiv> (reap_step (length rs))\<^sup>*\<^sup>*"

lemma remove_row_run: "reaper_moves rs (with_reaper rs q (Removing (i, r) rows) c (hw_db w))
    (with_reaper rs q (Looping rows) c (hw_db (snd (remove_row sv i w))))"
proof -
  have "hw_db (snd (remove_row sv i w)) = snd (run_statement (hs_statement sv (hw_statements w)) (delete_image (im_id i)) (hw_db w))"
    by (simp add: remove_row_def pg_statement_def Let_def case_prod_beta')
  with reap_step.removed [of "length rs" "with_reaper rs q (Removing (i, r) rows) c (hw_db w)" "(i, r)" rows] show ?thesis
    by (intro r_into_rtranclp) (auto split: prod.splits)
qed

lemma delete_request_run:
  fixes w :: "'w hook_world_scheme"
  assumes "fetch_request sv req w = (response, w2)"
  shows "\<exists>c'. reaper_moves rs (with_reaper rs q (Deleting (i, r) d rows) c (hw_db w)) (with_reaper rs q (Looping rows) c'
     (hw_db (case response of Inl _ \<Rightarrow> w2
        | Inr resp \<Rightarrow> (if rs_status resp = 202 \<or> rs_status resp = 204 \<or> rs_status resp = 404 then
              (let (ok, w3) = remove_row sv i w2 in if ok then snd (remove_cached_image sv cached w3) else w3) else w2))))"
proof -
  have db: "hw_db w2 = hw_db w" using fetch_request_next [OF assms] by simp
  let ?s = "with_reaper rs q (Deleting (i, r) d rows) c (hw_db w)"
  have refused: "reaper_moves rs ?s (with_reaper rs q (Looping rows) c (hw_db w2))"
    using reap_step.refused [of "length rs" ?s "(i, r)" d rows] by (simp add: db r_into_rtranclp)
  have conf: "reap_step (length rs) ?s (with_reaper rs q (Removing (i, r) rows) ((i, r) # c) (hw_db w2))"
    using reap_step.confirmed [of "length rs" ?s "(i, r)" d rows] by (simp add: db)
  have "hw_db (let (ok, w3) = remove_row sv i w2 in if ok then snd (remove_cached_image sv cached w3) else w3) = hw_db (snd (remove_row sv i w2))"
    by (simp add: Let_def case_prod_beta' redis_only_frame(1) [OF remove_cached_image_only])
  with converse_rtranclp_into_rtranclp [OF conf remove_row_run [of rs q i r rows "(i, r) # c" w2 sv]] refused show ?thesis
    by (cases response) auto
qed

lemma reap_row_run:
  fixes w :: "'w hook_world_scheme"
  shows "\<exists>c'. reaper_moves rs (with_reaper rs q (Looping (ir # rows)) c (hw_db w)) (with_reaper rs q (Looping rows) c' (hw_db (reap_row sv ir w)))"
proof -
  let ?s = "with_reaper rs q (Looping (ir # rows)) c (hw_db w)" and ?look = "with_reaper rs q (LookingUp ir rows) c (hw_db w)"
  obtain i r where ir: "ir = (i, r)" by (cases ir)
  obtain res w1 where fd: "find_digest sv ir w = (res, w1)" by force
  from find_digest_world [OF fd] have db: "hw_db w1 = hw_db w" by auto
  have look: "reap_step (length rs) ?s ?look \<or> (\<exists>d. res = Inr (Some d) \<and> reap_step (length rs) ?s (with_reaper rs q (Deleting ir d rows) c (hw_db w)))"
  proof (cases "truthy (im_digest i)")
    case True
    then obtain d where "im_digest i = Some d" by (auto simp: truthy_def split: option.splits)
    with True fd ir reap_step.known [of "length rs" ?s ir rows] show ?thesis by (auto simp: find_digest_def)
  next
    case False
    with ir reap_step.unknown [of "length rs" ?s ir rows] show ?thesis by simp
  qed
  show ?thesis
  proof (cases res)
    case (Inl e)
    with look have "reap_step (length rs) ?s ?look" by simp
    moreover have "reap_step (length rs) ?look (with_reaper rs q (Looping rows) c (hw_db w1))"
      using reap_step.lookup_fails [of "length rs" ?look ir rows] by (simp add: db)
    moreover have "reap_row sv ir w = w1" using Inl fd ir by (simp add: reap_row_def)
    ultimately show ?thesis by (metis converse_rtranclp_into_rtranclp r_into_rtranclp)
  next
    case res: (Inr dg)
    show ?thesis
    proof (cases dg)
      case None
      with look res have "reap_step (length rs) ?s ?look" by simp
      moreover have "reap_step (length rs) ?look (with_reaper rs q (Removing ir rows) (ir # c) (hw_db w1))"
        using reap_step.gone [of "length rs" ?look ir rows] by (simp add: db)
      moreover have "reap_row sv ir w = snd (remove_row sv i w1)" using None res fd ir by (simp add: reap_row_def)
      ultimately show ?thesis using remove_row_run [of rs q i r rows "ir # c" w1 sv] ir
        by (metis converse_rtranclp_into_rtranclp)
    next
      case (Some d)
      obtain response w2 where f: "fetch_request sv (registry_request sv ''DELETE'' (repo_path r) d) w1 = (response, w2)" by force
      have found: "reap_step (length rs) ?look (with_reaper rs q (Deleting ir d rows) c (hw_db w))"
        using reap_step.found [of "length rs" ?look ir rows d] by simp
      then have "reaper_moves rs ?s (with_reaper rs q (Deleting ir d rows) c (hw_db w1))"
        unfolding db using look res Some by (auto intro: converse_rtranclp_into_rtranclp)
      moreover have "reap_row sv ir w = (case response of Inl _ \<Rightarrow> w2
          | Inr resp \<Rightarrow> (if rs_status resp = 202 \<or> rs_status resp = 204 \<or> rs_status resp = 404 then
              (let (ok, w3) = remove_row sv i w2 in if ok then snd (remove_cached_image sv (repo_path r @ '':'' @ im_tag i) w3) else w3) else w2))"
        using Some res fd f ir by (simp add: reap_row_def)
      ultimately show ?thesis
        using delete_request_run [OF f, of rs q i r d rows c "repo_path r @ '':'' @ im_tag i"] ir by (metis rtranclp_trans)
    qed
  qed
qed

lemma reap_rows_run:
  fixes w :: "'w hook_world_scheme"
  shows "\<exists>c'. reaper_moves rs (with_reaper rs q (Looping rows) c (hw_db w)) (with_reaper rs q (Looping []) c' (hw_db (fold (reap_row sv) rows w)))"
proof (induction rows arbitrary: c w)
  case (Cons ir rows)
  with reap_row_run [of rs q ir rows c w sv] show ?case by (simp, meson rtranclp_trans)
qed auto

lemma reaper_moves_steps: "reaper_moves rs s s' \<Longrightarrow> (store_step gen env le ties)\<^sup>*\<^sup>* s s'"
  by (erule rtranclp_mono [THEN predicate2D, rotated]) (auto intro: store_step.reap)

lemma reap_settles:
  fixes w :: "'w hook_world_scheme"
  shows "settles sv (hw_db w) (hw_db (snd (reap_obsolete_images sv ids w)))"
proof -
  let ?p = "reap_params_of (hs_env sv) ids" and ?now = "hs_pg_now sv (hw_statements w)"
  obtain res w' where r: "reap_obsolete_images sv ids w = (res, w')" by force
  then consider "hw_db w' = hw_db w"
    | rows w2 where "select_stale_images (hs_collate sv) (hs_ties sv) ?p ?now (hw_db w) = Some rows"
        "w' = fold (reap_row sv) rows w2" "hw_db w2 = hw_db w"
    by (auto simp: reap_obsolete_images_def Let_def split: session.splits option.splits if_splits)
  then have "settles sv (hw_db w) (hw_db w')"
  proof cases
    case (2 rows w2)
    show ?thesis unfolding settles_def
    proof
      fix rs
      let ?q = "\<lparr>rp_phase = Looping rows, rp_seen = hw_db w, rp_time = ?now, rp_query = ?p, rp_rows = rows, rp_confirmed = []\<rparr>"
      have q: "?q\<lparr>rp_phase := Looping rows, rp_confirmed := []\<rparr> = ?q" by simp
      from store_step.select [of "hs_collate sv" "hs_ties sv" "hs_env sv" ids ?now "\<lparr>ss_db = hw_db w, ss_reapers = rs\<rparr>" rows] 2(1)
      have sel: "sv_step sv \<lparr>ss_db = hw_db w, ss_reapers = rs\<rparr> (with_reaper rs ?q (Looping rows) [] (hw_db w2))"
        by (simp add: with_reaper_def 2(3))
      obtain c where run: "reaper_moves rs (with_reaper rs ?q (Looping rows) [] (hw_db w2)) (with_reaper rs ?q (Looping []) c (hw_db w'))"
        using reap_rows_run [of rs ?q rows "[]" w2 sv] 2(2) by blast
      let ?s = "with_reaper rs ?q (Looping []) c (hw_db w')"
      have "reap_step (length rs) ?s (with_reaper rs ?q ReapDone c (hw_db w'))"
        using reap_step.finished [of "length rs" ?s] by simp
      with run have "reaper_moves rs (with_reaper rs ?q (Looping rows) [] (hw_db w2)) (with_reaper rs ?q ReapDone c (hw_db w'))"
        by (rule rtranclp.rtrancl_into_rtrancl)
      from converse_rtranclp_into_rtranclp [OF sel reaper_moves_steps [OF this]]
      have "(sv_step sv)\<^sup>*\<^sup>* \<lparr>ss_db = hw_db w, ss_reapers = rs\<rparr>
          \<lparr>ss_db = hw_db w', ss_reapers = rs @ [?q\<lparr>rp_phase := ReapDone, rp_confirmed := c\<rparr>]\<rparr>"
        unfolding with_reaper_def .
      then show "\<exists>qs. (sv_step sv)\<^sup>*\<^sup>* \<lparr>ss_db = hw_db w, ss_reapers = rs\<rparr> \<lparr>ss_db = hw_db w', ss_reapers = rs @ qs\<rparr>
          \<and> list_all (\<lambda>q. rp_phase q = ReapDone) qs"
        by (intro exI [of _ "[?q\<lparr>rp_phase := ReapDone, rp_confirmed := c\<rparr>]"]) simp
    qed
  qed simp
  with r show ?thesis by simp
qed

lemma handle_push_settles: "settles sv (hw_db w) (hw_db (snd (handle_push sv target repos w)))"
proof -
  let ?w1 = "snd (read_date sv w)"
  obtain repos' w' where h: "handle_push sv target repos w = (repos', w')" by force
  then consider "w' = w" | t i where "w' = cache_push sv i t ?w1"
    | i t ip tag ret digest where
      "sync_push sv (\<lambda>now. push_body (hs_gen sv) now ip tag t ret digest) repos (cache_push sv i t ?w1) = (repos', w')"
    by (auto simp: handle_push_def case_prod_beta' Let_def split: if_splits option.splits)
  then have "settles sv (hw_db w) (hw_db w')"
  proof cases
    case 3
    from sync_push_db [OF 3] show ?thesis by (auto intro: settles_traffic traffic_step.push)
  qed auto
  with h show ?thesis by simp
qed

lemma process_event_settles: "settles sv (hw_db w) (hw_db (snd (process_event sv ev repos w)))"
proof -
  let ?w1 = "record_registry_event sv (if js_truthy (js_prop ev ''action'') then js_String (js_prop ev ''action'') else ''unknown'') w"
  have db: "hw_db ?w1 = hw_db w" using hook_frame [of ?w1 w] by simp
  obtain repos' w' where e: "process_event sv ev repos w = (repos', w')" by force
  then consider (push) "handle_push sv (js_prop ev ''target'') repos ?w1 = (repos', w')" | (same) "w' = ?w1"
    | (delete) org name d where "w' = sync_statement sv [org, name, d] (\<lambda>_. delete_manifest org name d) ?w1"
    | (pull) org name t where "w' = sync_statement sv [org, name, t] (\<lambda>now. update_last_pulled now org name t) ?w1"
    by (auto simp: process_event_def handle_delete_def handle_pull_def Let_def split: if_splits option.splits)
  then have "settles sv (hw_db ?w1) (hw_db w')"
  proof cases
    case push
    with handle_push_settles [of sv ?w1 "js_prop ev ''target''" repos] show ?thesis by simp
  next
    case delete
    with sync_statement_db [of sv "[org, name, d]" "\<lambda>_. delete_manifest org name d" ?w1] show ?thesis
      by (elim disjE exE) (simp_all only: delete settles_refl settles_event)
  next
    case pull
    with sync_statement_db [of sv "[org, name, t]" "\<lambda>now. update_last_pulled now org name t" ?w1] show ?thesis
      by (elim disjE exE) (simp_all only: pull settles_refl settles_event)
  qed simp
  with e show ?thesis by (simp add: db)
qed

lemma process_events_settles: "settles sv (hw_db w) (hw_db (snd (process_events sv evs repos w)))"
proof (induction evs arbitrary: repos w)
  case (Cons ev evs)
  obtain repos1 w1 where e: "process_event sv ev repos w = (repos1, w1)" by force
  with settles_trans [OF process_event_settles [of sv w ev repos]] Cons.IH [where w = w1 and repos = repos1] show ?case by auto
qed simp

lemma reap_repositories_settle: "settles sv (hw_db w) (hw_db (fold (reap_repository sv) xs w))"
proof (induction xs arbitrary: w)
  case (Cons x xs)
  let ?w1 = "snd (read_hrtime sv w)"
  obtain res w2 where r: "reap_obsolete_images sv (Some [x]) ?w1 = (res, w2)" by force
  have "world.more (reap_repository sv x w) = world.more w2"
    using r by (simp add: reap_repository_def case_prod_beta' Let_def split: option.split)
  then have "hw_db (reap_repository sv x w) = hw_db w2" using hook_frame [of "reap_repository sv x w" w2] by simp
  with reap_settles [of sv ?w1 "Some [x]"] r have "settles sv (hw_db w) (hw_db (reap_repository sv x w))" by simp
  from settles_trans [OF this Cons.IH] show ?case by simp
qed simp

lemma process_registry_events_settles: "settles sv (hw_db w) (hw_db (snd (process_registry_events sv body w)))"
proof -
  let ?w1 = "record_registry_event_batch sv (batch_size body) w"
  have d1: "hw_db ?w1 = hw_db w" using hook_frame [of ?w1 w] by simp
  show ?thesis
  proof (cases "events_of body")
    case None
    then show ?thesis by (simp add: process_registry_events_def d1)
  next
    case (Some events)
    obtain repos w2 where e: "process_events sv events [] ?w1 = (repos, w2)" by force
    with process_events_settles [of sv ?w1 events "[]"] d1 have s2: "settles sv (hw_db w) (hw_db w2)" by simp
    show ?thesis
    proof (cases repos)
      case None
      with Some e s2 show ?thesis by (simp add: process_registry_events_def)
    next
      case rs: (Some rs)
      let ?w3 = "record_repositories_scheduled_for_reap sv (length rs) w2"
      let ?w4 = "fold (reap_repository sv) rs ?w3"
      have "hw_db ?w3 = hw_db w2" using hook_frame [of ?w3 w2] by simp
      with reap_repositories_settle [of sv ?w3 rs] have "settles sv (hw_db w2) (hw_db ?w4)" by simp
      moreover have "hw_db (mark_successful_webhook sv ?w4) = hw_db ?w4" using hook_frame [of "mark_successful_webhook sv ?w4" ?w4] by simp
      ultimately show ?thesis using Some e rs settles_trans [OF s2] by (simp add: process_registry_events_def)
    qed
  qed
qed

lemma hook_settles: "settles sv (hw_db w) (hw_db (snd (hook sv authorization body w)))"
proof -
  let ?w1 = "record_webhook_authorization sv ''accepted'' w"
  have "hw_db ?w1 = hw_db w" "hw_db (record_webhook_authorization sv ''rejected'' w) = hw_db w"
    using hook_frame [of ?w1 w] hook_frame [of "record_webhook_authorization sv ''rejected'' w" w] by simp_all
  with process_registry_events_settles [of sv ?w1 body] show ?thesis by (simp add: hook_def case_prod_beta' Let_def)
qed

text \<open>Of a token request, the database sees nothing or one transaction.\<close>

lemma handle_token_traffic:
  fixes w :: "'w auth_world_scheme"
  shows "(traffic_step (ap_gen sv))\<^sup>*\<^sup>* (aw_db w) (aw_db (snd (handle_token sv app q w)))"
proof -
  obtain rsp w' where h: "handle_token sv app q w = (rsp, w')" by force
  then have "(traffic_step (ap_gen sv))\<^sup>*\<^sup>* (aw_db w) (aw_db w')"
    by (cases rule: handle_token_db) (auto intro: traffic_step.sync)
  with h show ?thesis by simp
qed

text \<open>
  C19. The handlers refine the interleaved system: what a whole webhook call does to the database (every
  event of the batch, then a reap of every repository it recorded) is a run of the system whose
  reapers have ended, whatever faults occur; so is a reap of the reap command; and what a token request does
  is a run of its traffic. So what holds in every reachable state holds between and after the handlers.
\<close>

theorem handlers_refine_store:
  "(\<exists>qs. (store_step (hs_gen sv) (hs_env sv) (hs_collate sv) (hs_ties sv))\<^sup>*\<^sup>* \<lparr>ss_db = hw_db w, ss_reapers = rs\<rparr>
       \<lparr>ss_db = hw_db (snd (hook sv authorization body w)), ss_reapers = rs @ qs\<rparr> \<and> list_all (\<lambda>q. rp_phase q = ReapDone) qs)
   \<and> (\<exists>qs. (store_step (hs_gen sv) (hs_env sv) (hs_collate sv) (hs_ties sv))\<^sup>*\<^sup>* \<lparr>ss_db = hw_db w, ss_reapers = rs\<rparr>
       \<lparr>ss_db = hw_db (snd (reap_obsolete_images sv ids w)), ss_reapers = rs @ qs\<rparr> \<and> list_all (\<lambda>q. rp_phase q = ReapDone) qs)
   \<and> (traffic_step (ap_gen av))\<^sup>*\<^sup>* (aw_db v) (aw_db (snd (handle_token av app q v)))"
  for w :: "'w hook_world_scheme" and v :: "'v auth_world_scheme"
  using hook_settles [of sv w authorization body] reap_settles [of sv w ids] handle_token_traffic [of av v app q]
  unfolding settles_def by blast

end
