(* ===== verification/MetricsRegistry.thy ===== *)
theory MetricsRegistry
  imports CreateApp HookEvents
begin

text \<open>
  The counters, histograms and gauges that \<open>auth/src/metrics.ts\<close> and \<open>hooks/src/metrics.ts\<close> register with
  \<open>prom-client\<close>, and what the library demands of the calls on them: registering throws for a name used twice
  or not of the Prometheus alphabet, recording throws for a label that was not declared and for a
  counter that would go down. The library's own default metrics share the registries and are not modelled.
\<close>

section \<open>Declarations\<close>

datatype metric_kind = CounterMetric | HistogramMetric "rat list" | GaugeMetric

record metric_decl =
  md_kind :: metric_kind
  md_name :: string
  md_help :: string
  md_labels :: "string list"

definition new_counter :: "string \<Rightarrow> string \<Rightarrow> string list \<Rightarrow> metric_decl" where
  "new_counter name help labels = \<lparr>md_kind = CounterMetric, md_name = name, md_help = help, md_labels = labels\<rparr>"

definition new_histogram :: "string \<Rightarrow> string \<Rightarrow> string list \<Rightarrow> rat list \<Rightarrow> metric_decl" where
  "new_histogram name help labels buckets =
     \<lparr>md_kind = HistogramMetric buckets, md_name = name, md_help = help, md_labels = labels\<rparr>"

definition new_gauge :: "string \<Rightarrow> string \<Rightarrow> string list \<Rightarrow> metric_decl" where
  "new_gauge name help labels = \<lparr>md_kind = GaugeMetric, md_name = name, md_help = help, md_labels = labels\<rparr>"

subsection \<open>The auth service\<close>

definition auth_http_requests_total :: metric_decl where
  "auth_http_requests_total = new_counter ''aocr_auth_http_requests_total''
     ''Total number of HTTP requests handled by the auth service.'' [''method'', ''route'', ''status_code'']"

definition auth_http_request_duration_seconds :: metric_decl where
  "auth_http_request_duration_seconds = new_histogram ''aocr_auth_http_request_duration_seconds''
     ''HTTP request latency for the auth service.'' [''method'', ''route'', ''status_code'']
     [5/1000, 1/100, 25/1000, 5/100, 1/10, 25/100, 5/10, 1, 2, 5, 10]"

definition token_validation_total :: metric_decl where
  "token_validation_total = new_counter ''aocr_auth_token_validation_total''
     ''Token validation attempts by strategy and outcome.'' [''strategy'', ''outcome'']"

definition token_validation_duration_seconds :: metric_decl where
  "token_validation_duration_seconds = new_histogram ''aocr_auth_token_validation_duration_seconds''
     ''Token validation latency by strategy and outcome.'' [''strategy'', ''outcome'']
     [5/10000, 1/1000, 5/1000, 1/100, 25/1000, 5/100, 1/10, 25/100, 5/10, 1, 2, 5, 10]"

definition upstream_validation_duration_seconds :: metric_decl where
  "upstream_validation_duration_seconds = new_histogram ''aocr_auth_upstream_validation_duration_seconds''
     ''Latency of the upstream validation API.'' [''outcome'']
     [1/100, 25/1000, 5/100, 1/10, 25/100, 5/10, 1, 2, 5, 10]"

definition database_sync_duration_seconds :: metric_decl where
  "database_sync_duration_seconds = new_histogram ''aocr_auth_database_sync_duration_seconds''
     ''Latency of auth metadata sync to Postgres.'' [''outcome'']
     [1/1000, 5/1000, 1/100, 25/1000, 5/100, 1/10, 25/100, 5/10, 1, 2, 5]"

definition token_issuance_total :: metric_decl where
  "token_issuance_total = new_counter ''aocr_auth_token_issuance_total''
     ''Registry token issuance results by validation strategy.'' [''strategy'', ''outcome'']"

definition configured_pat_count :: metric_decl where
  "configured_pat_count = new_gauge ''aocr_auth_configured_pat_count''
     ''Number of configured static PATs available to the auth service.'' []"

definition auth_postgres_pool_connections :: metric_decl where
  "auth_postgres_pool_connections = new_gauge ''aocr_auth_postgres_pool_connections''
     ''Postgres pool connection counts by state.'' [''state'']"

definition configured_cluster_pat_count :: metric_decl where
  "configured_cluster_pat_count = new_gauge ''aocr_auth_configured_cluster_pat_count''
     ''Number of configured cluster-class PATs (one per AerolVM cluster) available to the auth service.'' []"

text \<open>In the order of their registration.\<close>

definition auth_metrics :: "metric_decl list" where
  "auth_metrics = [auth_http_requests_total, auth_http_request_duration_seconds, token_validation_total,
     token_validation_duration_seconds, upstream_validation_duration_seconds, database_sync_duration_seconds,
     token_issuance_total, configured_pat_count, auth_postgres_pool_connections, configured_cluster_pat_count]"

subsection \<open>The webhook service\<close>

definition hooks_http_requests_total :: metric_decl where
  "hooks_http_requests_total = new_counter ''aocr_hooks_http_requests_total''
     ''Total number of HTTP requests handled by the hooks service.'' [''method'', ''route'', ''status_code'']"

definition hooks_http_request_duration_seconds :: metric_decl where
  "hooks_http_request_duration_seconds = new_histogram ''aocr_hooks_http_request_duration_seconds''
     ''HTTP request latency for the hooks service.'' [''method'', ''route'', ''status_code'']
     [5/1000, 1/100, 25/1000, 5/100, 1/10, 25/100, 5/10, 1, 2, 5, 10]"

definition webhook_authorization_total :: metric_decl where
  "webhook_authorization_total = new_counter ''aocr_hooks_webhook_authorization_total''
     ''Webhook authorization outcomes.'' [''outcome'']"

definition registry_events_total :: metric_decl where
  "registry_events_total = new_counter ''aocr_hooks_registry_events_total''
     ''Registry events observed by action.'' [''action'']"

definition registry_events_per_request :: metric_decl where
  "registry_events_per_request = new_histogram ''aocr_hooks_registry_events_per_request''
     ''Number of registry events included in each webhook request.'' [] [0, 1, 2, 5, 10, 20, 50, 100]"

definition redis_cache_duration_seconds :: metric_decl where
  "redis_cache_duration_seconds = new_histogram ''aocr_hooks_redis_cache_duration_seconds''
     ''Latency of legacy Redis cache writes for pushed images.'' [''outcome'']
     [5/10000, 1/1000, 5/1000, 1/100, 25/1000, 5/100, 1/10, 25/100, 5/10, 1, 2]"

definition postgres_sync_duration_seconds :: metric_decl where
  "postgres_sync_duration_seconds = new_histogram ''aocr_hooks_postgres_sync_duration_seconds''
     ''Latency of Postgres metadata sync during registry webhook handling.'' [''outcome'']
     [1/1000, 5/1000, 1/100, 25/1000, 5/100, 1/10, 25/100, 5/10, 1, 2, 5]"

definition immediate_reap_duration_seconds :: metric_decl where
  "immediate_reap_duration_seconds = new_histogram ''aocr_hooks_immediate_reap_duration_seconds''
     ''Latency of immediate repository reaping triggered by push webhooks.'' [''outcome'']
     [1/100, 5/100, 1/10, 25/100, 5/10, 1, 2, 5, 10, 30, 60]"

definition repositories_scheduled_for_reap :: metric_decl where
  "repositories_scheduled_for_reap = new_counter ''aocr_hooks_repositories_scheduled_for_reap_total''
     ''Total repositories queued for immediate reaping from webhook handling.'' []"

definition last_successful_webhook_timestamp_seconds :: metric_decl where
  "last_successful_webhook_timestamp_seconds = new_gauge ''aocr_hooks_last_successful_webhook_timestamp_seconds''
     ''Unix timestamp of the last successful registry webhook request.'' []"

definition last_successful_reap_timestamp_seconds :: metric_decl where
  "last_successful_reap_timestamp_seconds = new_gauge ''aocr_hooks_last_successful_reap_timestamp_seconds''
     ''Unix timestamp of the last successful immediate reap triggered by the hooks service.'' []"

definition hooks_postgres_pool_connections :: metric_decl where
  "hooks_postgres_pool_connections = new_gauge ''aocr_hooks_postgres_pool_connections''
     ''Hooks Postgres pool connection counts by state.'' [''state'']"

definition hooks_metrics :: "metric_decl list" where
  "hooks_metrics = [hooks_http_requests_total, hooks_http_request_duration_seconds, webhook_authorization_total,
     registry_events_total, registry_events_per_request, redis_cache_duration_seconds, postgres_sync_duration_seconds,
     immediate_reap_duration_seconds, repositories_scheduled_for_reap, last_successful_webhook_timestamp_seconds,
     last_successful_reap_timestamp_seconds, hooks_postgres_pool_connections]"

section \<open>The library's conditions\<close>

definition label_name_ok :: "string \<Rightarrow> bool" where
  "label_name_ok l \<longleftrightarrow> l \<noteq> [] \<and> \<not> is_digit (hd l) \<and> list_all (\<lambda>c. is_alnum c \<or> c = CHR ''_'') l"

definition metric_name_ok :: "string \<Rightarrow> bool" where
  "metric_name_ok n \<longleftrightarrow> n \<noteq> [] \<and> \<not> is_digit (hd n) \<and> list_all (\<lambda>c. is_alnum c \<or> c = CHR ''_'' \<or> c = CHR '':'') n"

definition decl_ok :: "metric_decl \<Rightarrow> bool" where
  "decl_ok d \<longleftrightarrow> metric_name_ok (md_name d) \<and> md_help d \<noteq> [] \<and> distinct (md_labels d) \<and> list_all label_name_ok (md_labels d)
     \<and> (case md_kind d of HistogramMetric buckets \<Rightarrow> sorted_wrt (<) buckets \<and> ''le'' \<notin> set (md_labels d) | _ \<Rightarrow> True)"

definition registrable :: "metric_decl list \<Rightarrow> bool" where
  "registrable decls \<longleftrightarrow> distinct (map md_name decls) \<and> list_all decl_ok decls"

text \<open>A call with exactly the declared labels, on a metric of its kind.\<close>

fun call_accepted :: "metric_decl list \<Rightarrow> metric_event \<Rightarrow> bool" where
  "call_accepted decls (CounterInc name labels v) \<longleftrightarrow>
     0 \<le> v \<and> list_ex (\<lambda>d. md_name d = name \<and> md_kind d = CounterMetric \<and> md_labels d = map fst labels) decls"
| "call_accepted decls (HistogramObserve name labels v) \<longleftrightarrow>
     list_ex (\<lambda>d. md_name d = name \<and> (case md_kind d of HistogramMetric _ \<Rightarrow> True | _ \<Rightarrow> False) \<and> md_labels d = map fst labels) decls"
| "call_accepted decls (GaugeSet name labels v) \<longleftrightarrow>
     list_ex (\<lambda>d. md_name d = name \<and> md_kind d = GaugeMetric \<and> md_labels d = map fst labels) decls"

text \<open>Everything an operation recorded was accepted.\<close>

definition metered :: "metric_decl list \<Rightarrow> 'v world_scheme \<Rightarrow> 'w world_scheme \<Rightarrow> bool" where
  "metered decls w w' \<longleftrightarrow> (\<exists>es. w_metrics w' = w_metrics w @ es \<and> list_all (call_accepted decls) es)"

section \<open>Lemmas\<close>

lemmas auth_decls = auth_http_requests_total_def auth_http_request_duration_seconds_def token_validation_total_def
  token_validation_duration_seconds_def upstream_validation_duration_seconds_def database_sync_duration_seconds_def
  token_issuance_total_def configured_pat_count_def auth_postgres_pool_connections_def configured_cluster_pat_count_def

lemmas hooks_decls = hooks_http_requests_total_def hooks_http_request_duration_seconds_def webhook_authorization_total_def
  registry_events_total_def registry_events_per_request_def redis_cache_duration_seconds_def postgres_sync_duration_seconds_def
  immediate_reap_duration_seconds_def repositories_scheduled_for_reap_def last_successful_webhook_timestamp_seconds_def
  last_successful_reap_timestamp_seconds_def hooks_postgres_pool_connections_def

lemmas new_metric_defs = new_counter_def new_histogram_def new_gauge_def

lemma metered_refl: "w_metrics w' = w_metrics w \<Longrightarrow> metered decls w w'"
  by (simp add: metered_def)

lemma metered_trans:
  assumes "metered decls u v" and "metered decls v w"
  shows "metered decls u w"
proof -
  obtain es es' where "w_metrics v = w_metrics u @ es" "w_metrics w = w_metrics v @ es'"
      "list_all (call_accepted decls) es" "list_all (call_accepted decls) es'"
    using assms unfolding metered_def by blast
  then show ?thesis unfolding metered_def by (intro exI [of _ "es @ es'"]) simp
qed

lemma metered_emit: "metered decls w v \<Longrightarrow> list_all (call_accepted decls) es \<Longrightarrow> metered decls w (emit es v)"
  by (auto simp: metered_def emit_def)

lemma metered_self [simp]: "metered decls w w"
  by (rule metered_refl) simp

lemma metered_if_enabled: "list_all (call_accepted decls) es \<Longrightarrow> metered decls w (if_enabled sv es w)"
  by (simp add: if_enabled_def metered_emit metered_refl)

lemma clocks_metrics [simp]:
  "w_metrics (snd (read_hrtime sv w)) = w_metrics w" "w_metrics (snd (read_date sv w)) = w_metrics w"
  "w_metrics (snd (elapsed_seconds_since sv t w)) = w_metrics w"
  by (simp_all add: read_hrtime_def read_date_def elapsed_seconds_since_def case_prod_beta' Let_def)

subsection \<open>Every recording function\<close>

lemma auth_recordings [intro]:
  "metered auth_metrics w (set_configured_pat_count sv n w)" "metered auth_metrics w (set_configured_cluster_pat_count sv n w)"
  "metered auth_metrics w (record_token_validation sv s o1 d w)" "metered auth_metrics w (record_upstream_validation sv o1 d w)"
  "metered auth_metrics w (record_database_sync sv o1 d w)" "metered auth_metrics w (record_token_issuance sv s o1 w)"
  unfolding record_defs by (rule metered_if_enabled, simp add: auth_metrics_def auth_decls new_metric_defs)+

lemma hooks_recordings [intro]:
  "metered hooks_metrics w (record_webhook_authorization sv o1 w)" "metered hooks_metrics w (record_registry_event sv o1 w)"
  "metered hooks_metrics w (record_registry_event_batch sv n w)" "metered hooks_metrics w (record_redis_cache sv o1 d w)"
  "metered hooks_metrics w (record_postgres_sync sv o1 d w)" "metered hooks_metrics w (record_immediate_reap sv o1 d w)"
  "metered hooks_metrics w (record_repositories_scheduled_for_reap sv n w)"
  unfolding record_defs by (rule metered_if_enabled, simp add: hooks_metrics_def hooks_decls new_metric_defs)+

lemma hooks_timestamps [intro]:
  "metered hooks_metrics w (mark_successful_webhook sv w)" "metered hooks_metrics w (mark_successful_reap sv w)"
  unfolding mark_successful_webhook_def mark_successful_reap_def case_prod_beta' Let_def
  by (auto intro!: metered_emit metered_refl [of "snd (read_date sv w)"] simp: hooks_metrics_def hooks_decls new_metric_defs)

lemma pool_gauges [intro]:
  "metered auth_metrics w (collect_pool_connections ''aocr_auth_'' n i v w)"
  "metered hooks_metrics w (collect_pool_connections ''aocr_hooks_'' n i v w)"
  unfolding collect_pool_connections_def
  by (auto intro!: metered_emit simp: auth_metrics_def auth_decls hooks_metrics_def hooks_decls new_metric_defs)

text \<open>The middleware adds its own two calls to the handler's.\<close>

lemma mount_metrics_metered:
  assumes "\<And>v. metered decls v (snd (handler v))"
    and "\<And>m r c d. list_all (call_accepted decls)
      [CounterInc (prefix @ ''http_requests_total'') [(''method'', m), (''route'', r), (''status_code'', c)] 1,
       HistogramObserve (prefix @ ''http_request_duration_seconds'') [(''method'', m), (''route'', r), (''status_code'', c)] d]"
  shows "metered decls w (snd (mount_metrics prefix sv req status_of handler w))"
proof (cases "sv_metrics_enabled sv \<and> hl_path req \<noteq> ''/metrics''")
  case True
  let ?w1 = "snd (read_hrtime sv w)"
  let ?w2 = "snd (handler ?w1)"
  let ?w3 = "snd (elapsed_seconds_since sv (fst (read_hrtime sv w)) ?w2)"
  have "metered decls w ?w1" "metered decls ?w2 ?w3" by (rule metered_refl, simp)+
  then have "metered decls w ?w3" using metered_trans assms(1) by blast
  moreover have "metered decls ?w3 (snd (mount_metrics prefix sv req status_of handler w))"
    using True assms(2) by (auto simp: mount_metrics_def case_prod_beta' Let_def intro: metered_emit simp del: call_accepted.simps list.pred_inject)
  ultimately show ?thesis by (rule metered_trans)
next
  case False
  then have "snd (mount_metrics prefix sv req status_of handler w) = snd (handler w)" by (auto simp: mount_metrics_def)
  with assms(1) show ?thesis by simp
qed

subsection \<open>The webhook\<close>

lemma pg_statement_metrics [simp]: "w_metrics (snd (pg_statement sv params stmt w)) = w_metrics w"
  by (simp add: pg_statement_def case_prod_beta' Let_def)

lemma reap_row_metrics [simp]: "w_metrics (reap_row sv ir w) = w_metrics w"
  for w :: "'w hook_world_scheme"
proof -
  obtain i r where ir: "ir = (i, r)" by (cases ir)
  obtain res w1 where fd: "find_digest sv ir w = (res, w1)" by force
  from find_digest_world [OF fd] have w1: "w_metrics w1 = w_metrics w" by auto
  have remove: "w_metrics (snd (remove_row sv i v)) = w_metrics v" for v :: "'w hook_world_scheme" by (simp add: remove_row_def)
  have cached: "w_metrics (snd (remove_cached_image sv c v)) = w_metrics v" for c and v :: "'w hook_world_scheme"
    by (rule redis_only_frame(5) [OF remove_cached_image_only])
  show ?thesis
    using fd by (simp add: reap_row_def ir case_prod_beta' Let_def remove cached w1 fetch_request_world split: sum.split option.split)
qed

lemma reap_rows_metrics: "w_metrics (fold (reap_row sv) rows w) = w_metrics w"
  for w :: "'w hook_world_scheme"
  by (induction rows arbitrary: w) simp_all

lemma reap_metrics [simp]: "w_metrics (snd (reap_obsolete_images sv ids w)) = w_metrics w"
  for w :: "'w hook_world_scheme"
  by (simp add: reap_obsolete_images_def Let_def reap_rows_metrics split: session.split option.split)

text \<open>A recording after steps that record nothing.\<close>

lemma metered_from: "metered decls v w' \<Longrightarrow> w_metrics v = w_metrics w \<Longrightarrow> metered decls w w'"
  by (simp add: metered_def)

lemma sync_push_metered: "metered hooks_metrics w (snd (sync_push sv body repos w))"
  by (auto simp: sync_push_def case_prod_beta' Let_def split: session.split tx_outcome.split
      intro: metered_from [OF hooks_recordings(5)] metered_refl)

lemma cache_push_metered: "metered hooks_metrics w (cache_push sv i t w)"
  by (auto simp: cache_push_def case_prod_beta' Let_def redis_only_frame(5) [OF cache_pushed_image_only]
      intro: metered_from [OF hooks_recordings(4)])

lemma sync_statement_metered: "metered hooks_metrics w (sync_statement sv params stmt w)"
  by (auto simp: sync_statement_def case_prod_beta' Let_def split: session.split
      intro: metered_from [OF hooks_recordings(5)] metered_refl)

lemma handle_push_metered: "metered hooks_metrics w (snd (handle_push sv target repos w))"
proof -
  let ?w1 = "snd (read_date sv w)"
  have cache: "metered hooks_metrics w (cache_push sv i t ?w1)" for i t
    by (rule metered_from [OF cache_push_metered]) simp
  show ?thesis
    by (auto simp: handle_push_def case_prod_beta' Let_def split: option.split
        intro: cache metered_trans [OF cache sync_push_metered])
qed

lemma process_event_metered: "metered hooks_metrics w (snd (process_event sv ev repos w))"
proof -
  let ?w1 = "record_registry_event sv (if js_truthy (js_prop ev ''action'') then js_String (js_prop ev ''action'') else ''unknown'') w"
    and ?t = "js_prop ev ''target''"
  have r: "snd (process_event sv ev repos w)
      \<in> {snd (handle_push sv ?t repos ?w1), handle_delete sv ?t ?w1, handle_pull sv ?t ?w1, ?w1}"
    unfolding process_event_def Let_def by (simp only: if_distrib [of snd] snd_conv split: if_split) blast
  have d: "metered hooks_metrics v (handle_delete sv target v)" "metered hooks_metrics v (handle_pull sv target v)" for target v
    by (simp_all add: handle_delete_def handle_pull_def Let_def sync_statement_metered split: option.split)
  have "metered hooks_metrics ?w1 (snd (process_event sv ev repos w))"
    using r unfolding insert_iff by (elim disjE) (simp_all only: handle_push_metered d metered_self empty_iff)
  then show ?thesis by (rule metered_trans [OF hooks_recordings(2)])
qed

lemma process_events_metered: "metered hooks_metrics w (snd (process_events sv evs repos w))"
proof (induction evs arbitrary: repos w)
  case (Cons ev evs)
  then show ?case
    by (auto simp: case_prod_beta' Let_def intro: metered_trans [OF process_event_metered])
qed simp

lemma reap_repository_metered: "metered hooks_metrics w (reap_repository sv x w)"
proof -
  let ?w1 = "snd (read_hrtime sv w)"
  let ?w2 = "snd (reap_obsolete_images sv (Some [x]) ?w1)"
  let ?e = "elapsed_seconds_since sv (fst (read_hrtime sv w)) ?w2"
  have "w_metrics (snd ?e) = w_metrics w" by simp
  then have rec: "metered hooks_metrics w (record_immediate_reap sv o1 (fst ?e) (snd ?e))" for o1
    by (rule metered_from [OF hooks_recordings(6)])
  show ?thesis
    by (auto simp: reap_repository_def case_prod_beta' Let_def split: option.split
        intro: rec metered_trans [OF rec hooks_timestamps(2)])
qed

lemma reap_repositories_metered: "metered hooks_metrics w (fold (reap_repository sv) xs w)"
  by (induction xs arbitrary: w) (auto intro: metered_trans [OF reap_repository_metered])

lemma process_registry_events_metered: "metered hooks_metrics w (snd (process_registry_events sv body w))"
proof -
  let ?w1 = "record_registry_event_batch sv (batch_size body) w"
  have ev: "metered hooks_metrics w (snd (process_events sv es [] ?w1))" for es
    by (rule metered_trans [OF hooks_recordings(3) process_events_metered])
  have all: "metered hooks_metrics v (mark_successful_webhook sv (fold (reap_repository sv) rs (record_repositories_scheduled_for_reap sv (length rs) v)))"
    for rs v
    by (rule metered_trans [OF metered_trans [OF hooks_recordings(7) reap_repositories_metered] hooks_timestamps(1)])
  show ?thesis
    by (auto simp: process_registry_events_def case_prod_beta' Let_def split: option.split intro: ev metered_trans [OF ev all])
qed

lemma hook_metered: "metered hooks_metrics w (snd (hook sv authorization body w))"
  by (auto simp: hook_def case_prod_beta' Let_def
      intro: metered_trans [OF hooks_recordings(1) process_registry_events_metered])

subsection \<open>The token endpoint\<close>

lemma note_validation_metered: "metered auth_metrics w (note_validation sv t s o1 w)"
  by (auto simp: note_validation_def case_prod_beta' Let_def intro: metered_from [OF auth_recordings(3)])

lemma api_failed_metered: "metered auth_metrics w (snd (api_failed sv t e w))"
  by (auto simp: api_failed_def case_prod_beta' Let_def intro: metered_from [OF auth_recordings(4)])

lemma validate_using_api_metered: "metered auth_metrics w (snd (validate_using_api sv token url w))"
proof -
  let ?w1 = "snd (read_hrtime sv w)"
  have failed: "metered auth_metrics w (snd (api_failed sv t e v))" if "w_metrics v = w_metrics w" for t e v
    by (rule metered_from [OF api_failed_metered that])
  have done1: "metered auth_metrics w (record_upstream_validation sv o1 d v)" if "w_metrics v = w_metrics w" for o1 d v
    by (rule metered_from [OF auth_recordings(4) that])
  show ?thesis
    by (auto simp: validate_using_api_def case_prod_beta' Let_def split: sum.split
        intro: failed done1 metered_trans [OF done1 api_failed_metered])
qed

lemma api_or_fail_metered: "metered auth_metrics w (snd (validate_with_api_or_fail sv ctx token w))"
  by (auto simp: validate_with_api_or_fail_def case_prod_beta' Let_def
      intro: metered_trans [OF metered_from [OF validate_using_api_metered] note_validation_metered])

lemma cluster_or_next_metered: "metered auth_metrics w (snd (validate_with_cluster_pat_or_next sv ctx token w))"
  by (auto simp: validate_with_cluster_pat_or_next_def case_prod_beta' Let_def split: option.split
      intro: metered_from [OF note_validation_metered] api_or_fail_metered
        metered_trans [OF metered_from [OF note_validation_metered] api_or_fail_metered])

lemma cache_get_metrics: "w_metrics (snd (cache_get sv i r w)) = w_metrics w"
  by (simp add: cache_get_def case_prod_beta' Let_def split: option.split)

lemma prove_routes_metrics: "prove_routes sv resolve creds i hit routes w = (res, w') \<Longrightarrow> w_metrics w' = w_metrics w"
proof (induction routes arbitrary: hit w)
  case (Cons r rs)
  obtain found w1 where g: "cache_get sv i (ur_repo r) w = (found, w1)" by force
  then have m1: "w_metrics w1 = w_metrics w" using cache_get_metrics by (metis snd_conv)
  obtain result w2 where p: "run_probe sv (resolve (ur_host r)) creds (ur_repo r) w1 = (result, w2)" by force
  have m2: "w_metrics w2 = w_metrics w1" by (rule run_probe_world [OF p]) simp
  have rec: "w_metrics (cache_record sv i (ur_repo r) b w2) = w_metrics w" for b
    using m1 m2 by (simp add: cache_record_def case_prod_beta' Let_def)
  show ?case
  proof (cases found)
    case (Some l)
    with Cons g m1 show ?thesis by auto
  next
    case None
    show ?thesis
    proof (cases "\<exists>b. result = ProbeOk (JStr b)")
      case True
      then obtain b where "result = ProbeOk (JStr b)" by blast
      with Cons g p None rec show ?thesis by auto
    next
      case False
      with Cons.prems g p None have "w' = w2 \<or> w' = cache_invalidate i w2"
        by (auto split: probe_result.splits js.splits if_splits)
      with m1 m2 show ?thesis by (auto simp: cache_invalidate_def)
    qed
  qed
qed simp

lemma validate_wrapped_metrics:
  assumes "validate_wrapped_upstream sv ring resolve token scope w = (res, w')"
  shows "w_metrics w' = w_metrics w"
proof -
  let ?w2 = "snd (read_date sv (snd (read_date sv w)))"
  from assms have "w' = w \<or> w' = ?w2 \<or> (\<exists>creds i routes. prove_routes sv resolve creds i True routes ?w2 = (res, w'))"
    by (auto simp: validate_wrapped_upstream_def Let_def case_prod_beta' split: if_splits sum.splits)
  then show ?thesis using prove_routes_metrics by fastforce
qed

lemma validate_presented_token_metered: "metered auth_metrics w (snd (validate_presented_token sv ctx token scope w))"
proof (cases "is_wrapped_upstream_token token")
  case True
  let ?w1 = "snd (read_hrtime sv w)"
  obtain res2 w2 where v: "validate_wrapped_upstream sv (vc_key_ring ctx) get_probe_for_host token scope ?w1 = (res2, w2)" by force
  have "\<exists>t out. snd (validate_presented_token sv ctx token scope w) = note_validation sv t WrappedUpstream out w2"
    using True v by (auto simp: validate_presented_token_def validate_using_wrapped_upstream_def case_prod_beta' Let_def split: sum.splits)
  with validate_wrapped_metrics [OF v] show ?thesis by (auto intro: metered_from [OF note_validation_metered])
next
  case False
  then show ?thesis
    by (auto simp: validate_presented_token_def case_prod_beta' Let_def split: option.split
        intro: metered_from [OF note_validation_metered] cluster_or_next_metered
          metered_trans [OF metered_from [OF note_validation_metered] cluster_or_next_metered])
qed

lemma sync_database_metered: "metered auth_metrics w (snd (sync_database sv p scs w))"
  by (auto simp: sync_database_def case_prod_beta' Let_def split: session.split tx_outcome.split
      intro: metered_from [OF auth_recordings(5)] metered_refl)

lemma issue_token_metered: "metered auth_metrics w (snd (issue_token sv app q r access w))"
  by (auto simp: issue_token_def token_failed_def case_prod_beta' Let_def split: option.split
      intro: metered_from [OF auth_recordings(6)])

lemma grant_and_issue_metered: "metered auth_metrics w (snd (grant_and_issue sv app q r scopes w))"
  by (auto simp: grant_and_issue_def split: sum.split intro: auth_recordings(6) issue_token_metered)

lemma handle_token_metered: "metered auth_metrics w (snd (handle_token sv app q w))"
proof -
  have v: "metered auth_metrics w (snd (validate_presented_token sv c t sc w))" for c t sc
    by (rule validate_presented_token_metered)
  have s: "metered auth_metrics w (snd (sync_database sv p scs (snd (validate_presented_token sv c t sc w))))" for p scs c t sc
    by (rule metered_trans [OF v sync_database_metered])
  show ?thesis
    by (auto simp: handle_token_def token_failed_def case_prod_beta' Let_def split: sum.split
        intro: auth_recordings(6) v metered_trans [OF v auth_recordings(6)] metered_trans [OF v grant_and_issue_metered]
          metered_trans [OF s auth_recordings(6)] metered_trans [OF s grant_and_issue_metered])
qed

section \<open>Properties\<close>

text \<open>
  Both registries load: no two metrics of a service share a name, every metric and label name is one
  Prometheus accepts, no histogram uses the reserved label \<open>le\<close>, and every histogram's bounds are strictly
  increasing.
\<close>

theorem metrics_registrable: "registrable auth_metrics \<and> registrable hooks_metrics"
  by code_simp

text \<open>
  C40. No request makes the metrics library throw: whatever is sent to the webhook or to the token
  endpoint and whatever fails on the way, every call the request and its middleware record is on a
  metric the service registered, of its kind, with exactly its labels, and no counter goes down.
\<close>

theorem recordings_accepted:
  "metered hooks_metrics w (snd (mount_metrics ''aocr_hooks_'' sv req status_of (hook sv authorization body) w))
   \<and> metered auth_metrics v (snd (mount_metrics ''aocr_auth_'' av req' status_of' (handle_token av app q) v))"
  for w :: "'w hook_world_scheme" and v :: "'v auth_world_scheme"
proof
  show "metered hooks_metrics w (snd (mount_metrics ''aocr_hooks_'' sv req status_of (hook sv authorization body) w))"
    by (rule mount_metrics_metered [OF hook_metered]) (simp add: hooks_metrics_def hooks_decls new_metric_defs)
  show "metered auth_metrics v (snd (mount_metrics ''aocr_auth_'' av req' status_of' (handle_token av app q) v))"
    by (rule mount_metrics_metered [OF handle_token_metered]) (simp add: auth_metrics_def auth_decls new_metric_defs)
qed

end
