(* ===== verification/MountFromRepo.thy ===== *)
theory MountFromRepo
  imports HookWorld Json
begin

text \<open>
  \<open>hooks/src/util/mountFromRepo.ts\<close>: copying an image inside the registry by mounting its blobs. The
  manifest is parsed JSON and untyped; \<open>None\<close> is an exception. A request that runs into its timeout is
  one the network answers with an error.
\<close>

section \<open>Data\<close>

datatype mount_status = Mounted | Present | MountFailed

definition mount_status_text :: "mount_status \<Rightarrow> string" where
  "mount_status_text s = (case s of Mounted \<Rightarrow> ''mounted'' | Present \<Rightarrow> ''present'' | MountFailed \<Rightarrow> ''failed'')"

record mount_outcome =
  mo_digest :: js
  mo_status :: mount_status
  mo_detail :: "string option"

record mount_all_result =
  mr_outcomes :: "mount_outcome list"
  mr_all_mounted :: bool

record mount_options =
  mf_registry_url :: string
  mf_authorization :: "string option"
  mf_timeout_ms :: "nat option"

record write_manifest_result =
  wm_digest :: "string option"
  wm_status :: int
  wm_body :: "string option"

definition DEFAULT_MOUNT_TIMEOUT_MS :: nat where "DEFAULT_MOUNT_TIMEOUT_MS = 10000"

section \<open>Requests\<close>

definition trim_slash :: "string \<Rightarrow> string" where
  "trim_slash s = (if ends_with ''/'' s then slice 0 (int (length s) - 1) s else s)"

definition fetch_with_timeout :: "'a services_scheme \<Rightarrow> http_request \<Rightarrow> nat \<Rightarrow> 'w world_scheme \<Rightarrow> (string + http_response) \<times> 'w world_scheme" where
  "fetch_with_timeout sv req timeout_ms = fetch_request sv (req\<lparr>rq_timeout := timeout_ms\<rparr>)"

definition auth_headers :: "mount_options \<Rightarrow> (string \<times> string) list" where
  "auth_headers opts = (if truthy (mf_authorization opts) then [(''authorization'', the (mf_authorization opts))] else [])"

definition timeout_of :: "mount_options \<Rightarrow> nat" where
  "timeout_of opts = (case mf_timeout_ms opts of None \<Rightarrow> DEFAULT_MOUNT_TIMEOUT_MS | Some t \<Rightarrow> t)"

definition mount_request :: "mount_options \<Rightarrow> string \<Rightarrow> string \<Rightarrow> js \<Rightarrow> http_request" where
  "mount_request opts src dst digest =
     \<lparr>rq_method = ''POST'',
      rq_url = trim_slash (mf_registry_url opts) @ ''/v2/'' @ dst @ ''/blobs/uploads/?mount='' @ encode_uri_component (js_String digest)
        @ ''&from='' @ encode_uri_component src,
      rq_params = [], rq_headers = auth_headers opts, rq_timeout = timeout_of opts, rq_body = []\<rparr>"

definition blob_head_request :: "mount_options \<Rightarrow> string \<Rightarrow> js \<Rightarrow> http_request" where
  "blob_head_request opts dst digest =
     \<lparr>rq_method = ''HEAD'',
      rq_url = trim_slash (mf_registry_url opts) @ ''/v2/'' @ dst @ ''/blobs/'' @ encode_uri_component (js_String digest),
      rq_params = [], rq_headers = auth_headers opts, rq_timeout = timeout_of opts, rq_body = []\<rparr>"

definition manifest_put_request :: "mount_options \<Rightarrow> string \<Rightarrow> string \<Rightarrow> string \<Rightarrow> string \<Rightarrow> http_request" where
  "manifest_put_request opts dst tag body media_type =
     \<lparr>rq_method = ''PUT'', rq_url = trim_slash (mf_registry_url opts) @ ''/v2/'' @ dst @ ''/manifests/'' @ encode_uri_component tag,
      rq_params = [], rq_headers = (''content-type'', media_type) # auth_headers opts, rq_timeout = timeout_of opts, rq_body = body\<rparr>"

section \<open>Operations\<close>

definition outcome :: "js \<Rightarrow> mount_status \<Rightarrow> string option \<Rightarrow> mount_outcome" where
  "outcome digest status detail = \<lparr>mo_digest = digest, mo_status = status, mo_detail = detail\<rparr>"

definition mount_blob :: "'a services_scheme \<Rightarrow> string \<Rightarrow> string \<Rightarrow> js \<Rightarrow> mount_options \<Rightarrow> 'w world_scheme \<Rightarrow> mount_outcome \<times> 'w world_scheme" where
  "mount_blob sv src dst digest opts w =
     (let (resp, w1) = fetch_with_timeout sv (mount_request opts src dst digest) (timeout_of opts) w in
      case resp of
        Inl e \<Rightarrow> (outcome digest MountFailed (Some (''network error: '' @ e)), w1)
      | Inr r \<Rightarrow>
          (if rs_status r = 201 then (outcome digest Mounted None, w1)
           else if rs_status r = 202 then (outcome digest MountFailed (Some ''mount declined; full upload would be required''), w1)
           else if rs_status r = 404 then
             (let (head, w2) = fetch_with_timeout sv (blob_head_request opts dst digest) (timeout_of opts) w1 in
              (if (case head of Inl _ \<Rightarrow> False | Inr h \<Rightarrow> rs_status h = 200) then outcome digest Present None
               else outcome digest MountFailed (Some ''source blob not found in registry''), w2))
           else (outcome digest MountFailed (Some (''unexpected status '' @ int_to_string (rs_status r))), w1)))"

text \<open>Stops at the first failure.\<close>

fun mount_loop :: "'a services_scheme \<Rightarrow> string \<Rightarrow> string \<Rightarrow> mount_options \<Rightarrow> js list \<Rightarrow> mount_outcome list \<Rightarrow> 'w world_scheme
     \<Rightarrow> mount_all_result \<times> 'w world_scheme" where
  "mount_loop sv src dst opts [] outcomes w = (\<lparr>mr_outcomes = outcomes, mr_all_mounted = True\<rparr>, w)"
| "mount_loop sv src dst opts (digest # digests) outcomes w =
     (let (o1, w1) = mount_blob sv src dst digest opts w in
      if mo_status o1 = MountFailed then (\<lparr>mr_outcomes = outcomes @ [o1], mr_all_mounted = False\<rparr>, w1)
      else mount_loop sv src dst opts digests (outcomes @ [o1]) w1)"

text \<open>
  \<open>for (const x of v ?? [])\<close>: the elements, of which a string's characters have no digest. The set of
  digests seen compares primitive values by value and objects by identity, and no two parsed objects
  are identical.
\<close>

definition descriptors :: "js \<Rightarrow> js list option" where
  "descriptors v = (case v of JArr xs \<Rightarrow> Some xs | JStr _ \<Rightarrow> Some [] | JUndef \<Rightarrow> Some [] | JNull \<Rightarrow> Some [] | _ \<Rightarrow> None)"

definition is_object :: "js \<Rightarrow> bool" where
  "is_object v = (case v of JArr _ \<Rightarrow> True | JObj _ \<Rightarrow> True | _ \<Rightarrow> False)"

definition push_digest :: "js \<Rightarrow> js list \<Rightarrow> js list" where
  "push_digest d out =
     (let digest = js_prop d ''digest'' in
      if \<not> js_truthy digest then out
      else if \<not> is_object digest \<and> digest \<in> set out then out else out @ [digest])"

definition collect_blob_digests :: "js \<Rightarrow> js list option" where
  "collect_blob_digests manifest =
     (if js_nullish manifest then None
      else
        (case (descriptors (js_prop manifest ''layers''), descriptors (js_prop manifest ''manifests'')) of
           (Some layers, Some subs) \<Rightarrow> Some (fold push_digest (js_prop manifest ''config'' # layers @ subs) [])
         | _ \<Rightarrow> None))"

definition mount_all_blobs :: "'a services_scheme \<Rightarrow> js \<Rightarrow> string \<Rightarrow> string \<Rightarrow> mount_options \<Rightarrow> 'w world_scheme
     \<Rightarrow> mount_all_result option \<times> 'w world_scheme" where
  "mount_all_blobs sv manifest src dst opts w =
     (case collect_blob_digests manifest of
        None \<Rightarrow> (None, w)
      | Some digests \<Rightarrow> (let (r, w') = mount_loop sv src dst opts digests [] w in (Some r, w')))"

definition write_manifest :: "'a services_scheme \<Rightarrow> string \<Rightarrow> string \<Rightarrow> string \<Rightarrow> string \<Rightarrow> mount_options \<Rightarrow> 'w world_scheme
     \<Rightarrow> write_manifest_result option \<times> 'w world_scheme" where
  "write_manifest sv dst tag manifest_body media_type opts w =
     (let (resp, w1) = fetch_with_timeout sv (manifest_put_request opts dst tag manifest_body media_type) (timeout_of opts) w in
      (case resp of
         Inl _ \<Rightarrow> None
       | Inr r \<Rightarrow> Some \<lparr>wm_digest = header_of ''docker-content-digest'' r, wm_status = rs_status r, wm_body = body_text r\<rparr>, w1))"

section \<open>Lemmas\<close>

lemma fetch_timeout_id: "rq_timeout req = t \<Longrightarrow> fetch_with_timeout sv req t = fetch_request sv req"
  by (simp add: fetch_with_timeout_def) (metis http_request.surjective http_request.update_convs(5))

lemma fetch_with_timeout_parts [simp]:
  "fetch_with_timeout sv (mount_request opts src dst d) (timeout_of opts) = fetch_request sv (mount_request opts src dst d)"
  "fetch_with_timeout sv (blob_head_request opts dst d) (timeout_of opts) = fetch_request sv (blob_head_request opts dst d)"
  "fetch_with_timeout sv (manifest_put_request opts dst tag b m) (timeout_of opts) = fetch_request sv (manifest_put_request opts dst tag b m)"
  by (simp_all add: fetch_timeout_id mount_request_def blob_head_request_def manifest_put_request_def)

text \<open>Among the requests \<open>new\<close> sent after \<open>old\<close>, one was answered with a status.\<close>

definition answered :: "'a services_scheme \<Rightarrow> http_request list \<Rightarrow> http_request list \<Rightarrow> http_request \<Rightarrow> int \<Rightarrow> bool" where
  "answered sv old new req status \<longleftrightarrow>
     (\<exists>pre post r. new = pre @ req # post \<and> sv_net sv (old @ pre) req = Inr r \<and> rs_status r = status)"

lemma answered_later: "answered sv old new req status \<Longrightarrow> answered sv old (new @ later) req status"
  unfolding answered_def by fastforce

lemma answered_earlier: "answered sv (old @ earlier) new req status \<Longrightarrow> answered sv old (earlier @ new) req status"
  unfolding answered_def by (metis append_assoc)

lemma answered_last: "sv_net sv (old @ pre) req = Inr r \<Longrightarrow> answered sv old (pre @ [req]) req (rs_status r)"
  unfolding answered_def by blast

definition blob_in_place :: "'a services_scheme \<Rightarrow> http_request list \<Rightarrow> http_request list \<Rightarrow> string \<Rightarrow> string \<Rightarrow> mount_options \<Rightarrow> js \<Rightarrow> bool" where
  "blob_in_place sv old new src dst opts d \<longleftrightarrow>
     answered sv old new (mount_request opts src dst d) 201 \<or> answered sv old new (blob_head_request opts dst d) 200"

lemma blob_in_place_later: "blob_in_place sv old new src dst opts d \<Longrightarrow> blob_in_place sv old (new @ later) src dst opts d"
  unfolding blob_in_place_def by (blast intro: answered_later)

lemma blob_in_place_earlier:
  "blob_in_place sv (old @ earlier) new src dst opts d \<Longrightarrow> blob_in_place sv old (earlier @ new) src dst opts d"
  unfolding blob_in_place_def by (blast intro: answered_earlier)

lemma request_methods [simp]:
  "rq_method (mount_request opts src dst d) = ''POST''" "rq_method (blob_head_request opts dst d) = ''HEAD''"
  "rq_method (manifest_put_request opts dst tag b m) = ''PUT''"
  by (simp_all add: mount_request_def blob_head_request_def manifest_put_request_def)

lemma mount_blob_effect:
  assumes "mount_blob sv src dst d opts w = (o1, w')"
  shows "mo_digest o1 = d \<and> (\<exists>reqs. w' = w\<lparr>w_sent := w_sent w @ reqs\<rparr> \<and> (\<forall>req \<in> set reqs. rq_method req \<noteq> ''PUT'')
    \<and> (mo_status o1 \<noteq> MountFailed \<longrightarrow> blob_in_place sv (w_sent w) reqs src dst opts d))"
proof -
  let ?m = "mount_request opts src dst d" and ?h = "blob_head_request opts dst d"
  obtain resp w1 where f: "fetch_request sv ?m w = (resp, w1)" by force
  note w1 = fetch_request_next [OF f]
  show ?thesis
  proof (cases "\<exists>r. resp = Inr r \<and> rs_status r = 404")
    case True
    then obtain r where r: "resp = Inr r" "rs_status r = 404" by blast
    obtain hd w2 where g: "fetch_request sv ?h w1 = (hd, w2)" by force
    note w2 = fetch_request_next [OF g]
    from assms f r g have o1: "w' = w2" "o1 = (if (case hd of Inl _ \<Rightarrow> False | Inr h \<Rightarrow> rs_status h = 200) then outcome d Present None
               else outcome d MountFailed (Some ''source blob not found in registry''))"
      by (auto simp: mount_blob_def)
    have "blob_in_place sv (w_sent w) [?m, ?h] src dst opts d" if "hd = Inr h" "rs_status h = 200" for h
      using fetch_request_ok [OF g [unfolded that(1)]] answered_last [of sv "w_sent w" "[?m]" ?h h] that(2) w1
      by (simp add: blob_in_place_def)
    then show ?thesis using o1 w1 w2 by (auto simp: outcome_def split: sum.splits intro!: exI [of _ "[?m, ?h]"])
  next
    case False
    then have "w' = w1" "mo_digest o1 = d" and st: "mo_status o1 \<noteq> MountFailed \<longleftrightarrow> (\<exists>r. resp = Inr r \<and> rs_status r = 201)"
      using assms f by (auto simp: mount_blob_def outcome_def split: sum.splits if_splits)
    moreover have "blob_in_place sv (w_sent w) [?m] src dst opts d" if "resp = Inr r" "rs_status r = 201" for r
      using fetch_request_ok [OF f [unfolded that(1)]] answered_last [of sv "w_sent w" "[]" ?m r] that(2)
      by (simp add: blob_in_place_def)
    ultimately show ?thesis using w1 by (auto intro!: exI [of _ "[?m]"])
  qed
qed

lemma mount_loop_requests:
  assumes "mount_loop sv src dst opts ds outs w = (r, w')"
  shows "\<exists>reqs. w' = w\<lparr>w_sent := w_sent w @ reqs\<rparr> \<and> (\<forall>req \<in> set reqs. rq_method req \<noteq> ''PUT'')
    \<and> (mr_all_mounted r \<longrightarrow> (\<forall>d \<in> set ds. blob_in_place sv (w_sent w) reqs src dst opts d))"
  using assms
proof (induction ds arbitrary: outs w)
  case Nil
  then show ?case by (auto intro!: exI [of _ "[]"])
next
  case (Cons d ds)
  obtain o1 w1 where b: "mount_blob sv src dst d opts w = (o1, w1)" by force
  from mount_blob_effect [OF b] obtain reqs where e: "w1 = w\<lparr>w_sent := w_sent w @ reqs\<rparr>"
      "\<forall>req \<in> set reqs. rq_method req \<noteq> ''PUT''" "mo_status o1 \<noteq> MountFailed \<Longrightarrow> blob_in_place sv (w_sent w) reqs src dst opts d"
    by blast
  show ?case
  proof (cases "mo_status o1 = MountFailed")
    case True
    with Cons.prems b e show ?thesis by (intro exI [of _ reqs]) auto
  next
    case False
    with Cons.prems b have l: "mount_loop sv src dst opts ds (outs @ [o1]) w1 = (r, w')" by simp
    from Cons.IH [OF l] obtain reqs2 where r2: "w' = w1\<lparr>w_sent := w_sent w1 @ reqs2\<rparr>" "\<forall>req \<in> set reqs2. rq_method req \<noteq> ''PUT''"
      "mr_all_mounted r \<Longrightarrow> \<forall>x \<in> set ds. blob_in_place sv (w_sent w @ reqs) reqs2 src dst opts x" using e(1) by auto
    from r2 e False show ?thesis
      by (intro exI [of _ "reqs @ reqs2"]) (auto intro: blob_in_place_later blob_in_place_earlier)
  qed
qed

lemma mount_loop_outcomes:
  assumes "mount_loop sv src dst opts ds outs w = (r, w')" and "\<forall>x \<in> set outs. mo_status x \<noteq> MountFailed"
  shows "\<exists>k \<le> length ds. map mo_digest (mr_outcomes r) = map mo_digest outs @ take k ds
    \<and> (if mr_all_mounted r then k = length ds \<and> (\<forall>x \<in> set (mr_outcomes r). mo_status x \<noteq> MountFailed)
       else 0 < k \<and> (\<forall>x \<in> set (butlast (mr_outcomes r)). mo_status x \<noteq> MountFailed)
         \<and> mo_status (last (mr_outcomes r)) = MountFailed)"
  using assms
proof (induction ds arbitrary: outs w)
  case Nil
  then show ?case by auto
next
  case (Cons d ds)
  obtain o1 w1 where b: "mount_blob sv src dst d opts w = (o1, w1)" by force
  then have d: "mo_digest o1 = d" using mount_blob_effect by blast
  show ?case
  proof (cases "mo_status o1 = MountFailed")
    case True
    with Cons.prems b d show ?thesis by (intro exI [of _ 1]) auto
  next
    case False
    with Cons.prems b have l: "mount_loop sv src dst opts ds (outs @ [o1]) w1 = (r, w')" by simp
    from Cons.IH [OF l] Cons.prems(2) False obtain k where "k \<le> length ds"
      "map mo_digest (mr_outcomes r) = map mo_digest (outs @ [o1]) @ take k ds"
      "if mr_all_mounted r then k = length ds \<and> (\<forall>x \<in> set (mr_outcomes r). mo_status x \<noteq> MountFailed)
       else 0 < k \<and> (\<forall>x \<in> set (butlast (mr_outcomes r)). mo_status x \<noteq> MountFailed)
         \<and> mo_status (last (mr_outcomes r)) = MountFailed" by auto
    with d show ?thesis by (intro exI [of _ "Suc k"]) auto
  qed
qed

lemma push_digest_set: "set (push_digest d out) = set out \<union> (if js_truthy (js_prop d ''digest'') then {js_prop d ''digest''} else {})"
  by (auto simp: push_digest_def Let_def)

lemma collected_set:
  "set (fold push_digest ds out) = set out \<union> {x \<in> (\<lambda>d. js_prop d ''digest'') ` set ds. js_truthy x}"
  by (induction ds arbitrary: out) (auto simp: push_digest_set)

definition no_repeats :: "js list \<Rightarrow> bool" where
  "no_repeats ds \<longleftrightarrow> distinct (filter (\<lambda>d. \<not> is_object d) ds)"

lemma collected_distinct: "no_repeats out \<Longrightarrow> no_repeats (fold push_digest ds out)"
  by (induction ds arbitrary: out) (auto simp: push_digest_def Let_def no_repeats_def)

section \<open>Properties\<close>

text \<open>
  C37. A copy asks for every blob of the manifest once, in order, and stops at the first failure:
  what is collected is every digest of the configuration, the layers and the sub-manifests that is set, no
  text twice; the outcomes are those of a prefix of it, all of it exactly when every blob was mounted or
  present, and otherwise only the last one failed; and a blob counts as in place only when the registry
  answered its mount with 201 or a look-up in the target with 200 during this very call.
\<close>

theorem mount_all_blobs_in_order:
  assumes "collect_blob_digests manifest = Some ds" and "mount_all_blobs sv manifest src dst opts w = (Some r, w')"
  shows "set ds = {x \<in> (\<lambda>d. js_prop d ''digest'') ` set (js_prop manifest ''config''
            # the (descriptors (js_prop manifest ''layers'')) @ the (descriptors (js_prop manifest ''manifests''))). js_truthy x}
    \<and> distinct (filter (\<lambda>d. \<not> is_object d) ds)
    \<and> (\<exists>k \<le> length ds. map mo_digest (mr_outcomes r) = take k ds
        \<and> (if mr_all_mounted r then k = length ds \<and> (\<forall>x \<in> set (mr_outcomes r). mo_status x \<noteq> MountFailed)
           else 0 < k \<and> (\<forall>x \<in> set (butlast (mr_outcomes r)). mo_status x \<noteq> MountFailed)
             \<and> mo_status (last (mr_outcomes r)) = MountFailed))
    \<and> (\<exists>reqs. w_sent w' = w_sent w @ reqs
        \<and> (mr_all_mounted r \<longrightarrow> (\<forall>d \<in> set ds. answered sv (w_sent w) reqs (mount_request opts src dst d) 201
             \<or> answered sv (w_sent w) reqs (blob_head_request opts dst d) 200)))"
proof -
  have l: "mount_loop sv src dst opts ds [] w = (r, w')"
    using assms by (auto simp: mount_all_blobs_def split: prod.splits)
  have ds: "ds = fold push_digest (js_prop manifest ''config''
      # the (descriptors (js_prop manifest ''layers'')) @ the (descriptors (js_prop manifest ''manifests''))) []"
    using assms(1) by (auto simp: collect_blob_digests_def split: if_splits option.splits)
  have "no_repeats ds" unfolding ds by (rule collected_distinct) (simp add: no_repeats_def)
  then have once: "distinct (filter (\<lambda>d. \<not> is_object d) ds)" by (simp add: no_repeats_def)
  have all: "set ds = {x \<in> (\<lambda>d. js_prop d ''digest'') ` set (js_prop manifest ''config''
      # the (descriptors (js_prop manifest ''layers'')) @ the (descriptors (js_prop manifest ''manifests''))). js_truthy x}"
    unfolding ds by (simp only: collected_set) simp
  have outcomes: "\<exists>k \<le> length ds. map mo_digest (mr_outcomes r) = take k ds
        \<and> (if mr_all_mounted r then k = length ds \<and> (\<forall>x \<in> set (mr_outcomes r). mo_status x \<noteq> MountFailed)
           else 0 < k \<and> (\<forall>x \<in> set (butlast (mr_outcomes r)). mo_status x \<noteq> MountFailed)
             \<and> mo_status (last (mr_outcomes r)) = MountFailed)"
    using mount_loop_outcomes [OF l] by simp
  from mount_loop_requests [OF l] have "\<exists>reqs. w_sent w' = w_sent w @ reqs
        \<and> (mr_all_mounted r \<longrightarrow> (\<forall>d \<in> set ds. answered sv (w_sent w) reqs (mount_request opts src dst d) 201
             \<or> answered sv (w_sent w) reqs (blob_head_request opts dst d) 200))"
    by (auto simp: blob_in_place_def)
  with once all outcomes show ?thesis by blast
qed

definition two_layers :: js where
  "two_layers = JObj [(''config'', JObj [(''digest'', JStr ''c'')]),
     (''layers'', JArr [JObj [(''digest'', JStr ''a'')], JObj [(''digest'', JStr ''c'')], JObj [(''digest'', JStr ''b'')]])]"

definition copy_services :: services where
  "copy_services = \<lparr>sv_net = (\<lambda>sent req. Inr \<lparr>rs_status = (if rq_method req = ''HEAD'' then 200 else if sent = [] then 201 else 404),
       rs_headers = [], rs_data = JNull\<rparr>), sv_hrtime = (\<lambda>_. 0), sv_date = (\<lambda>_. 0), sv_metrics_enabled = False\<rparr>"

definition copy_options :: mount_options where
  "copy_options = \<lparr>mf_registry_url = ''http://r/'', mf_authorization = None, mf_timeout_ms = None\<rparr>"

lemma copy_services_fetch:
  "fetch_request copy_services req w =
     (Inr \<lparr>rs_status = (if rq_method req = ''HEAD'' then 200 else if w_sent w = [] then 201 else 404), rs_headers = [], rs_data = JNull\<rparr>,
      w\<lparr>w_sent := w_sent w @ [req]\<rparr>)"
  by (simp add: fetch_request_def axios_request_def copy_services_def Let_def)

lemma copy_services_blob:
  "fst (mount_blob copy_services src dst d opts w) = outcome d (if w_sent w = [] then Mounted else Present) None
     \<and> w_sent (snd (mount_blob copy_services src dst d opts w)) \<noteq> []"
  by (simp add: mount_blob_def copy_services_fetch)

lemma copy_services_loop: "mr_all_mounted (fst (mount_loop copy_services src dst opts ds outs w))"
proof (induction ds arbitrary: outs w)
  case (Cons d ds)
  have "mo_status (fst (mount_blob copy_services src dst d opts w)) \<noteq> MountFailed"
    using copy_services_blob [of src dst d opts w] by (simp add: outcome_def)
  with Cons show ?case by (simp add: case_prod_beta' Let_def)
qed simp

theorem mount_all_blobs_in_order_witness:
  "\<exists>reqs. (\<forall>d \<in> {JStr ''a'', JStr ''b'', JStr ''c''}.
     answered copy_services [] reqs (mount_request copy_options ''s'' ''t'' d) 201
     \<or> answered copy_services [] reqs (blob_head_request copy_options ''t'' d) 200)"
proof -
  have ds: "collect_blob_digests two_layers = Some [JStr ''c'', JStr ''a'', JStr ''b'']" by code_simp
  obtain r w' where l: "mount_loop copy_services ''s'' ''t'' copy_options [JStr ''c'', JStr ''a'', JStr ''b''] [] fresh_world = (r, w')"
    by (rule prod.exhaust)
  then have run: "mount_all_blobs copy_services two_layers ''s'' ''t'' copy_options fresh_world = (Some r, w')"
    by (simp add: mount_all_blobs_def ds del: mount_loop.simps)
  from copy_services_loop [of "''s''" "''t''" copy_options "[JStr ''c'', JStr ''a'', JStr ''b'']" "[]" fresh_world] l
  have ok: "mr_all_mounted r" by (simp del: mount_loop.simps)
  have empty: "w_sent fresh_world = []" by (simp add: fresh_world_def)
  from mount_all_blobs_in_order [OF ds run] ok obtain reqs where
    "\<forall>d \<in> set [JStr ''c'', JStr ''a'', JStr ''b'']. answered copy_services (w_sent fresh_world) reqs (mount_request copy_options ''s'' ''t'' d) 201
     \<or> answered copy_services (w_sent fresh_world) reqs (blob_head_request copy_options ''t'' d) 200" by blast
  then show ?thesis unfolding empty by (intro exI [of _ reqs]) simp
qed

end
