(* ===== verification/ImportAPI.thy ===== *)
theory ImportAPI
  imports MountFromRepo TagRetention "HOL-Library.Word"
begin

text \<open>
  The internal endpoints of the webhook service: \<open>hooks/src/controllers/InternalAPI.ts\<close> (is a blob in
  the registry) and \<open>hooks/src/controllers/ImportAPI.ts\<close> (copy a mirrored image into a cluster's
  namespace). An answer is a status and a JSON body; \<open>None\<close> is an exception out of the handler.
\<close>

unbundle bit_operations_syntax

section \<open>Patterns\<close>

text \<open>\<open>x+(?:[sep]x+)*\<close>: runs of the class with single separators between them.\<close>

definition separated :: "(char \<Rightarrow> bool) \<Rightarrow> (char \<Rightarrow> bool) \<Rightarrow> string \<Rightarrow> bool" where
  "separated ok sep s = list_all (\<lambda>w. w \<noteq> [] \<and> list_all ok w) (split_on sep s)"

definition DIGEST_PATTERN :: "string \<Rightarrow> bool" where
  "DIGEST_PATTERN s \<longleftrightarrow> starts_with ''sha256:'' (to_lower s) \<and> length s = 71
     \<and> list_all (\<lambda>c. radix_digit 16 c \<noteq> None) (drop 7 s)"

definition HOST_PATTERN :: "string \<Rightarrow> bool" where
  "HOST_PATTERN s =
     (let host_ok = separated is_alnum (\<lambda>c. c = CHR ''.'' \<or> c = CHR ''-'') in
      case split_on (\<lambda>c. c = CHR '':'') s of
        [h] \<Rightarrow> host_ok h
      | [h, p] \<Rightarrow> host_ok h \<and> p \<noteq> [] \<and> list_all is_digit p
      | _ \<Rightarrow> False)"

definition REPO_SEGMENT_PATTERN :: "string \<Rightarrow> bool" where
  "REPO_SEGMENT_PATTERN = separated is_lower_alnum (\<lambda>c. c = CHR ''.'' \<or> c = CHR ''_'' \<or> c = CHR ''-'')"

definition TAG_PATTERN :: "string \<Rightarrow> bool" where
  "TAG_PATTERN s =
     (case s of [] \<Rightarrow> False
      | c # t \<Rightarrow> (is_alnum c \<or> c = CHR ''_'') \<and> length t \<le> 127
          \<and> list_all (\<lambda>d. is_alnum d \<or> d = CHR ''.'' \<or> d = CHR ''_'' \<or> d = CHR ''-'') t)"

definition SUFFIX_PATTERN :: "string \<Rightarrow> bool" where
  "SUFFIX_PATTERN s \<longleftrightarrow> starts_with ''--'' s \<and> separated is_lower_alnum (\<lambda>c. c = CHR ''-'') (drop 2 s)"

definition is_valid_repo_path :: "string \<Rightarrow> bool" where
  "is_valid_repo_path repo =
     (if repo = [] \<or> length repo > 256 then False
      else list_all REPO_SEGMENT_PATTERN (split_on (\<lambda>c. c = CHR ''/'') repo))"

section \<open>Blob presence\<close>

record api_answer =
  aa_status :: int
  aa_body :: js

definition answer_error :: "int \<Rightarrow> string \<Rightarrow> api_answer" where
  "answer_error status message = \<lparr>aa_status = status, aa_body = JObj [(''error'', JStr message)]\<rparr>"

definition internal_authorized :: "env \<Rightarrow> string option \<Rightarrow> bool" where
  "internal_authorized env authorization =
     (if \<not> truthy (env ''INTERNAL_API_TOKEN'') then False
      else authorization = Some (''Token '' @ the (env ''INTERNAL_API_TOKEN'')))"

definition presence_body :: "bool \<Rightarrow> string \<Rightarrow> string \<Rightarrow> js \<Rightarrow> js" where
  "presence_body present digest repository bytes =
     JObj [(''present'', JBool present), (''digest'', JStr digest), (''repository'', JStr repository), (''sizeBytes'', bytes)]"

definition is_valid_repository :: "string \<Rightarrow> bool" where
  "is_valid_repository repository =
     (if repository = [] \<or> length repository > 256 then False
      else (let segments = split_on (\<lambda>c. c = CHR ''/'') repository in list_all REPO_SEGMENT_PATTERN segments))"

definition blob_request :: "'a hook_services_scheme \<Rightarrow> string \<Rightarrow> string \<Rightarrow> http_request" where
  "blob_request sv repository digest =
     \<lparr>rq_method = ''HEAD'', rq_url = registry_url (hs_env sv) @ ''/v2/'' @ repository @ ''/blobs/'' @ digest, rq_params = [],
      rq_headers = [], rq_timeout = 0, rq_body = []\<rparr>"

definition blob_presence :: "'a hook_services_scheme \<Rightarrow> string option \<Rightarrow> string \<Rightarrow> string \<Rightarrow> 'w world_scheme \<Rightarrow> api_answer \<times> 'w world_scheme" where
  "blob_presence sv authorization repository digest w =
     (if \<not> internal_authorized (hs_env sv) authorization then (answer_error 401 ''unauthorized'', w)
      else if \<not> DIGEST_PATTERN digest then (answer_error 400 ''invalid digest'', w)
      else if \<not> is_valid_repository repository then (answer_error 400 ''invalid repository'', w)
      else
        (let (response, w1) = fetch_request sv (blob_request sv repository digest) w in
         case response of
           Inl _ \<Rightarrow> (answer_error 502 ''registry_unreachable'', w1)
         | Inr r \<Rightarrow>
             (if rs_status r = 200 then
                (let bytes = (case header_of ''content-length'' r of None \<Rightarrow> JNull
                             | Some h \<Rightarrow> (let n = js_Number_string h in if is_finite_num n then JNum n else JNull))
                 in (\<lparr>aa_status = 200, aa_body = presence_body True digest repository bytes\<rparr>, w1))
              else if rs_status r = 404 then (\<lparr>aa_status = 200, aa_body = presence_body False digest repository JNull\<rparr>, w1)
              else (answer_error 502 (''registry_status_'' @ int_to_string (rs_status r)), w1))))"

section \<open>Imports: authorization and validation\<close>

text \<open>The loop over the characters keeps the differences in a 32-bit integer.\<close>

definition constant_time_equals :: "string \<Rightarrow> string \<Rightarrow> bool" where
  "constant_time_equals a b =
     (if length a \<noteq> length b then False
      else fold (\<lambda>(x, y) diff. diff OR (of_nat (char_code x) XOR of_nat (char_code y))) (zip a b) (0 :: 32 word) = 0)"

definition import_authorized :: "env \<Rightarrow> string option \<Rightarrow> bool" where
  "import_authorized env authorization =
     (if \<not> truthy (env ''INTERNAL_API_TOKEN'') \<or> \<not> truthy authorization then False
      else
        (let header = the authorization; space = index_of CHR '' '' header in
         if space \<le> 0 then False
         else
           (let scheme = Prelude_JS.slice 0 space header; presented = slice_from (space + 1) header in
            if scheme \<noteq> ''Bearer'' \<and> scheme \<noteq> ''Token'' then False
            else constant_time_equals presented (the (env ''INTERNAL_API_TOKEN'')))))"

definition DEFAULT_TAG_SUFFIX :: string where "DEFAULT_TAG_SUFFIX = ''--idle-90d''"

record validated =
  vd_host :: string
  vd_repo :: string
  vd_tag :: string
  vd_digest :: string
  vd_cluster_id :: string
  vd_suffix :: string

definition matching :: "(string \<Rightarrow> bool) \<Rightarrow> js \<Rightarrow> string option" where
  "matching pattern v = (case v of JStr s \<Rightarrow> if pattern s then Some s else None | _ \<Rightarrow> None)"

definition validate_import :: "js \<Rightarrow> string + validated" where
  "validate_import body =
     (case matching HOST_PATTERN (js_prop body ''upstream_host'') of
        None \<Rightarrow> Inl ''invalid upstream_host''
      | Some host \<Rightarrow>
     (case matching is_valid_repo_path (js_prop body ''upstream_repo'') of
        None \<Rightarrow> Inl ''invalid upstream_repo''
      | Some repo \<Rightarrow>
     (case matching TAG_PATTERN (js_prop body ''upstream_tag'') of
        None \<Rightarrow> Inl ''invalid upstream_tag''
      | Some tag \<Rightarrow>
     (case matching DIGEST_PATTERN (js_prop body ''upstream_digest'') of
        None \<Rightarrow> Inl ''invalid upstream_digest''
      | Some digest \<Rightarrow>
     (case matching CLUSTER_ID_PATTERN (js_prop body ''cluster_id'') of
        None \<Rightarrow> Inl ''invalid cluster_id''
      | Some cluster_id \<Rightarrow>
     (case (if js_nullish (js_prop body ''target_tag_suffix'') then Some DEFAULT_TAG_SUFFIX
            else matching SUFFIX_PATTERN (js_prop body ''target_tag_suffix'')) of
        None \<Rightarrow> Inl ''invalid target_tag_suffix''
      | Some suffix \<Rightarrow>
          Inr \<lparr>vd_host = to_lower host, vd_repo = repo, vd_tag = tag, vd_digest = to_lower digest,
               vd_cluster_id = cluster_id, vd_suffix = suffix\<rparr>))))))"

section \<open>Imports: the copy\<close>

definition import_accept :: "(string \<times> string) list" where
  "import_accept = [(''accept'', join_with '','' [''application/vnd.docker.distribution.manifest.v2+json'',
     ''application/vnd.oci.image.manifest.v1+json'', ''application/vnd.oci.image.index.v1+json'',
     ''application/vnd.docker.distribution.manifest.list.v2+json''])]"

definition manifest_reference_request :: "'a hook_services_scheme \<Rightarrow> string \<Rightarrow> string \<Rightarrow> string \<Rightarrow> http_request" where
  "manifest_reference_request sv verb repo reference =
     \<lparr>rq_method = verb, rq_url = registry_url (hs_env sv) @ ''/v2/'' @ repo @ ''/manifests/'' @ reference, rq_params = [],
      rq_headers = import_accept, rq_timeout = 0, rq_body = []\<rparr>"

definition head_manifest_digest :: "'a hook_services_scheme \<Rightarrow> string \<Rightarrow> string \<Rightarrow> 'w world_scheme \<Rightarrow> string option \<times> 'w world_scheme" where
  "head_manifest_digest sv repo tag w =
     (let (response, w1) = fetch_request sv (manifest_reference_request sv ''HEAD'' repo (encode_uri_component tag)) w in
      (case response of
         Inl _ \<Rightarrow> None
       | Inr r \<Rightarrow> if rs_status r \<noteq> 200 then None else header_of ''docker-content-digest'' r, w1))"

definition src_repo :: "validated \<Rightarrow> string" where
  "src_repo v = ''mirror/'' @ vd_host v @ ''/'' @ vd_repo v"

definition dst_repo :: "validated \<Rightarrow> string" where
  "dst_repo v = ''cluster/'' @ vd_cluster_id v @ ''/_imported/'' @ vd_host v @ ''/'' @ vd_repo v"

definition dst_tag :: "validated \<Rightarrow> string" where
  "dst_tag v = vd_tag v @ vd_suffix v"

definition import_body :: "bool \<Rightarrow> validated \<Rightarrow> string \<Rightarrow> js" where
  "import_body imported v digest =
     JObj [(''imported'', JBool imported), (''already_present'', JBool (\<not> imported)), (''target_repository'', JStr (dst_repo v)),
           (''target_tag'', JStr (dst_tag v)), (''target_ref'', JStr (dst_repo v @ '':'' @ dst_tag v)), (''digest'', JStr digest)]"

definition outcome_js :: "mount_outcome \<Rightarrow> js" where
  "outcome_js m =
     JObj ([(''digest'', mo_digest m), (''status'', JStr (mount_status_text (mo_status m)))]
           @ (case mo_detail m of None \<Rightarrow> [] | Some d \<Rightarrow> [(''detail'', JStr d)]))"

definition import_options :: "'a hook_services_scheme \<Rightarrow> mount_options" where
  "import_options sv = \<lparr>mf_registry_url = registry_url (hs_env sv), mf_authorization = None, mf_timeout_ms = None\<rparr>"

definition put_manifest :: "'a hook_services_scheme \<Rightarrow> validated \<Rightarrow> string \<Rightarrow> string \<Rightarrow> 'w world_scheme \<Rightarrow> api_answer option \<times> 'w world_scheme" where
  "put_manifest sv v text media_type w =
     (let (write, w1) = write_manifest sv (dst_repo v) (dst_tag v) text media_type (import_options sv) w in
      (case write of
         None \<Rightarrow> None
       | Some r \<Rightarrow>
           (if wm_status r \<noteq> 201 then
              Some \<lparr>aa_status = 502,
                aa_body = JObj [(''error'', JStr (''manifest_put_failed_'' @ int_to_string (wm_status r))),
                                (''detail'', case wm_body r of None \<Rightarrow> JNull | Some b \<Rightarrow> JStr b)]\<rparr>
            else Some \<lparr>aa_status = 201, aa_body = import_body True v (or_else (wm_digest r) (vd_digest v))\<rparr>), w1))"

definition copy_manifest :: "'a hook_services_scheme \<Rightarrow> validated \<Rightarrow> string \<Rightarrow> string \<Rightarrow> 'w world_scheme \<Rightarrow> api_answer option \<times> 'w world_scheme" where
  "copy_manifest sv v text media_type w =
     (case json_parse text of
        None \<Rightarrow> (Some (answer_error 502 ''registry_returned_invalid_manifest''), w)
      | Some manifest \<Rightarrow>
          (case collect_blob_digests manifest of
             None \<Rightarrow> (None, w)
           | Some digests \<Rightarrow>
               (if digests = [] then (Some (answer_error 502 ''manifest_references_no_blobs''), w)
                else
                  (let (mounted, w1) = mount_all_blobs sv manifest (src_repo v) (dst_repo v) (import_options sv) w in
                   case mounted of
                     None \<Rightarrow> (None, w1)
                   | Some r \<Rightarrow>
                       (if \<not> mr_all_mounted r then
                          (Some \<lparr>aa_status = 502, aa_body = JObj [(''error'', JStr ''mount_failed''),
                             (''outcomes'', JArr (map outcome_js (mr_outcomes r)))]\<rparr>, w1)
                        else put_manifest sv v text media_type w1)))))"

definition import_image :: "'a hook_services_scheme \<Rightarrow> string option \<Rightarrow> js \<Rightarrow> 'w world_scheme \<Rightarrow> api_answer option \<times> 'w world_scheme" where
  "import_image sv authorization body w =
     (if \<not> import_authorized (hs_env sv) authorization then (Some (answer_error 401 ''unauthorized''), w)
      else
        (case validate_import body of
           Inl e \<Rightarrow> (Some (answer_error 400 e), w)
         | Inr v \<Rightarrow>
             (let (existing, w1) = head_manifest_digest sv (dst_repo v) (dst_tag v) w in
              if truthy existing \<and> to_lower (the existing) = vd_digest v then
                (Some \<lparr>aa_status = 200, aa_body = import_body False v (vd_digest v)\<rparr>, w1)
              else
                (let (response, w2) = fetch_request sv (manifest_reference_request sv ''GET'' (src_repo v) (vd_digest v)) w1 in
                 case response of
                   Inl _ \<Rightarrow> (Some (answer_error 502 ''registry_unreachable''), w2)
                 | Inr r \<Rightarrow>
                     (if rs_status r = 404 then (Some (answer_error 404 ''source_manifest_not_found''), w2)
                      else if rs_status r \<noteq> 200 then (Some (answer_error 502 (''registry_status_'' @ int_to_string (rs_status r))), w2)
                      else
                        (let media_type = or_else (header_of ''content-type'' r) ''application/vnd.docker.distribution.manifest.v2+json'' in
                         if js_includes ''manifest.list'' media_type \<or> js_includes ''image.index'' media_type then
                           (Some (answer_error 501 ''multi_arch_not_implemented''), w2)
                         else
                           (case body_text r of None \<Rightarrow> (None, w2) | Some text \<Rightarrow> copy_manifest sv v text media_type w2)))))))"

section \<open>Lemmas\<close>

lemma char_word_inject: "(of_nat (char_code x) :: 32 word) = of_nat (char_code y) \<longleftrightarrow> x = y"
proof -
  have lt: "char_code c < (2 ^ 32 :: nat)" for c using code_lt [of c] by (rule less_trans) simp
  have "unat (of_nat (char_code c) :: 32 word) = char_code c" for c
    using lt [of c] by (simp add: unat_of_nat)
  then have "(of_nat (char_code x) :: 32 word) = of_nat (char_code y) \<longleftrightarrow> char_code x = (char_code y :: nat)"
    by metis
  then show ?thesis by (simp add: of_char_eq_iff)
qed

lemma xor_zero_word: "(a :: 32 word) XOR b = 0 \<longleftrightarrow> a = b"
  by (metis xor_self_eq xor.assoc xor.left_neutral xor.right_neutral)

lemma diff_fold:
  "fold (\<lambda>(x, y) diff. diff OR (of_nat (char_code x) XOR of_nat (char_code y))) ps (acc :: 32 word) = 0
     \<longleftrightarrow> acc = 0 \<and> (\<forall>(x, y) \<in> set ps. x = y)"
  by (induction ps arbitrary: acc) (auto simp: or_eq_0_iff xor_zero_word char_word_inject)

lemma digits_only_ascii: "TAG_PATTERN s \<Longrightarrow> c \<in> set s \<Longrightarrow> is_alnum c \<or> c \<in> set ''._-''"
  by (cases s) (auto simp: TAG_PATTERN_def list_all_iff)

lemma no_line_terminator_chars:
  "\<forall>c \<in> set s. char_code c \<noteq> (10 :: nat) \<and> char_code c \<noteq> (13 :: nat) \<and> char_code c \<noteq> (226 :: nat) \<Longrightarrow>
     \<not> has_line_terminator s"
  by (induction s) (simp_all split: list.split)

lemma tag_no_terminator: "TAG_PATTERN s \<Longrightarrow> \<not> has_line_terminator s"
proof (rule no_line_terminator_chars, rule ballI)
  fix c assume "TAG_PATTERN s" "c \<in> set s"
  then have "is_alnum c \<or> c \<in> set ''._-''" by (rule digits_only_ascii)
  then show "char_code c \<noteq> (10 :: nat) \<and> char_code c \<noteq> (13 :: nat) \<and> char_code c \<noteq> (226 :: nat)"
    by (auto simp: char_class_defs)
qed

lemma validated_fields:
  assumes "validate_import body = Inr v"
  shows "CLUSTER_ID_PATTERN (vd_cluster_id v) \<and> TAG_PATTERN (vd_tag v)"
  using assms by (auto simp: validate_import_def matching_def split: option.splits js.splits if_splits)

lemma head_manifest_digest_sent:
  "head_manifest_digest sv repo tag w = (res, w') \<Longrightarrow>
     w' = w\<lparr>w_sent := w_sent w @ [manifest_reference_request sv ''HEAD'' repo (encode_uri_component tag)]\<rparr>"
  by (auto simp: head_manifest_digest_def case_prod_beta' Let_def)

lemma reference_request_method [simp]: "rq_method (manifest_reference_request sv verb repo r) = verb"
  by (simp add: manifest_reference_request_def)

text \<open>
  The one \<open>PUT\<close> of an import: what it writes is the answer to a request for the source manifest by its
  digest, and every blob of it was put in place between the two.
\<close>

definition put_after_blobs :: "'a hook_services_scheme \<Rightarrow> validated \<Rightarrow> http_request list \<Rightarrow> http_request list \<Rightarrow> http_request \<Rightarrow> bool" where
  "put_after_blobs sv v old before req \<longleftrightarrow>
     (\<exists>first mounts r text media_type manifest ds.
        before = first @ manifest_reference_request sv ''GET'' (src_repo v) (vd_digest v) # mounts
        \<and> sv_net sv (old @ first) (manifest_reference_request sv ''GET'' (src_repo v) (vd_digest v)) = Inr r
        \<and> rs_status r = 200 \<and> body_text r = Some text
        \<and> json_parse text = Some manifest \<and> collect_blob_digests manifest = Some ds \<and> ds \<noteq> []
        \<and> (\<forall>d \<in> set ds. blob_in_place sv (old @ first @ [manifest_reference_request sv ''GET'' (src_repo v) (vd_digest v)]) mounts
              (src_repo v) (dst_repo v) (import_options sv) d)
        \<and> req = manifest_put_request (import_options sv) (dst_repo v) (dst_tag v) text media_type)"

text \<open>What a copy sends: no \<open>PUT\<close>, or exactly one and last.\<close>

definition copy_sent :: "'a hook_services_scheme \<Rightarrow> validated \<Rightarrow> string \<Rightarrow> http_request list \<Rightarrow> http_request list \<Rightarrow> api_answer option \<Rightarrow> bool" where
  "copy_sent sv v text old new res \<longleftrightarrow>
     (\<exists>reqs. (\<forall>req \<in> set reqs. rq_method req \<noteq> ''PUT'') \<and>
       (new = reqs \<and> (\<forall>a. res = Some a \<longrightarrow> aa_status a \<noteq> 201) \<or>
        (\<exists>media_type manifest ds. json_parse text = Some manifest \<and> collect_blob_digests manifest = Some ds \<and> ds \<noteq> []
           \<and> (\<forall>d \<in> set ds. blob_in_place sv old reqs (src_repo v) (dst_repo v) (import_options sv) d)
           \<and> new = reqs @ [manifest_put_request (import_options sv) (dst_repo v) (dst_tag v) text media_type]
           \<and> (\<forall>a. res = Some a \<and> aa_status a = 201 \<longrightarrow> answered sv old new (last new) 201))))"

lemma copy_sent_none: "\<forall>a. res = Some a \<longrightarrow> aa_status a \<noteq> 201 \<Longrightarrow> copy_sent sv v text old [] res"
  by (auto simp: copy_sent_def)

lemma copy_manifest_effect:
  assumes "copy_manifest sv v text media_type w = (res, w')"
  shows "\<exists>new. w_sent w' = w_sent w @ new \<and> copy_sent sv v text (w_sent w) new res"
proof -
  consider (stop) "w' = w" "\<forall>a. res = Some a \<longrightarrow> aa_status a \<noteq> 201"
    | (run) manifest ds r w1 where "json_parse text = Some manifest" "collect_blob_digests manifest = Some ds" "ds \<noteq> []"
        "mount_loop sv (src_repo v) (dst_repo v) (import_options sv) ds [] w = (r, w1)"
        "if mr_all_mounted r then put_manifest sv v text media_type w1 = (res, w')
         else w' = w1 \<and> (\<forall>a. res = Some a \<longrightarrow> aa_status a \<noteq> 201)"
    using assms by (auto simp: copy_manifest_def mount_all_blobs_def answer_error_def split: option.splits if_splits prod.splits)
  then show ?thesis
  proof cases
    case stop
    then show ?thesis by (intro exI [of _ "[]"]) (simp add: copy_sent_none)
  next
    case run
    from mount_loop_requests [OF run(4)] obtain reqs where
      l: "w1 = w\<lparr>w_sent := w_sent w @ reqs\<rparr>" "\<forall>req \<in> set reqs. rq_method req \<noteq> ''PUT''"
         "mr_all_mounted r \<Longrightarrow> \<forall>d \<in> set ds. blob_in_place sv (w_sent w) reqs (src_repo v) (dst_repo v) (import_options sv) d" by blast
    show ?thesis
    proof (cases "mr_all_mounted r")
      case False
      with run(5) l show ?thesis by (intro exI [of _ reqs]) (auto simp: copy_sent_def)
    next
      case True
      let ?req = "manifest_put_request (import_options sv) (dst_repo v) (dst_tag v) text media_type"
      obtain resp w2 where f: "fetch_request sv ?req w1 = (resp, w2)" by force
      have w2: "w' = w2" and ok: "\<forall>a. res = Some a \<and> aa_status a = 201 \<longrightarrow> (\<exists>x. resp = Inr x \<and> rs_status x = 201)"
        using run(5) True f by (auto simp: put_manifest_def write_manifest_def split: sum.splits if_splits)
      have "answered sv (w_sent w) (reqs @ [?req]) ?req 201" if "res = Some a" "aa_status a = 201" for a
      proof -
        from ok that obtain x where x: "resp = Inr x" "rs_status x = 201" by blast
        from fetch_request_ok [OF f [unfolded x(1)]] l(1) answered_last [of sv "w_sent w" reqs ?req x] x(2)
        show ?thesis by simp
      qed
      then have "copy_sent sv v text (w_sent w) (reqs @ [?req]) res"
        using run(1-3) l(2,3) True unfolding copy_sent_def by (intro exI [of _ reqs]) auto
      then show ?thesis using l(1) fetch_request_next [OF f] w2 by (intro exI [of _ "reqs @ [?req]"]) simp
    qed
  qed
qed

text \<open>An import of what is already there is one look-up.\<close>

lemma import_again_is_a_lookup:
  assumes "import_authorized (hs_env sv) authorization" and "validate_import body = Inr v"
    and "head_manifest_digest sv (dst_repo v) (dst_tag v) w = (Some d, w1)" and "to_lower d = vd_digest v" and "d \<noteq> []"
  shows "import_image sv authorization body w = (Some \<lparr>aa_status = 200, aa_body = import_body False v (vd_digest v)\<rparr>, w1)"
  using assms by (simp add: import_image_def truthy_def)

lemma import_cases:
  assumes "import_image sv authorization body w = (res, w')"
  obtains (refused) "w' = w" "\<forall>a. res = Some a \<longrightarrow> aa_status a \<noteq> 201"
  | (known) v d where "import_authorized (hs_env sv) authorization" "validate_import body = Inr v"
      "head_manifest_digest sv (dst_repo v) (dst_tag v) w = (d, w')" "\<forall>a. res = Some a \<longrightarrow> aa_status a \<noteq> 201"
  | (unread) v d w1 r where "import_authorized (hs_env sv) authorization" "validate_import body = Inr v"
      "head_manifest_digest sv (dst_repo v) (dst_tag v) w = (d, w1)"
      "fetch_request sv (manifest_reference_request sv ''GET'' (src_repo v) (vd_digest v)) w1 = (r, w')"
      "\<forall>a. res = Some a \<longrightarrow> aa_status a \<noteq> 201"
  | (copied) v d w1 r w2 t media_type where "import_authorized (hs_env sv) authorization" "validate_import body = Inr v"
      "head_manifest_digest sv (dst_repo v) (dst_tag v) w = (d, w1)"
      "fetch_request sv (manifest_reference_request sv ''GET'' (src_repo v) (vd_digest v)) w1 = (Inr r, w2)"
      "rs_status r = 200" "body_text r = Some t" "copy_manifest sv v t media_type w2 = (res, w')"
proof (cases "import_authorized (hs_env sv) authorization")
  case False
  with assms refused show ?thesis by (auto simp: import_image_def answer_error_def)
next
  case auth: True
  show ?thesis
  proof (cases "validate_import body")
    case (Inl e)
    with auth assms refused show ?thesis by (auto simp: import_image_def answer_error_def)
  next
    case v: (Inr v)
    obtain d w1 where h: "head_manifest_digest sv (dst_repo v) (dst_tag v) w = (d, w1)" by (rule prod.exhaust)
    show ?thesis
    proof (cases "truthy d \<and> to_lower (the d) = vd_digest v")
      case True
      with auth v h assms known show ?thesis by (auto simp: import_image_def)
    next
      case False
      obtain r w2 where g: "fetch_request sv (manifest_reference_request sv ''GET'' (src_repo v) (vd_digest v)) w1 = (r, w2)"
        by (rule prod.exhaust)
      note run = assms [unfolded import_image_def, simplified auth v sum.case h g Let_def prod.case False simp_thms if_True if_False]
      show ?thesis
      proof (cases r)
        case (Inl e)
        with run have "w' = w2" "\<forall>a. res = Some a \<longrightarrow> aa_status a \<noteq> 201" by (auto simp: answer_error_def)
        with unread [OF auth v h] g show ?thesis by blast
      next
        case r: (Inr x)
        show ?thesis
        proof (cases "rs_status x = 200")
          case False
          with r run have "w' = w2" "\<forall>a. res = Some a \<longrightarrow> aa_status a \<noteq> 201" by (auto simp: answer_error_def split: if_splits)
          with unread [OF auth v h] g show ?thesis by blast
        next
          case True
          with r run consider "w' = w2 \<and> (\<forall>a. res = Some a \<longrightarrow> aa_status a \<noteq> 201)"
            | t media_type where "body_text x = Some t" "copy_manifest sv v t media_type w2 = (res, w')"
            by (auto simp: answer_error_def Let_def split: if_splits option.splits)
          then show ?thesis using unread [OF auth v h] copied [OF auth v h] g r True by cases blast+
        qed
      qed
    qed
  qed
qed

text \<open>The requests of a copy behind the two look-ups.\<close>

lemma import_put:
  assumes "copy_sent sv v text (old @ [h, manifest_reference_request sv ''GET'' (src_repo v) (vd_digest v)]) new res"
    and "sv_net sv (old @ [h]) (manifest_reference_request sv ''GET'' (src_repo v) (vd_digest v)) = Inr r"
    and "rs_status r = 200" and "body_text r = Some text" and "rq_method h \<noteq> ''PUT''"
  shows "(\<forall>pre req post. [h, manifest_reference_request sv ''GET'' (src_repo v) (vd_digest v)] @ new = pre @ req # post
      \<and> rq_method req = ''PUT'' \<longrightarrow> post = [] \<and> put_after_blobs sv v old pre req)
    \<and> (\<forall>a. res = Some a \<and> aa_status a = 201 \<longrightarrow> rq_method (last ([h, manifest_reference_request sv ''GET'' (src_repo v) (vd_digest v)] @ new)) = ''PUT''
         \<and> answered sv old ([h, manifest_reference_request sv ''GET'' (src_repo v) (vd_digest v)] @ new) (last ([h, manifest_reference_request sv ''GET'' (src_repo v) (vd_digest v)] @ new)) 201)"
proof -
  let ?g = "manifest_reference_request sv ''GET'' (src_repo v) (vd_digest v)"
  obtain reqs where quiet: "\<forall>req \<in> set reqs. rq_method req \<noteq> ''PUT''" and
    cases: "new = reqs \<and> (\<forall>a. res = Some a \<longrightarrow> aa_status a \<noteq> 201) \<or>
        (\<exists>media_type manifest ds. json_parse text = Some manifest \<and> collect_blob_digests manifest = Some ds \<and> ds \<noteq> []
           \<and> (\<forall>d \<in> set ds. blob_in_place sv (old @ [h, ?g]) reqs (src_repo v) (dst_repo v) (import_options sv) d)
           \<and> new = reqs @ [manifest_put_request (import_options sv) (dst_repo v) (dst_tag v) text media_type]
           \<and> (\<forall>a. res = Some a \<and> aa_status a = 201 \<longrightarrow> answered sv (old @ [h, ?g]) new (last new) 201))"
    using assms(1) unfolding copy_sent_def by blast
  have no_put: "\<forall>req \<in> set ([h, ?g] @ reqs). rq_method req \<noteq> ''PUT''" using quiet assms(5) by simp
  from cases show ?thesis
  proof (elim disjE exE conjE)
    assume "new = reqs" "\<forall>a. res = Some a \<longrightarrow> aa_status a \<noteq> 201"
    with no_put show ?thesis by (metis in_set_conv_decomp)
  next
    fix media_type manifest ds
    let ?put = "manifest_put_request (import_options sv) (dst_repo v) (dst_tag v) text media_type"
    assume m: "json_parse text = Some manifest" "collect_blob_digests manifest = Some ds" "ds \<noteq> []"
      "\<forall>d \<in> set ds. blob_in_place sv (old @ [h, ?g]) reqs (src_repo v) (dst_repo v) (import_options sv) d"
      and new: "new = reqs @ [?put]"
      and ok: "\<forall>a. res = Some a \<and> aa_status a = 201 \<longrightarrow> answered sv (old @ [h, ?g]) new (last new) 201"
    have after: "put_after_blobs sv v old ([h, ?g] @ reqs) ?put"
      unfolding put_after_blobs_def using m assms(2-4)
      by (intro exI [of _ "[h]"] exI [of _ reqs] exI [of _ r] exI [of _ "text"] exI [of _ media_type] exI [of _ manifest] exI [of _ ds]) simp
    have "post = [] \<and> put_after_blobs sv v old pre req"
      if split: "[h, ?g] @ new = pre @ req # post" and "rq_method req = ''PUT''" for pre req post
    proof (cases post rule: rev_cases)
      case Nil
      with split new after show ?thesis by auto
    next
      case (snoc post' x)
      with split new have "[h, ?g] @ reqs = pre @ req # post'" by auto
      then have "req \<in> set ([h, ?g] @ reqs)" by (metis in_set_conv_decomp)
      with no_put that(2) show ?thesis by blast
    qed
    moreover have "answered sv old ([h, ?g] @ new) ?put 201" if "res = Some a" "aa_status a = 201" for a
      using ok that new answered_earlier [of sv old "[h, ?g]" new ?put 201] by simp
    ultimately show ?thesis using new by auto
  qed
qed

section \<open>Properties\<close>

text \<open>
  Comparing a presented token with the expected one character by character, keeping the differences
  in a 32-bit integer, is equality.
\<close>

theorem constant_time_equals_is_equality: "constant_time_equals a b \<longleftrightarrow> a = b"
proof (cases "length a = length b")
  case True
  then have "(\<forall>(x, y) \<in> set (zip a b). x = y) \<longleftrightarrow> a = b"
    by (induction a b rule: list_induct2) auto
  with True show ?thesis by (simp add: constant_time_equals_def diff_fold)
qed (auto simp: constant_time_equals_def)

text \<open>
  C10. An import writes the manifest last and only over blobs that are in place: nothing is sent
  unless the caller is authorized and the request is valid; a \<open>PUT\<close> is the last request, its body is
  what the registry returned for the source manifest by its digest, and every blob that manifest names
  was mounted (201) or found in the target (200) in between; and a 201 is answered exactly on a \<open>PUT\<close>
  the registry answered with 201.
\<close>

theorem import_writes_over_present_blobs:
  assumes "import_image sv authorization body w = (res, w')"
  shows "\<exists>new. w_sent w' = w_sent w @ new
    \<and> (new \<noteq> [] \<longrightarrow> import_authorized (hs_env sv) authorization \<and> (\<exists>v. validate_import body = Inr v))
    \<and> (\<forall>pre req post. new = pre @ req # post \<and> rq_method req = ''PUT'' \<longrightarrow>
         post = [] \<and> (\<exists>v. validate_import body = Inr v \<and> put_after_blobs sv v (w_sent w) pre req))
    \<and> (\<forall>a. res = Some a \<and> aa_status a = 201 \<longrightarrow>
         new \<noteq> [] \<and> rq_method (last new) = ''PUT'' \<and> answered sv (w_sent w) new (last new) 201)"
  using assms
proof (cases rule: import_cases)
  case refused
  then show ?thesis by (intro exI [of _ "[]"]) auto
next
  case (known v d)
  then show ?thesis using head_manifest_digest_sent [OF known(3)]
    by (intro exI [of _ "[manifest_reference_request sv ''HEAD'' (dst_repo v) (encode_uri_component (dst_tag v))]"])
       (auto simp: Cons_eq_append_conv)
next
  case (unread v d w1 r)
  then show ?thesis using head_manifest_digest_sent [OF unread(3)] fetch_request_next [OF unread(4)]
    by (intro exI [of _ "[manifest_reference_request sv ''HEAD'' (dst_repo v) (encode_uri_component (dst_tag v)),
          manifest_reference_request sv ''GET'' (src_repo v) (vd_digest v)]"])
       (auto simp: Cons_eq_append_conv)
next
  case (copied v d w1 r w2 t media_type)
  let ?h = "manifest_reference_request sv ''HEAD'' (dst_repo v) (encode_uri_component (dst_tag v))"
  let ?g = "manifest_reference_request sv ''GET'' (src_repo v) (vd_digest v)"
  have w1: "w_sent w1 = w_sent w @ [?h]" using head_manifest_digest_sent [OF copied(3)] by simp
  have w2: "w_sent w2 = w_sent w @ [?h, ?g]" and net: "sv_net sv (w_sent w @ [?h]) ?g = Inr r"
    using fetch_request_ok [OF copied(4)] w1 by simp_all
  from copy_manifest_effect [OF copied(7)] w2 obtain new where
    new: "w_sent w' = w_sent w @ [?h, ?g] @ new" "copy_sent sv v t (w_sent w @ [?h, ?g]) new res" by auto
  show ?thesis
    by (rule exI [of _ "[?h, ?g] @ new"])
       (use import_put [OF new(2) net copied(5,6)] new(1) copied(1,2) in auto)
qed

text \<open>
  C38. An import lands in the namespace of the cluster it names: the scope policy gives that cluster's
  token every action there and every other cluster's token none, the webhook attributes the pushed
  tag to the cluster, and with the default suffix the reaper keeps it for ninety idle days.
\<close>

theorem import_lands_in_its_cluster:
  assumes "validate_import body = Inr v"
  shows "evaluate_cluster_pat_scope env (vd_cluster_id v) ''repository'' (dst_repo v) acts = allow acts
    \<and> (\<forall>other a. CLUSTER_ID_PATTERN other \<and> other \<noteq> vd_cluster_id v
          \<and> a \<in> set (sd_actions (evaluate_cluster_pat_scope env other t (dst_repo v) acts)) \<longrightarrow> a = ''pull'')
    \<and> (\<exists>ip. infer_provenance (JStr (dst_repo v)) = Some ip \<and> ip_provenance ip = ClusterSnapshot
          \<and> ip_cluster_id ip = Some (vd_cluster_id v))
    \<and> (vd_suffix v = DEFAULT_TAG_SUFFIX \<longrightarrow>
         tr_mode (parse_tag_retention (dst_tag v) now) = Idle
         \<and> tr_seconds (parse_tag_retention (dst_tag v) now) = Some (OwnValue (90 * 24 * 60 * 60))
         \<and> tr_expires_at (parse_tag_retention (dst_tag v) now) = None)"
proof (intro conjI allI impI)
  let ?rest = "''_imported/'' @ vd_host v @ ''/'' @ vd_repo v"
  have dst: "dst_repo v = (''cluster/'' @ vd_cluster_id v) @ ''/'' @ ?rest" by (simp add: dst_repo_def)
  have own: "under_namespace (''cluster/'' @ vd_cluster_id v) (dst_repo v)" unfolding dst by (rule under_namespace_append)
  have id: "CLUSTER_ID_PATTERN (vd_cluster_id v)" and tag: "TAG_PATTERN (vd_tag v)" using validated_fields [OF assms] by simp_all
  show "evaluate_cluster_pat_scope env (vd_cluster_id v) ''repository'' (dst_repo v) acts = allow acts"
    using own by (simp add: evaluate_cluster_pat_scope_def dst_repo_def)
  show "a = ''pull''" if "CLUSTER_ID_PATTERN other \<and> other \<noteq> vd_cluster_id v
      \<and> a \<in> set (sd_actions (evaluate_cluster_pat_scope env other t (dst_repo v) acts))" for other a
    using that evaluate_write own_namespaces_disjoint [OF _ id _ own] by blast
  have ne: "vd_cluster_id v \<noteq> []" using id by (auto simp: CLUSTER_ID_PATTERN_def)
  have "path_segments (''cluster'' @ CHR ''/'' # vd_cluster_id v @ CHR ''/'' # ?rest) = ''cluster'' # vd_cluster_id v # path_segments ?rest"
    using ne cluster_id_no_slash [OF id]
    by (subst path_segments_prefix, subst path_segments_prefix) (simp add: path_segments_atom)
  then show "\<exists>ip. infer_provenance (JStr (dst_repo v)) = Some ip \<and> ip_provenance ip = ClusterSnapshot
          \<and> ip_cluster_id ip = Some (vd_cluster_id v)"
    using id by (simp add: infer_provenance_def dst_repo_def)
  assume s: "vd_suffix v = DEFAULT_TAG_SUFFIX"
  have "matches_ttl_pattern (dst_tag v) (vd_tag v) Idle ''90d''"
    using tag_no_terminator [OF tag] s
    by (simp add: matches_ttl_pattern_def dst_tag_def DEFAULT_TAG_SUFFIX_def mode_text_def char_class_defs)
  then have m: "ttl_tag_match (dst_tag v) = Some (vd_tag v, Idle, ''90d'')" by (simp add: ttl_tag_match_iff)
  have l: "map_of TTL_SUFFIX_SECONDS ''90d'' = Some (90 * 24 * 60 * 60)" by (simp add: TTL_SUFFIX_SECONDS_def)
  show "tr_mode (parse_tag_retention (dst_tag v) now) = Idle"
    "tr_seconds (parse_tag_retention (dst_tag v) now) = Some (OwnValue (90 * 24 * 60 * 60))"
    "tr_expires_at (parse_tag_retention (dst_tag v) now) = None"
    by (simp_all add: parse_tag_retention_def object_lookup_def m l)
qed

text \<open>
  The presence of a blob is what the registry says: without the token, or with a malformed digest or
  repository, no request is sent; otherwise exactly one \<open>HEAD\<close> is, and \<open>present\<close> is answered true only for its
  200 and false only for its 404, every other outcome being an error of the gateway.
\<close>

theorem blob_presence_is_the_registrys:
  "if internal_authorized (hs_env sv) authorization \<and> DIGEST_PATTERN digest \<and> is_valid_repository repository then
     w_sent (snd (blob_presence sv authorization repository digest w)) = w_sent w @ [blob_request sv repository digest]
     \<and> (case sv_net sv (w_sent w) (blob_request sv repository digest) of
          Inl _ \<Rightarrow> fst (blob_presence sv authorization repository digest w) = answer_error 502 ''registry_unreachable''
        | Inr r \<Rightarrow>
            (if rs_status r \<in> {200, 404} then
               aa_status (fst (blob_presence sv authorization repository digest w)) = 200
               \<and> js_prop (aa_body (fst (blob_presence sv authorization repository digest w))) ''present'' = JBool (rs_status r = 200)
             else aa_status (fst (blob_presence sv authorization repository digest w)) = 502))
   else snd (blob_presence sv authorization repository digest w) = w
     \<and> aa_status (fst (blob_presence sv authorization repository digest w))
         = (if internal_authorized (hs_env sv) authorization then 400 else 401)"
  by (auto simp: blob_presence_def fetch_request_def axios_request_def answer_error_def presence_body_def js_prop_def
      Let_def split: sum.split)

section \<open>An import evaluated\<close>

definition import_request :: js where
  "import_request = JObj [(''upstream_host'', JStr ''ghcr.io''), (''upstream_repo'', JStr ''a/b''), (''upstream_tag'', JStr ''v1''),
     (''upstream_digest'', JStr (''sha256:'' @ replicate 64 CHR ''0'')), (''cluster_id'', JStr ''team-a'')]"

definition import_validated :: validated where
  "import_validated = \<lparr>vd_host = ''ghcr.io'', vd_repo = ''a/b'', vd_tag = ''v1'', vd_digest = ''sha256:'' @ replicate 64 CHR ''0'',
     vd_cluster_id = ''team-a'', vd_suffix = ''--idle-90d''\<rparr>"

lemma import_request_valid: "validate_import import_request = Inr import_validated"
  by code_simp

definition source_text :: string where
  "source_text = CHR 0x7B # CHR 0x22 # ''layers'' @ CHR 0x22 # '':[{'' @ CHR 0x22 # ''digest'' @ CHR 0x22 # CHR '':'' # CHR 0x22 # ''a'' @ CHR 0x22 # ''}]}''"

definition import_services :: hook_services where
  "import_services =
     \<lparr>sv_net = (\<lambda>_ req. Inr \<lparr>rs_status = (if rq_method req = ''HEAD'' then 404 else if rq_method req = ''GET'' then 200 else 201),
        rs_headers = [], rs_data = JStr source_text\<rparr>),
      sv_hrtime = int, sv_date = int, sv_metrics_enabled = True, hs_env = (\<lambda>k. if k = ''INTERNAL_API_TOKEN'' then Some ''s'' else None),
      hs_gen = (\<lambda>_. ''id''), hs_session = (\<lambda>_. Connected NoFault), hs_statement = (\<lambda>_. NoFault), hs_pg_now = (\<lambda>_. 0),
      hs_redis_ready = (\<lambda>_. False), hs_redis_reply = (\<lambda>_. RedisOk), hs_collate = (\<lambda>_ _. True), hs_ties = (\<lambda>_ xs. xs),
      hs_param_text = js_String\<rparr>"

lemma import_services_fetch:
  "fetch_request import_services req w =
     (Inr \<lparr>rs_status = (if rq_method req = ''HEAD'' then 404 else if rq_method req = ''GET'' then 200 else 201), rs_headers = [],
        rs_data = JStr source_text\<rparr>, w\<lparr>w_sent := w_sent w @ [req]\<rparr>)"
  by (simp add: fetch_request_def axios_request_def import_services_def)

lemma source_parsed: "json_parse source_text = Some (JObj [(''layers'', JArr [JObj [(''digest'', JStr ''a'')]])])"
  by code_simp

lemma source_blobs: "collect_blob_digests (JObj [(''layers'', JArr [JObj [(''digest'', JStr ''a'')]])]) = Some [JStr ''a'']"
  by code_simp

lemma import_token_ok: "import_authorized (hs_env import_services) (Some ''Bearer s'')"
  by (simp add: import_services_def) code_simp

lemma import_succeeds:
  "map_option aa_status (fst (import_image import_services (Some ''Bearer s'') import_request fresh_world)) = Some 201"
  by (simp add: import_image_def import_token_ok import_request_valid head_manifest_digest_def import_services_fetch
      header_of_def body_text_def copy_manifest_def source_parsed source_blobs mount_all_blobs_def mount_blob_def
      outcome_def put_manifest_def write_manifest_def or_else_def truthy_def)

theorem import_writes_over_present_blobs_witness:
  "\<exists>new. new \<noteq> [] \<and> rq_method (last new) = ''PUT'' \<and> answered import_services [] new (last new) 201"
proof -
  obtain res w' where run: "import_image import_services (Some ''Bearer s'') import_request fresh_world = (res, w')"
    by (rule prod.exhaust)
  with import_succeeds obtain a where a: "res = Some a" "aa_status a = 201" by (auto simp: map_option_eq_Some)
  have empty: "w_sent fresh_world = []" by (simp add: fresh_world_def)
  from import_writes_over_present_blobs [OF run] a show ?thesis unfolding empty by blast
qed

theorem import_lands_in_its_cluster_witness:
  "tr_mode (parse_tag_retention (dst_tag import_validated) 0) = Idle"
  using import_lands_in_its_cluster [OF import_request_valid, of "\<lambda>_. None" "[]" "''repository''" 0]
  by (simp add: import_validated_def DEFAULT_TAG_SUFFIX_def)

end
