(* ===== verification/HttpServer.thy ===== *)
theory HttpServer
  imports ImportAPI
begin

text \<open>
  The HTTP plumbing of the webhook service: \<open>hooks/src/router.ts\<close>, \<open>server/errors.ts\<close>,
  \<open>controllers/HealthzAPI.ts\<close>, the port of \<open>server/server.ts\<close> and \<open>util/params.ts\<close>. A response is the
  list of calls made on the Express response object, in order; \<open>None\<close> is an exception. What is thrown is
  a value together with the name of its constructor, its properties being those of the value.
\<close>

section \<open>Responses\<close>

datatype express_call =
    SetStatus js
  | SetType js
  | SetHeader string js
  | Attach js
  | Send js
  | SendJson js

record thrown =
  th_class :: string
  th_value :: js

definition js_or :: "js \<Rightarrow> js \<Rightarrow> js" where
  "js_or a b = (if js_truthy a then a else b)"

text \<open>\<open>JSON.stringify\<close> of a whole value: there is no text for undefined.\<close>

definition stringify :: "js \<Rightarrow> js" where
  "stringify v = (if v = JUndef then JUndef else JStr (json_stringify v))"

definition raw_created :: "js \<Rightarrow> js" where
  "raw_created entity = JObj [(''status'', JNum (Fin 201)), (''body'', stringify entity)]"

definition REQUEST_ID_HEADER :: string where "REQUEST_ID_HEADER = ''X-Ttlsh-RequestId''"

text \<open>
  The log line takes a prefix of a body whose length is above 512, which only a string has: an array or
  an object that claims such a length is a type error.
\<close>

definition unloggable :: "js \<Rightarrow> bool" where
  "unloggable body = (case body of
     JArr xs \<Rightarrow> length xs > 512
   | JObj _ \<Rightarrow> num_gt (js_Number (js_prop body ''length'')) (Fin 512)
   | _ \<Rightarrow> False)"

text \<open>\<open>_.forOwn\<close>: the own properties, which for an array or a text are its positions.\<close>

definition own_properties :: "js \<Rightarrow> (string \<times> js) list" where
  "own_properties v = (case v of
     JObj ps \<Rightarrow> ps
   | JArr xs \<Rightarrow> zip (map nat_to_string [0..<length xs]) xs
   | JStr s \<Rightarrow> zip (map nat_to_string [0..<length s]) (map (\<lambda>c. JStr [c]) s)
   | _ \<Rightarrow> [])"

text \<open>\<open>status_code\<close> is what \<open>statusCodeGetter\<close> returns, undefined when there is none.\<close>

definition on_success :: "string \<Rightarrow> js \<Rightarrow> js \<Rightarrow> express_call list option" where
  "on_success req_id status_code result =
     (if js_truthy result then
        (let status = js_or (js_or (js_prop result ''status'') status_code) (JNum (Fin 200));
             body = js_or (js_prop result ''body'') (stringify result);
             content_type = js_or (js_prop result ''contentType'') (JStr ''application/json'') in
         if unloggable body then None
         else Some ([SetStatus status, SetType content_type, SetHeader REQUEST_ID_HEADER (JStr req_id)]
           @ (if js_truthy (js_prop result ''filename'') then [Attach (js_prop result ''filename'')] else [])
           @ (if js_truthy (js_prop result ''headers'')
              then map (\<lambda>(k, v). SetHeader k v) (own_properties (js_prop result ''headers'')) else [])
           @ [Send body]))
      else Some [SetStatus (js_or status_code (JNum (Fin 200))), SetHeader REQUEST_ID_HEADER (JStr req_id), SendJson result])"

definition handle_framework_error :: "thrown \<Rightarrow> string \<Rightarrow> express_call list" where
  "handle_framework_error err req_id =
     (let v = th_value err;
          message = (if js_truthy (js_prop v ''err'') then js_prop (js_prop v ''err'') ''message''
                     else js_or (js_prop v ''message'') (JStr ''An unexpected error occurred'')) in
      [SetStatus (js_prop v ''status''), SetHeader REQUEST_ID_HEADER (JStr req_id),
       SendJson (JObj [(''status'', js_prop v ''status''),
         (''type'', JStr (if th_class err \<in> set [''Object'', ''Error''] then ''Error'' else th_class err)),
         (''error'', message), (''invalid'', js_prop v ''invalid'')])])"

text \<open>\<open>(v ? v : "").indexOf(text) !== -1\<close>: only texts and arrays have an \<open>indexOf\<close>.\<close>

definition index_found :: "js \<Rightarrow> string \<Rightarrow> bool option" where
  "index_found v t =
     (if \<not> js_truthy v then Some False
      else (case v of JStr s \<Rightarrow> Some (js_includes t s) | JArr xs \<Rightarrow> Some (JStr t \<in> set xs) | _ \<Rightarrow> None))"

definition HEADERS_SENT :: string where "HEADERS_SENT = ''Can'' @ CHR 0x27 # ''t set headers after they are sent''"

definition handle_unexpected_error :: "thrown \<Rightarrow> string \<Rightarrow> express_call list option" where
  "handle_unexpected_error err req_id =
     (let v = th_value err;
          found = (case index_found (js_prop v ''message'') HEADERS_SENT of
                     None \<Rightarrow> None | Some True \<Rightarrow> Some True | Some False \<Rightarrow> index_found (js_prop v ''stack'') HEADERS_SENT) in
      if found = None then None
      else Some [SetStatus (JNum (Fin 500)), SetHeader REQUEST_ID_HEADER (JStr req_id),
        SendJson (JObj [(''status'', JNum (Fin 500)),
          (''error'', js_or (js_prop v ''message'') (JStr ''An unexpected error occurred'')), (''type'', JStr ''Error'')])])"

definition on_error :: "string \<Rightarrow> thrown \<Rightarrow> express_call list option" where
  "on_error req_id err =
     (if js_nullish (th_value err) then None
      else if js_truthy (js_prop (th_value err) ''status'') then Some (handle_framework_error err req_id)
      else handle_unexpected_error err req_id)"

section \<open>Routes\<close>

definition hex_byte :: "nat \<Rightarrow> string" where
  "hex_byte b = [hex_digit (b div 16 mod 16), hex_digit (b mod 16)]"

text \<open>The four random bytes are an argument.\<close>

definition request_id :: "nat list \<Rightarrow> string \<Rightarrow> string option \<Rightarrow> string" where
  "request_id bytes handler_name client_id =
     (let ident = handler_name @ '':'' @ concat (map hex_byte bytes) in
      if truthy client_id then ident @ ''.'' @ take 8 (the client_id) else ident)"

text \<open>The type error of an unloggable body, which the promise chain hands to \<open>onError\<close>.\<close>

definition substring_error :: "string \<Rightarrow> thrown" where
  "substring_error stack = \<lparr>th_class = ''TypeError'',
     th_value = JObj [(''message'', JStr ''bodyToLog.substring is not a function''), (''stack'', JStr stack)]\<rparr>"

definition wrap_route :: "string \<Rightarrow> string \<Rightarrow> thrown + js \<Rightarrow> express_call list option" where
  "wrap_route stack req_id settled =
     (case settled of
        Inl err \<Rightarrow> on_error req_id err
      | Inr result \<Rightarrow> (case on_success req_id JUndef result of Some calls \<Rightarrow> Some calls | None \<Rightarrow> on_error req_id (substring_error stack)))"

text \<open>Which registration is made on the application: its method, the path and the handler.\<close>

definition register :: "string \<Rightarrow> string \<Rightarrow> 'h \<Rightarrow> (string \<times> string \<times> 'h) option" where
  "register verb path handler =
     (if verb = ''get'' then Some (''get'', path, handler)
      else if verb = ''post'' then Some (''post'', path, handler)
      else if verb = ''put'' then Some (''put'', path, handler)
      else if verb = ''delete'' then Some (''delete'', path, handler)
      else None)"

section \<open>Errors of the framework\<close>

record http_failure =
  hf_status :: int
  hf_body :: js

definition failure_message :: "http_failure \<Rightarrow> js" where
  "failure_message f = js_or (js_prop (hf_body f) ''message'') (JStr ''Internal Error'')"

definition require_match :: "string \<Rightarrow> (string \<Rightarrow> bool) \<Rightarrow> string \<Rightarrow> http_failure + unit" where
  "require_match field pattern name =
     (if \<not> pattern field then
        Inl \<lparr>hf_status = 400, hf_body = JObj [(''message'', JStr (''Missing or invalid parameters: '' @ name)),
              (''code'', JStr ''bad_request''), (''extra'', JObj [(''name'', JStr name)])]\<rparr>
      else Inr ())"

definition ServerError :: http_failure where
  "ServerError = \<lparr>hf_status = 500, hf_body = JObj [(''error'', JObj [(''message'', JStr ''A server error has occurred'')])]\<rparr>"

definition Unauthorized_failure :: http_failure where
  "Unauthorized_failure = \<lparr>hf_status = 401, hf_body = JObj [(''error'', JObj [(''message'', JStr ''Unauthorized'')])]\<rparr>"

datatype raised = RaisedHTTP http_failure | RaisedOther thrown

text \<open>The calls on the response, and the argument of \<open>next\<close>.\<close>

definition error_middleware :: "bool \<Rightarrow> raised \<Rightarrow> express_call list \<times> raised option" where
  "error_middleware headers_sent e =
     (if headers_sent then ([], Some e)
      else
        (let f = (case e of RaisedHTTP h \<Rightarrow> h | RaisedOther _ \<Rightarrow> ServerError) in
         ([SetStatus (JNum (Fin (of_int (hf_status f)))), Send (stringify (hf_body f))], None)))"

section \<open>Small parts\<close>

definition healthz_check :: api_answer where
  "healthz_check = \<lparr>aa_status = 200, aa_body = JObj []\<rparr>"

definition server_port :: "env \<Rightarrow> jsnum" where
  "server_port env =
     (let port = (case env ''PORT'' of None \<Rightarrow> ''8000'' | Some p \<Rightarrow> if p = [] then ''8000'' else p) in js_Number_string port)"

definition param_get :: "env \<Rightarrow> string \<Rightarrow> string" where
  "param_get env name = or_else (env name) []"

section \<open>Lemmas\<close>

definition is_send :: "express_call \<Rightarrow> bool" where
  "is_send c = (case c of Send _ \<Rightarrow> True | SendJson _ \<Rightarrow> True | _ \<Rightarrow> False)"

text \<open>One answer: a status first, the request id among the headers, and one body at the end.\<close>

definition one_answer :: "string \<Rightarrow> express_call list \<Rightarrow> bool" where
  "one_answer req_id calls \<longleftrightarrow>
     (\<exists>st pre s. calls = SetStatus st # pre @ [s] \<and> is_send s \<and> \<not> list_ex is_send pre
        \<and> SetHeader REQUEST_ID_HEADER (JStr req_id) \<in> set pre)"

lemma one_answer_intro:
  "is_send s \<Longrightarrow> \<not> list_ex is_send pre \<Longrightarrow> SetHeader REQUEST_ID_HEADER (JStr req_id) \<in> set pre \<Longrightarrow>
     one_answer req_id (SetStatus st # pre @ [s])"
  by (auto simp: one_answer_def)

lemma headers_no_send: "\<not> list_ex is_send (map (\<lambda>(k, v). SetHeader k v) hs)"
  by (auto simp: list_ex_iff is_send_def)

lemma on_success_answers:
  assumes "on_success req_id sc result = Some calls"
  shows "one_answer req_id calls"
proof (cases "js_truthy result")
  case True
  let ?pre = "[SetType (js_or (js_prop result ''contentType'') (JStr ''application/json'')), SetHeader REQUEST_ID_HEADER (JStr req_id)]
       @ (if js_truthy (js_prop result ''filename'') then [Attach (js_prop result ''filename'')] else [])
       @ (if js_truthy (js_prop result ''headers'')
          then map (\<lambda>(k, v). SetHeader k v) (own_properties (js_prop result ''headers'')) else [])"
  have "calls = SetStatus (js_or (js_or (js_prop result ''status'') sc) (JNum (Fin 200)))
      # ?pre @ [Send (js_or (js_prop result ''body'') (stringify result))]"
    using assms True by (simp add: on_success_def Let_def split: if_splits)
  moreover have "\<not> list_ex is_send ?pre" using headers_no_send by (simp add: is_send_def)
  ultimately show ?thesis using one_answer_intro [of _ ?pre] by (simp add: is_send_def)
next
  case False
  with assms show ?thesis
    using one_answer_intro [of "SendJson result" "[SetHeader REQUEST_ID_HEADER (JStr req_id)]"]
    by (auto simp: on_success_def is_send_def)
qed

lemma framework_error_answers: "one_answer req_id (handle_framework_error err req_id)"
  unfolding one_answer_def
  by (simp add: handle_framework_error_def Let_def is_send_def)

lemma unexpected_error_answers: "handle_unexpected_error err req_id = Some calls \<Longrightarrow> one_answer req_id calls"
  unfolding one_answer_def
  by (auto simp: handle_unexpected_error_def Let_def is_send_def split: if_splits)

lemma on_error_answers: "on_error req_id err = Some calls \<Longrightarrow> one_answer req_id calls"
  using framework_error_answers unexpected_error_answers by (auto simp: on_error_def split: if_splits)

text \<open>
  Every settled handler is answered exactly once, with its request id, unless what it was rejected with is
  null or undefined, or has no status and a message or stack that is neither text nor array; what the
  handler returned is never the reason for no answer.
\<close>

theorem wrapped_route_answers:
  "(\<forall>calls. wrap_route stack req_id settled = Some calls \<longrightarrow> one_answer req_id calls)
   \<and> (wrap_route stack req_id settled = None \<longrightarrow>
        (\<exists>err. settled = Inl err \<and> (js_nullish (th_value err) \<or> handle_unexpected_error err req_id = None)))"
proof (intro conjI allI impI)
  fix calls assume "wrap_route stack req_id settled = Some calls"
  then show "one_answer req_id calls"
    using on_success_answers on_error_answers by (auto simp: wrap_route_def split: sum.splits option.splits)
next
  assume none: "wrap_route stack req_id settled = None"
  have "on_error req_id (substring_error stack) \<noteq> None"
    by (auto simp: on_error_def substring_error_def handle_unexpected_error_def index_found_def js_nullish_def js_prop_def
        js_truthy_def Let_def split: bool.splits)
  with none show "\<exists>err. settled = Inl err \<and> (js_nullish (th_value err) \<or> handle_unexpected_error err req_id = None)"
    by (auto simp: wrap_route_def on_error_def split: sum.splits option.splits if_splits)
qed

text \<open>What is no \<open>HTTPError\<close> is answered without a trace of what it was.\<close>

theorem internal_errors_are_opaque:
  "error_middleware False (RaisedOther e) = error_middleware False (RaisedOther e')
   \<and> fst (error_middleware True r) = [] \<and> snd (error_middleware True r) = Some r"
  by (simp add: error_middleware_def)

end
