(* ===== verification/Bootstrap.thy ===== *)
theory Bootstrap
  imports CreateApp HttpServer
begin

text \<open>
  How the two services start: \<open>auth/src/server.ts\<close>, \<open>hooks/src/server/server.ts\<close>,
  \<open>hooks/src/commands/hooks.ts\<close> and \<open>hooks/src/logger.ts\<close>. What
  Express, the decorators, body-parser, cors and pino do with their configuration is theirs; the
  configuration itself and the order of its parts are the code's.
\<close>

section \<open>The token service\<close>

definition auth_port :: "env \<Rightarrow> string" where
  "auth_port env = or_else (env ''PORT'') ''8080''"

datatype startup_line = StartupInfo string | StartupKid string | StartupKidFailed | StartupError string

text \<open>The callback of \<open>listen\<close>; computing the key id may throw.\<close>

definition auth_listening :: "'a app_services_scheme \<Rightarrow> env \<Rightarrow> startup_line list" where
  "auth_listening sv env =
     (let jwt_private_key = map_option unescape_newlines (env ''JWT_PRIVATE_KEY'') in
      StartupInfo (''Auth service listening at http://localhost:'' @ auth_port env)
      # (if truthy jwt_private_key then
           (case ap_key_digest sv (the jwt_private_key) of
              Some digest \<Rightarrow> [StartupKid (compute_libtrust_key_id digest)]
            | None \<Rightarrow> [StartupKidFailed])
         else [StartupError ''[startup] JWT_PRIVATE_KEY is not set'']))"

definition auth_main :: "'a app_services_scheme \<Rightarrow> env \<Rightarrow> 'w cached_world_scheme
     \<Rightarrow> auth_app \<times> startup_line list \<times> 'w cached_world_scheme" where
  "auth_main sv env w =
     (let w1 = bind_metrics_pool sv w; (app, w2) = create_app sv (config_from_env env) w1
      in (app, auth_listening sv env, w2))"

section \<open>The webhook service\<close>

record server_settings =
  sg_root_dir :: string
  sg_mount :: "(string \<times> string) list"
  sg_accept_mimes :: "string list"
  sg_port :: jsnum
  sg_https_port :: nat
  sg_debug :: bool
  sg_log_level :: string

definition hooks_server_settings :: "string \<Rightarrow> env \<Rightarrow> server_settings" where
  "hooks_server_settings dirname env =
     \<lparr>sg_root_dir = dirname, sg_mount = [(''/'', ''${rootDir}/../controllers/**/*.js'')], sg_accept_mimes = [''application/json''],
      sg_port = server_port env, sg_https_port = 0, sg_debug = False, sg_log_level = ''warn''\<rparr>"

datatype hooks_mounting =
    EnableTrustProxy
  | UseJsonBody "string list"
  | UseCors
  | UseMetrics
  | LogLevelOff

definition on_mounting_middlewares :: "'a services_scheme \<Rightarrow> env \<Rightarrow> hooks_mounting list" where
  "on_mounting_middlewares sv env =
     [EnableTrustProxy, UseJsonBody [''application/json'', ''application/vnd.docker.distribution.events.v1+json''], UseCors]
     @ (if sv_metrics_enabled sv then [UseMetrics] else [])
     @ (if env ''NODE_ENV'' = Some ''production'' then [LogLevelOff] else [])"

record logger_options =
  lo_name :: string
  lo_safe :: bool
  lo_pretty :: "string option"
  lo_level :: string

text \<open>Both branches of the code are the same.\<close>

definition init_logger :: "env \<Rightarrow> logger_options" where
  "init_logger env =
     (let log_options = \<lparr>lo_name = or_else (env ''LOG_NAME'') ''aocr'', lo_safe = True,
        lo_pretty = (if truthy (env ''LOG_PRETTY'') then env ''LOG_PRETTY'' else None), lo_level = ''info''\<rparr> in
      if truthy (env ''LOG_PRETTY'') then log_options\<lparr>lo_level := or_else (env ''LOG_LEVEL'') ''warn''\<rparr>
      else log_options\<lparr>lo_level := or_else (env ''LOG_LEVEL'') ''warn''\<rparr>)"

text \<open>\<open>commands/hooks.ts\<close>: the server starts, or the process ends with code 1; SIGTERM ends it with code 0.\<close>

datatype hooks_process = HooksListening | HooksExited nat

definition hooks_command :: "bool \<Rightarrow> hooks_process" where
  "hooks_command started = (if started then HooksListening else HooksExited 1)"

definition on_sigterm :: "hooks_process \<Rightarrow> hooks_process" where
  "on_sigterm p = (case p of HooksListening \<Rightarrow> HooksExited 0 | HooksExited code \<Rightarrow> HooksExited code)"

section \<open>Properties\<close>

text \<open>
  The key id the token service logs when it starts is the one it signs with: whenever its token endpoint
  answers 200, the answer's token is what the signer made with the configured key and the key id of the
  startup line.
\<close>

theorem startup_kid_signs_tokens:
  assumes start: "auth_main sv env v = (app, lines, v')" and h: "handle_token sv app q w = (rsp, w')" and ok: "rp_status rsp = 200"
  shows "\<exists>key kid payload jwt rest. aa_jwt_private_key app = Some key \<and> StartupKid kid \<in> set lines
    \<and> ap_sign sv key kid payload = Some jwt \<and> rp_body rsp = JObj ((''token'', JStr jwt) # rest)"
proof -
  have key: "aa_jwt_private_key app = map_option unescape_newlines (env ''JWT_PRIVATE_KEY'')" and lines: "lines = auth_listening sv env"
    using start by (auto simp: auth_main_def create_app_def config_from_env_def case_prod_beta' Let_def)
  obtain r access w3 where issue: "issue_token sv app q r access w3 = (rsp, w')"
    using h
  proof (cases rule: handle_token_cases)
    case (granted cred r w1 w2)
    show ?thesis by (rule grant_and_issue_ok [OF granted(6) ok], rule that)
  qed (use ok in simp_all)
  obtain k d jwt iat expiry rest where k: "aa_jwt_private_key app = Some k" "ap_key_digest sv k = Some d"
      "ap_sign sv k (compute_libtrust_key_id d) (token_payload app r (tq_service q) access iat expiry) = Some jwt"
      "rp_body rsp = JObj ((''token'', JStr jwt) # rest)"
    by (rule issue_token_ok [OF issue ok])
  have "truthy (aa_jwt_private_key app)"
    using issue ok by (auto simp: issue_token_def token_failed_def error_response_def case_prod_beta' Let_def split: if_splits)
  then have "StartupKid (compute_libtrust_key_id d) \<in> set lines"
    unfolding lines auth_listening_def Let_def key [symmetric] k(1) by (simp add: k(2))
  with k show ?thesis by blast
qed

section \<open>Instances\<close>

definition demo_start_env :: env where
  "demo_start_env name = (if name = ''AUTH_PAT_TOKEN'' then Some ''pat-1, pat-2'' else if name = ''JWT_PRIVATE_KEY'' then Some ''key'' else None)"

theorem startup_kid_signs_tokens_witness:
  "\<exists>kid payload. StartupKid kid \<in> set (fst (snd (auth_main demo_app_services demo_start_env demo_auth_world)))
     \<and> ap_sign demo_app_services ''key'' kid payload \<noteq> None"
proof -
  obtain app lines v' where start: "auth_main demo_app_services demo_start_env demo_auth_world = (app, lines, v')"
    by (rule prod_cases3)
  have config: "config_from_env demo_start_env = \<lparr>ac_validation_service_url = None, ac_auth_pat_token = Some ''pat-1, pat-2'',
      ac_auth_pat_tokens = None, ac_auth_cluster_pat_tokens = None, ac_jwt_private_key = Some ''key'', ac_issuer = None,
      ac_default_registry_service = None, ac_upstream_auth_wrap_keys = None\<rparr>"
    by (simp add: config_from_env_def demo_start_env_def)
  have "unescape_newlines ''key'' = ''key''" by code_simp
  then have app: "vc_static (aa_context app) = vc_static demo_ctx" "aa_jwt_private_key app = Some ''key''"
    using start by (auto simp: auth_main_def create_app_def config build_validation_context_def demo_ctx_def case_prod_beta' Let_def)
  obtain rsp w' where h: "handle_token demo_app_services app demo_query demo_auth_world = (rsp, w')" "rp_status rsp = 200"
    using demo_handled [OF app] by blast
  from startup_kid_signs_tokens [OF start h] start app(2) show ?thesis by auto
qed

end
