(* ===== verification/Sidebar.thy ===== *)
theory Sidebar
  imports Js_Value
begin

text \<open>
  \<open>web/src/components/ui/sidebar.tsx\<close>: the state of the sidebar and what is rendered from it. React runs
  the updates a component requests at its next render; until then every callback sees the values of
  the last one (\<open>sb_open\<close>, \<open>sb_open_mobile\<close>), and a requested update waits (\<open>sb_pending\<close>, \<open>sb_pending_mobile\<close>). The
  class names that only carry style are left out.
\<close>

section \<open>Constants and context\<close>

definition SIDEBAR_COOKIE_NAME :: string where "SIDEBAR_COOKIE_NAME = ''sidebar_state''"
definition SIDEBAR_COOKIE_MAX_AGE :: nat where "SIDEBAR_COOKIE_MAX_AGE = 60 * 60 * 24 * 7"
definition SIDEBAR_WIDTH :: string where "SIDEBAR_WIDTH = ''16rem''"
definition SIDEBAR_WIDTH_MOBILE :: string where "SIDEBAR_WIDTH_MOBILE = ''18rem''"
definition SIDEBAR_WIDTH_ICON :: string where "SIDEBAR_WIDTH_ICON = ''3rem''"
definition SIDEBAR_KEYBOARD_SHORTCUT :: string where "SIDEBAR_KEYBOARD_SHORTCUT = ''b''"

text \<open>The data of the context; its functions are the operations below.\<close>

record sidebar_context =
  sc_expanded :: string
  sc_open :: bool
  sc_open_mobile :: bool
  sc_is_mobile :: bool

definition use_sidebar :: "sidebar_context option \<Rightarrow> string + sidebar_context" where
  "use_sidebar context = (case context of
     None \<Rightarrow> Inl ''useSidebar must be used within a SidebarProvider.'' | Some c \<Rightarrow> Inr c)"

section \<open>The provider\<close>

text \<open>\<open>sp_reports\<close>: the caller passed \<open>onOpenChange\<close>.\<close>

record sidebar_props =
  sp_default_open :: bool
  sp_open :: "bool option"
  sp_reports :: bool

text \<open>What a state setter is called with.\<close>

datatype open_update = OpenTo bool | OpenFlipped

record sidebar_state =
  sb_open :: bool
  sb_open_mobile :: bool
  sb_pending :: "bool list"
  sb_pending_mobile :: "open_update list"
  sb_reported :: "bool list"
  sb_cookie :: "string option"

definition sidebar_init :: "sidebar_props \<Rightarrow> sidebar_state" where
  "sidebar_init props = \<lparr>sb_open = sp_default_open props, sb_open_mobile = False, sb_pending = [], sb_pending_mobile = [],
     sb_reported = [], sb_cookie = None\<rparr>"

definition apply_update :: "open_update \<Rightarrow> bool \<Rightarrow> bool" where
  "apply_update u b = (case u of OpenTo v \<Rightarrow> v | OpenFlipped \<Rightarrow> \<not> b)"

definition shown_open :: "sidebar_props \<Rightarrow> sidebar_state \<Rightarrow> bool" where
  "shown_open props s = (case sp_open props of None \<Rightarrow> sb_open s | Some v \<Rightarrow> v)"

definition bool_text :: "bool \<Rightarrow> string" where
  "bool_text b = (if b then ''true'' else ''false'')"

definition sidebar_cookie :: "bool \<Rightarrow> string" where
  "sidebar_cookie open_state =
     SIDEBAR_COOKIE_NAME @ ''='' @ bool_text open_state @ ''; path=/; max-age='' @ nat_to_string SIDEBAR_COOKIE_MAX_AGE"

text \<open>A function is applied to the value of the last render.\<close>

definition set_open :: "sidebar_props \<Rightarrow> open_update \<Rightarrow> sidebar_state \<Rightarrow> sidebar_state" where
  "set_open props value s =
     (let open_state = apply_update value (shown_open props s);
          s1 = (if sp_reports props then s\<lparr>sb_reported := sb_reported s @ [open_state]\<rparr>
                else s\<lparr>sb_pending := sb_pending s @ [open_state]\<rparr>)
      in s1\<lparr>sb_cookie := Some (sidebar_cookie open_state)\<rparr>)"

definition set_open_mobile :: "open_update \<Rightarrow> sidebar_state \<Rightarrow> sidebar_state" where
  "set_open_mobile value s = s\<lparr>sb_pending_mobile := sb_pending_mobile s @ [value]\<rparr>"

definition toggle_sidebar :: "sidebar_props \<Rightarrow> bool \<Rightarrow> sidebar_state \<Rightarrow> sidebar_state" where
  "toggle_sidebar props is_mobile s =
     (if is_mobile then set_open_mobile OpenFlipped s else set_open props OpenFlipped s)"

text \<open>Whether the default was prevented, and the new state.\<close>

definition handle_key_down :: "sidebar_props \<Rightarrow> bool \<Rightarrow> string \<Rightarrow> bool \<Rightarrow> bool \<Rightarrow> sidebar_state \<Rightarrow> bool \<times> sidebar_state" where
  "handle_key_down props is_mobile key meta_key ctrl_key s =
     (if key = SIDEBAR_KEYBOARD_SHORTCUT \<and> (meta_key \<or> ctrl_key) then (True, toggle_sidebar props is_mobile s) else (False, s))"

definition sidebar_context_of :: "sidebar_props \<Rightarrow> bool \<Rightarrow> sidebar_state \<Rightarrow> sidebar_context" where
  "sidebar_context_of props is_mobile s =
     \<lparr>sc_expanded = (if shown_open props s then ''expanded'' else ''collapsed''), sc_open = shown_open props s,
      sc_open_mobile = sb_open_mobile s, sc_is_mobile = is_mobile\<rparr>"

text \<open>The provider's own style, then the caller's.\<close>

definition sidebar_wrapper_style :: "(string \<times> string) list \<Rightarrow> (string \<times> string) list" where
  "sidebar_wrapper_style style = [(''--sidebar-width'', SIDEBAR_WIDTH), (''--sidebar-width-icon'', SIDEBAR_WIDTH_ICON)] @ style"

text \<open>A render runs what was requested, in order.\<close>

definition sidebar_render :: "sidebar_state \<Rightarrow> sidebar_state" where
  "sidebar_render s =
     s\<lparr>sb_open := (if sb_pending s = [] then sb_open s else last (sb_pending s)),
       sb_open_mobile := fold apply_update (sb_pending_mobile s) (sb_open_mobile s),
       sb_pending := [], sb_pending_mobile := []\<rparr>"

section \<open>What is rendered\<close>

datatype sidebar_collapsible = Offcanvas | IconOnly | NotCollapsible

definition collapsible_text :: "sidebar_collapsible \<Rightarrow> string" where
  "collapsible_text c = (case c of Offcanvas \<Rightarrow> ''offcanvas'' | IconOnly \<Rightarrow> ''icon'' | NotCollapsible \<Rightarrow> ''none'')"

datatype sidebar_view =
    PlainPanel
  | MobileSheet bool string string
  | DesktopPanel "(string \<times> string) list"

definition sidebar_component :: "sidebar_context \<Rightarrow> string \<Rightarrow> string \<Rightarrow> sidebar_collapsible \<Rightarrow> sidebar_view" where
  "sidebar_component context side variant collapsible =
     (if collapsible = NotCollapsible then PlainPanel
      else if sc_is_mobile context then MobileSheet (sc_open_mobile context) SIDEBAR_WIDTH_MOBILE side
      else DesktopPanel [(''data-state'', sc_expanded context),
        (''data-collapsible'', if sc_expanded context = ''collapsed'' then collapsible_text collapsible else []),
        (''data-variant'', variant), (''data-side'', side), (''data-slot'', ''sidebar'')])"

text \<open>The trigger runs the caller's handler first; the rail only toggles.\<close>

definition sidebar_trigger_click :: "sidebar_props \<Rightarrow> bool \<Rightarrow> (sidebar_state \<Rightarrow> sidebar_state) \<Rightarrow> sidebar_state \<Rightarrow> sidebar_state" where
  "sidebar_trigger_click props is_mobile on_click s = toggle_sidebar props is_mobile (on_click s)"

text \<open>A menu button's tooltip: absent, or present and hidden unless the panel is collapsed on a desktop.\<close>

definition menu_button_tooltip :: "sidebar_context \<Rightarrow> string \<Rightarrow> (string \<times> bool) option" where
  "menu_button_tooltip context tooltip =
     (if tooltip = [] then None else Some (tooltip, sc_expanded context \<noteq> ''collapsed'' \<or> sc_is_mobile context))"

text \<open>\<open>Math.random()\<close> is an argument, at least 0 and below 1.\<close>

definition menu_skeleton_width :: "rat \<Rightarrow> string" where
  "menu_skeleton_width random = int_to_string (\<lfloor>random * 40\<rfloor> + 50) @ ''%''"

section \<open>Runs\<close>

datatype sidebar_event =
    TriggerClicked
  | RailClicked
  | KeyPressed string bool bool
  | OpenSet bool
  | SheetChanged bool
  | Rendered

definition sidebar_event_step :: "sidebar_props \<Rightarrow> bool \<Rightarrow> sidebar_event \<Rightarrow> sidebar_state \<Rightarrow> sidebar_state" where
  "sidebar_event_step props is_mobile ev s = (case ev of
     TriggerClicked \<Rightarrow> sidebar_trigger_click props is_mobile id s
   | RailClicked \<Rightarrow> toggle_sidebar props is_mobile s
   | KeyPressed key m c \<Rightarrow> snd (handle_key_down props is_mobile key m c s)
   | OpenSet v \<Rightarrow> set_open props (OpenTo v) s
   | SheetChanged v \<Rightarrow> set_open_mobile (OpenTo v) s
   | Rendered \<Rightarrow> sidebar_render s)"

text \<open>The device may change between any two events.\<close>

definition sidebar_run :: "sidebar_props \<Rightarrow> (bool \<times> sidebar_event) list \<Rightarrow> sidebar_state" where
  "sidebar_run props events = fold (\<lambda>(is_mobile, ev). sidebar_event_step props is_mobile ev) events (sidebar_init props)"

section \<open>Lemmas\<close>

text \<open>A sidebar that nobody outside controls: the cookie holds the last value requested.\<close>

definition cookie_in_step :: "sidebar_state \<Rightarrow> bool" where
  "cookie_in_step s \<longleftrightarrow>
     (if sb_pending s = [] then sb_cookie s = None \<or> sb_cookie s = Some (sidebar_cookie (sb_open s))
      else sb_cookie s = Some (sidebar_cookie (last (sb_pending s))))"

lemma cookie_in_step_event:
  "\<not> sp_reports props \<Longrightarrow> cookie_in_step s \<Longrightarrow> cookie_in_step (sidebar_event_step props is_mobile ev s)"
  by (cases ev) (auto simp: cookie_in_step_def sidebar_event_step_def sidebar_trigger_click_def toggle_sidebar_def
      handle_key_down_def set_open_def set_open_mobile_def sidebar_render_def Let_def)

lemma sidebar_run_in_step: "\<not> sp_reports props \<Longrightarrow> cookie_in_step (sidebar_run props events)"
proof -
  assume a: "\<not> sp_reports props"
  have "cookie_in_step s \<Longrightarrow> cookie_in_step (fold (\<lambda>(is_mobile, ev). sidebar_event_step props is_mobile ev) events s)" for s
    by (induction events arbitrary: s) (auto intro: cookie_in_step_event [OF a])
  moreover have "cookie_in_step (sidebar_init props)" by (simp add: cookie_in_step_def sidebar_init_def)
  ultimately show ?thesis by (simp add: sidebar_run_def)
qed

lemma sidebar_render_simps:
  "sb_open (sidebar_render t) = (if sb_pending t = [] then sb_open t else last (sb_pending t))"
  "sb_open_mobile (sidebar_render t) = fold apply_update (sb_pending_mobile t) (sb_open_mobile t)"
  by (simp_all add: sidebar_render_def)

lemma sidebar_render_done [simp]: "sb_pending (sidebar_render t) = []" "sb_pending_mobile (sidebar_render t) = []"
  by (simp_all add: sidebar_render_def)

lemma toggles_desktop:
  "sb_pending ((toggle_sidebar \<lparr>sp_default_open = d, sp_open = None, sp_reports = False\<rparr> False ^^ n) s)
     = sb_pending s @ replicate n (\<not> sb_open s)
   \<and> sb_open ((toggle_sidebar \<lparr>sp_default_open = d, sp_open = None, sp_reports = False\<rparr> False ^^ n) s) = sb_open s
   \<and> sb_pending_mobile ((toggle_sidebar \<lparr>sp_default_open = d, sp_open = None, sp_reports = False\<rparr> False ^^ n) s) = sb_pending_mobile s
   \<and> sb_open_mobile ((toggle_sidebar \<lparr>sp_default_open = d, sp_open = None, sp_reports = False\<rparr> False ^^ n) s) = sb_open_mobile s"
  by (induction n) (auto simp: toggle_sidebar_def set_open_def Let_def shown_open_def apply_update_def replicate_append_same)

lemma toggles_mobile:
  "(toggle_sidebar props True ^^ n) s = s\<lparr>sb_pending_mobile := sb_pending_mobile s @ replicate n OpenFlipped\<rparr>"
  by (induction n) (simp_all add: toggle_sidebar_def set_open_mobile_def replicate_append_same)

lemma flips: "(apply_update OpenFlipped ^^ n) b = (if even n then b else \<not> b)"
  by (induction n) (simp_all add: apply_update_def)

section \<open>Properties\<close>

text \<open>
  A desktop sidebar that is toggled several times before it is rendered again is toggled once, since every
  toggle starts from the value of the last render; the sheet of a mobile one is toggled each time, since
  its updates are functions of the value they meet.
\<close>

theorem toggles_between_renders:
  "sb_open (sidebar_render ((toggle_sidebar \<lparr>sp_default_open = d, sp_open = None, sp_reports = False\<rparr> False ^^ n)
       (sidebar_render s))) = (if n = 0 then sb_open (sidebar_render s) else \<not> sb_open (sidebar_render s))
   \<and> sb_open_mobile (sidebar_render ((toggle_sidebar props True ^^ n) (sidebar_render s)))
       = (if even n then sb_open_mobile (sidebar_render s) else \<not> sb_open_mobile (sidebar_render s))"
proof
  let ?s = "sidebar_render s"
  let ?t = "(toggle_sidebar \<lparr>sp_default_open = d, sp_open = None, sp_reports = False\<rparr> False ^^ n) ?s"
  have t: "sb_pending ?t = replicate n (\<not> sb_open ?s)" "sb_open ?t = sb_open ?s"
    using toggles_desktop [of n d ?s] by simp_all
  show "sb_open (sidebar_render ?t) = (if n = 0 then sb_open ?s else \<not> sb_open ?s)"
    unfolding sidebar_render_simps(1) [of ?t] t by simp
  show "sb_open_mobile (sidebar_render ((toggle_sidebar props True ^^ n) ?s)) = (if even n then sb_open_mobile ?s else \<not> sb_open_mobile ?s)"
    unfolding toggles_mobile by (subst sidebar_render_simps(2)) (simp add: flips)
qed

text \<open>
  The cookie remembers the sidebar: in every run of a sidebar nobody outside controls, however clicks,
  keys, changes of the device and renders fall, after a render the cookie is absent or holds the state shown.
\<close>

theorem sidebar_cookie_in_step:
  "sb_cookie (sidebar_render (sidebar_run \<lparr>sp_default_open = d, sp_open = None, sp_reports = False\<rparr> events)) = None
   \<or> sb_cookie (sidebar_render (sidebar_run \<lparr>sp_default_open = d, sp_open = None, sp_reports = False\<rparr> events))
       = Some (sidebar_cookie (shown_open \<lparr>sp_default_open = d, sp_open = None, sp_reports = False\<rparr>
           (sidebar_render (sidebar_run \<lparr>sp_default_open = d, sp_open = None, sp_reports = False\<rparr> events))))"
  using sidebar_run_in_step [of "\<lparr>sp_default_open = d, sp_open = None, sp_reports = False\<rparr>" events]
  by (auto simp: cookie_in_step_def sidebar_render_def shown_open_def split: if_splits)

end
