(* ===== verification/WebPage.thy ===== *)
theory WebPage
  imports CreateApp HookEvents
begin

text \<open>
  The web page's own logic: the commands and the contract it shows (\<open>web/src/components/hero.tsx\<close>, \<open>how-to.tsx\<close>,
  \<open>token-access.tsx\<close>), the copy buttons, the panels of \<open>use-cases.tsx\<close> and the menu of \<open>header.tsx\<close>. What the page
  tells its readers is checked against the services: the tags against the tag parser, the contract
  against the validation strategy. Layout is not modelled.
\<close>

section \<open>Shown commands\<close>

definition hero_commands :: "string list" where
  "hero_commands =
     [''echo \"$AOCR_TOKEN\" | docker login registry.example.com -u \"$AOCR_LOGIN\" --password-stdin'',
      ''docker build -t registry.example.com/team/my-image:main--ttl-7d .'',
      ''docker push registry.example.com/team/my-image:main--ttl-7d'']"

record how_to_example =
  he_title :: string
  he_description :: string
  he_commands :: "string list"

definition how_to_examples :: "how_to_example list" where
  "how_to_examples =
     [\<lparr>he_title = ''Docker image'',
       he_description = ''Authenticate with a matching identity and push a plain tag that follows keep-latest cleanup'',
       he_commands =
         [''export AOCR_REGISTRY=registry.example.com'',
          ''echo \"$AOCR_TOKEN\" | docker login \"$AOCR_REGISTRY\" -u \"$AOCR_LOGIN\" --password-stdin'',
          ''docker build -t \"${AOCR_REGISTRY}/team/my-app:main\" .'',
          ''docker push \"${AOCR_REGISTRY}/team/my-app:main\"'',
          ''docker pull \"${AOCR_REGISTRY}/team/my-app:main\"'']\<rparr>,
      \<lparr>he_title = ''Helm chart'',
       he_description = ''Authenticate once, then distribute Helm charts through the same OCI registry'',
       he_commands =
         [''export AOCR_REGISTRY=registry.example.com'',
          ''echo \"$AOCR_TOKEN\" | helm registry login \"$AOCR_REGISTRY\" -u \"$AOCR_LOGIN\" --password-stdin'',
          ''helm package ./my-chart'',
          ''helm push my-chart-0.1.0.tgz oci://${AOCR_REGISTRY}/charts'',
          ''helm install my-release oci://${AOCR_REGISTRY}/charts/my-chart --version 0.1.0'']\<rparr>,
      \<lparr>he_title = ''TTL release'',
       he_description = ''Push release-candidate images that expire automatically after a fixed time window'',
       he_commands =
         [''export AOCR_REGISTRY=registry.example.com'',
          ''docker build -t \"${AOCR_REGISTRY}/team/my-app:${GIT_SHA}--ttl-7d\" .'',
          ''docker push \"${AOCR_REGISTRY}/team/my-app:${GIT_SHA}--ttl-7d\"'',
          ''curl -sS -H \"Authorization: Bearer $AOCR_TOKEN\" https://auth.example.com/v1/images | jq .'']\<rparr>,
      \<lparr>he_title = ''Idle preview'',
       he_description = ''Keep preview images only while they are still being pulled'',
       he_commands =
         [''export AOCR_REGISTRY=registry.example.com'',
          ''docker build -t \"${AOCR_REGISTRY}/team/my-app:preview-123--idle-30d\" .'',
          ''docker push \"${AOCR_REGISTRY}/team/my-app:preview-123--idle-30d\"'',
          ''docker pull \"${AOCR_REGISTRY}/team/my-app:preview-123--idle-30d\"'']\<rparr>]"

section \<open>The contract\<close>

record contract_card =
  ct_title :: string
  ct_body :: "string list"

definition contract_cards :: "contract_card list" where
  "contract_cards =
     [\<lparr>ct_title = ''Validation request'',
       ct_body = [''GET https://auth.example.com/api/auth/info'', ''Authorization: Bearer <presented token>'']\<rparr>,
      \<lparr>ct_title = ''Expected response shape'',
       ct_body =
         [''{'',
          ''  \"user\": {'',
          ''    \"id\": \"user_123\",'',
          ''    \"username\": \"suman\",'',
          ''    \"email\": \"suman@example.com\"'',
          ''  },'',
          ''  \"authProvider\": \"custom-sso\"'',
          ''}'']\<rparr>]"

definition contract_card_text :: "contract_card \<Rightarrow> string" where
  "contract_card_text c = join_with [CHR 0x0A] (ct_body c)"

section \<open>Copy buttons\<close>

text \<open>
  Which button shows its check mark, how many timers are running to take it away, and the clipboard;
  \<open>granted\<close> is whether the browser lets the page write it. Index -1 is the button for all commands.
\<close>

record copy_state =
  cy_copied :: "int option"
  cy_timers :: nat
  cy_clipboard :: "string option"

definition copy_init :: copy_state where
  "copy_init = \<lparr>cy_copied = None, cy_timers = 0, cy_clipboard = None\<rparr>"

definition copy_to_clipboard :: "bool \<Rightarrow> string \<Rightarrow> int \<Rightarrow> copy_state \<Rightarrow> copy_state" where
  "copy_to_clipboard granted content index s =
     (if \<not> granted then s else s\<lparr>cy_clipboard := Some content, cy_copied := Some index, cy_timers := Suc (cy_timers s)\<rparr>)"

definition copy_timer_fires :: "copy_state \<Rightarrow> copy_state" where
  "copy_timer_fires s = s\<lparr>cy_copied := None, cy_timers := cy_timers s - 1\<rparr>"

definition copy_all :: "bool \<Rightarrow> nat \<Rightarrow> copy_state \<Rightarrow> copy_state" where
  "copy_all granted active_tab =
     copy_to_clipboard granted (join_with [CHR 0x0A] (he_commands (how_to_examples ! active_tab))) (-1)"

definition shows_check :: "copy_state \<Rightarrow> int \<Rightarrow> bool" where
  "shows_check s i \<longleftrightarrow> cy_copied s = Some i"

text \<open>The tab only selects what is shown: the mark of a button stays at its index.\<close>

inductive copy_step :: "copy_state \<Rightarrow> copy_state \<Rightarrow> bool" where
  copied: "copy_step s (copy_to_clipboard granted content index s)"
| copied_all: "tab < length how_to_examples \<Longrightarrow> copy_step s (copy_all granted tab s)"
| fired: "0 < cy_timers s \<Longrightarrow> copy_step s (copy_timer_fires s)"

inductive_cases copy_stepE: "copy_step s t"

section \<open>Panels and menu\<close>

definition toggle_panel :: "int \<Rightarrow> int option \<Rightarrow> int option" where
  "toggle_panel i current = (if current = Some i then None else Some i)"

record header_state =
  hd_scrolled :: bool
  hd_menu_open :: bool

definition handle_scroll :: "rat \<Rightarrow> header_state \<Rightarrow> header_state" where
  "handle_scroll scroll_y h = h\<lparr>hd_scrolled := (scroll_y > 10)\<rparr>"

definition menu_button_click :: "header_state \<Rightarrow> header_state" where
  "menu_button_click h = h\<lparr>hd_menu_open := \<not> hd_menu_open h\<rparr>"

definition menu_link_click :: "header_state \<Rightarrow> header_state" where
  "menu_link_click h = h\<lparr>hd_menu_open := False\<rparr>"

section \<open>Properties\<close>

text \<open>The tag of an image reference at the end of a command, without its quote.\<close>

definition command_tag :: "string \<Rightarrow> string" where
  "command_tag cmd = rev (takeWhile (\<lambda>c. c \<noteq> CHR '':'') (rev (filter (\<lambda>c. c \<noteq> CHR 0x22) cmd)))"

definition pushed_retentions :: "string list \<Rightarrow> (retention_mode \<times> int looked_up option) list" where
  "pushed_retentions cmds = map (\<lambda>c. let r = parse_tag_retention (command_tag c) 0 in (tr_mode r, tr_seconds r))
     (filter (starts_with ''docker push'') cmds)"

text \<open>
  The tags the page tells its readers to push mean what it says: the hero's expires after seven days,
  and of the examples the plain one keeps the latest, the TTL one expires after seven days and the
  idle one after thirty days without a pull.
\<close>

theorem shown_tags_mean_what_is_said:
  "pushed_retentions hero_commands = [(Ttl, Some (OwnValue (7 * 86400)))]
   \<and> map (\<lambda>e. pushed_retentions (he_commands e)) how_to_examples
     = [[(KeepLatest, None)], [], [(Ttl, Some (OwnValue (7 * 86400)))], [(Idle, Some (OwnValue (30 * 86400)))]]"
  by code_simp

text \<open>
  The contract on the page is the one the token service implements: with the validation service at
  \<open>https://auth.example.com\<close> it sends the request of the first card, and the response on the second is accepted,
  as the profile it spells out.
\<close>

theorem shown_contract_is_implemented:
  "(case get_validation_info_url (Some ''https://auth.example.com'') of Inl _ \<Rightarrow> False
    | Inr url \<Rightarrow> (let rq = api_request url ''<presented token>'' in
        map (\<lambda>(k, v). k @ '': '' @ v) (rq_headers rq) = tl (ct_body (contract_cards ! 0))
        \<and> rq_method rq @ '' '' @ rq_url rq = hd (ct_body (contract_cards ! 0))))
   \<and> (case json_parse (contract_card_text (contract_cards ! 1)) of None \<Rightarrow> False
      | Some response \<Rightarrow>
         (case normalize_validation_profile response of Inl _ \<Rightarrow> False
          | Inr p \<Rightarrow> vp_external_id p = ''user_123'' \<and> vp_username p = Some ''suman'' \<and> vp_email p = Some ''suman@example.com''
              \<and> vp_auth_provider p = Some ''custom-sso''
              \<and> presented_identity_matches_user (Some ''suman'') JUndef p \<and> presented_identity_matches_user None (JStr ''suman@example.com'') p))"
  by code_simp

text \<open>
  A copied mark always goes away: in every run of the page's copy buttons, as long as a button shows its
  mark a timer is running that takes it away, and when the last timer has fired none does.
\<close>

theorem copy_marks_disappear:
  "copy_step\<^sup>*\<^sup>* copy_init s \<Longrightarrow> (cy_copied s \<noteq> None \<longrightarrow> 0 < cy_timers s) \<and> cy_copied (copy_timer_fires s) = None"
proof -
  assume "copy_step\<^sup>*\<^sup>* copy_init s"
  then have "cy_copied s \<noteq> None \<longrightarrow> 0 < cy_timers s"
    by (induction rule: rtranclp_induct)
      (auto simp: copy_init_def copy_to_clipboard_def copy_all_def copy_timer_fires_def elim!: copy_stepE)
  then show ?thesis by (simp add: copy_timer_fires_def)
qed

text \<open>
  The timers are never cancelled: a second copy within two seconds of the first loses its mark when the
  timer of the first fires.
\<close>

lemma copy_mark_lost_early:
  "let s = copy_timer_fires (copy_to_clipboard True b 1 (copy_to_clipboard True a 0 copy_init)) in
     \<not> shows_check s 1 \<and> cy_timers s = 1 \<and> cy_clipboard s = Some b"
  by (simp add: copy_timer_fires_def copy_to_clipboard_def copy_init_def shows_check_def)

theorem copy_marks_disappear_witness:
  "cy_copied (copy_to_clipboard True ''a'' 0 copy_init) \<noteq> None \<and> 0 < cy_timers (copy_to_clipboard True ''a'' 0 copy_init)"
proof -
  have "copy_step copy_init (copy_to_clipboard True ''a'' 0 copy_init)" by (rule copy_step.copied)
  from copy_marks_disappear [OF r_into_rtranclp [of copy_step, OF this]] show ?thesis by (simp add: copy_to_clipboard_def)
qed

end
