(* ===== verification/WebComponents.thy ===== *)
theory WebComponents
  imports HttpServer
begin

text \<open>
  The logic of the page's component library (\<open>web/src/components/ui\<close>): the colours, look-ups, labels, tooltips and legends of
  \<open>chart.tsx\<close>, the ids and messages of \<open>form.tsx\<close> and \<open>field.tsx\<close>, the state of \<open>carousel.tsx\<close> and the thumbs
  of \<open>slider.tsx\<close>. React nodes that are passed through are JavaScript values; markup and style classes are left out.
\<close>

section \<open>Charts\<close>

definition THEMES :: "(string \<times> string) list" where
  "THEMES = [(''light'', []), (''dark'', ''.dark'')]"

text \<open>One entry of a \<open>ChartConfig\<close>; an absent label is undefined.\<close>

record chart_item =
  ci_label :: js
  ci_has_icon :: bool
  ci_color :: "string option"
  ci_theme :: "(string \<times> string) list option"

type_synonym chart_config = "(string \<times> chart_item) list"

definition use_chart :: "chart_config option \<Rightarrow> string + chart_config" where
  "use_chart context = (case context of None \<Rightarrow> Inl ''useChart must be used within a <ChartContainer />'' | Some c \<Rightarrow> Inr c)"

definition chart_id :: "string option \<Rightarrow> string \<Rightarrow> string" where
  "chart_id ident unique_id = ''chart-'' @ (if truthy ident then the ident else filter (\<lambda>c. c \<noteq> CHR '':'') unique_id)"

definition has_color :: "chart_item \<Rightarrow> bool" where
  "has_color item \<longleftrightarrow> ci_theme item \<noteq> None \<or> truthy (ci_color item)"

text \<open>The colour of an entry under a theme, if there is one that is not empty.\<close>

definition theme_color :: "string \<Rightarrow> chart_item \<Rightarrow> string option" where
  "theme_color theme item =
     (let own = (case ci_theme item of None \<Rightarrow> None | Some t \<Rightarrow> map_of t theme);
          color = (if truthy own then own else ci_color item)
      in if truthy color then color else None)"

definition color_line :: "string \<Rightarrow> string \<times> chart_item \<Rightarrow> string" where
  "color_line theme entry =
     (case theme_color theme (snd entry) of None \<Rightarrow> [] | Some color \<Rightarrow> ''  --color-'' @ fst entry @ '': '' @ color @ '';'')"

definition NL :: string where "NL = [CHR 0x0A]"

definition theme_block :: "string \<Rightarrow> chart_config \<Rightarrow> string \<times> string \<Rightarrow> string" where
  "theme_block ident color_config t =
     NL @ snd t @ '' [data-chart='' @ ident @ ''] {'' @ NL @ join_with NL (map (color_line (fst t)) color_config) @ NL @ ''}'' @ NL"

text \<open>The text of the style element, or no element.\<close>

definition chart_style :: "string \<Rightarrow> chart_config \<Rightarrow> string option" where
  "chart_style ident config =
     (let color_config = filter (\<lambda>(_, item). has_color item) config in
      if color_config = [] then None else Some (join_with NL (map (theme_block ident color_config) THEMES)))"

text \<open>The names \<open>in\<close> finds in every object.\<close>

definition OBJECT_PROTOTYPE :: "string list" where
  "OBJECT_PROTOTYPE = [''constructor'', ''__defineGetter__'', ''__defineSetter__'', ''hasOwnProperty'', ''__lookupGetter__'',
     ''__lookupSetter__'', ''isPrototypeOf'', ''propertyIsEnumerable'', ''toString'', ''valueOf'', ''__proto__'', ''toLocaleString'']"

definition config_lookup :: "chart_config \<Rightarrow> string \<Rightarrow> chart_item looked_up option" where
  "config_lookup config key =
     (case map_of config key of Some item \<Rightarrow> Some (OwnValue item)
      | None \<Rightarrow> (if key \<in> set OBJECT_PROTOTYPE then Some InheritedFunction else None))"

definition is_object :: "js \<Rightarrow> bool" where
  "is_object v = (case v of JObj _ \<Rightarrow> True | JArr _ \<Rightarrow> True | _ \<Rightarrow> False)"

definition string_property :: "js \<Rightarrow> string \<Rightarrow> string option" where
  "string_property v key = (case map_of (own_properties v) key of Some (JStr s) \<Rightarrow> Some s | _ \<Rightarrow> None)"

definition get_payload_config :: "chart_config \<Rightarrow> js \<Rightarrow> string \<Rightarrow> chart_item looked_up option" where
  "get_payload_config config payload key =
     (if \<not> is_object payload then None
      else
        (let nested = js_prop payload ''payload'';
             config_label_key =
               (case string_property payload key of Some s \<Rightarrow> s
                | None \<Rightarrow> (if is_object nested then (case string_property nested key of Some s \<Rightarrow> s | None \<Rightarrow> key) else key))
         in if config_lookup config config_label_key \<noteq> None then config_lookup config config_label_key else config_lookup config key))"

text \<open>A property of what was found; a function has no label and no icon.\<close>

definition found_label :: "chart_item looked_up option \<Rightarrow> js" where
  "found_label r = (case r of Some (OwnValue item) \<Rightarrow> ci_label item | _ \<Rightarrow> JUndef)"

datatype tooltip_label = NoTooltipLabel | FormattedLabel js | PlainLabel js

definition payload_key :: "string option \<Rightarrow> js \<Rightarrow> js \<Rightarrow> string" where
  "payload_key given first second =
     js_String (js_or (js_or (js_or (case given of None \<Rightarrow> JUndef | Some k \<Rightarrow> JStr k) first) second) (JStr ''value''))"

definition tooltip_label_of :: "bool \<Rightarrow> js list \<Rightarrow> string option \<Rightarrow> js \<Rightarrow> bool \<Rightarrow> chart_config \<Rightarrow> tooltip_label" where
  "tooltip_label_of hide_label payload label_key label has_formatter config =
     (if hide_label \<or> payload = [] then NoTooltipLabel
      else
        (let item = hd payload; key = payload_key label_key (js_prop item ''dataKey'') (js_prop item ''name'');
             value = (case label of
                        JStr s \<Rightarrow> if \<not> truthy label_key then js_or (found_label (config_lookup config s)) label
                                  else found_label (get_payload_config config item key)
                      | _ \<Rightarrow> found_label (get_payload_config config item key))
         in if has_formatter then FormattedLabel value else if \<not> js_truthy value then NoTooltipLabel else PlainLabel value))"

text \<open>The rows of a tooltip. Reading a property of an item that is null throws, so does \<open>item.payload.fill\<close> where there is no payload.\<close>

datatype chart_indicator = DotIndicator | LineIndicator | DashedIndicator

definition found_icon :: "chart_item looked_up option \<Rightarrow> bool" where
  "found_icon r = (case r of Some (OwnValue item) \<Rightarrow> ci_has_icon item | _ \<Rightarrow> False)"

definition indicator_color :: "js \<Rightarrow> js \<Rightarrow> js option" where
  "indicator_color color item =
     (if js_truthy color then Some color
      else if js_nullish (js_prop item ''payload'') then None
      else Some (js_or (js_prop (js_prop item ''payload'') ''fill'') (js_prop item ''color'')))"

datatype row_marker = IconMarker | ColorMarker js chart_indicator bool | NoMarker

datatype tooltip_row =
    FormattedRow js js nat
  | PlainRow row_marker tooltip_label js js

definition tooltip_row_of ::
  "string option \<Rightarrow> js \<Rightarrow> chart_indicator \<Rightarrow> bool \<Rightarrow> bool \<Rightarrow> bool \<Rightarrow> tooltip_label \<Rightarrow> chart_config \<Rightarrow> nat \<times> js \<Rightarrow> tooltip_row option" where
  "tooltip_row_of name_key color indicator hide_indicator has_formatter nest_label label config entry =
     (let (index, item) = entry in
      if js_nullish item then None
      else
        (let found = get_payload_config config item (payload_key name_key (js_prop item ''name'') (js_prop item ''dataKey'')) in
         case indicator_color color item of
           None \<Rightarrow> None
         | Some shade \<Rightarrow>
             (if has_formatter \<and> js_prop item ''value'' \<noteq> JUndef \<and> js_truthy (js_prop item ''name'') then
                Some (FormattedRow (js_prop item ''value'') (js_prop item ''name'') index)
              else
                Some (PlainRow
                  (if found_icon found then IconMarker
                   else if \<not> hide_indicator then ColorMarker shade indicator (nest_label \<and> indicator = DashedIndicator)
                   else NoMarker)
                  (if nest_label then label else NoTooltipLabel)
                  (js_or (found_label found) (js_prop item ''name'')) (js_prop item ''value'')))))"

record chart_tooltip =
  ct_label :: tooltip_label
  ct_rows :: "tooltip_row list"

definition nests_label :: "js list \<Rightarrow> chart_indicator \<Rightarrow> bool" where
  "nests_label payload indicator \<longleftrightarrow> length payload = 1 \<and> indicator \<noteq> DotIndicator"

text \<open>What the tooltip shows; \<open>Some None\<close> is nothing, \<open>None\<close> an exception.\<close>

definition tooltip_content ::
  "bool \<Rightarrow> js list \<Rightarrow> chart_indicator \<Rightarrow> bool \<Rightarrow> bool \<Rightarrow> js \<Rightarrow> bool \<Rightarrow> bool \<Rightarrow> js \<Rightarrow> string option \<Rightarrow> string option \<Rightarrow> chart_config
     \<Rightarrow> chart_tooltip option option" where
  "tooltip_content active payload indicator hide_label hide_indicator label has_label_formatter has_formatter color name_key label_key config =
     (let tooltip_label = tooltip_label_of hide_label payload label_key label has_label_formatter config in
      if \<not> active \<or> payload = [] then Some None
      else
        (let nest_label = nests_label payload indicator;
             rows = map (tooltip_row_of name_key color indicator hide_indicator has_formatter nest_label tooltip_label config)
                      (enumerate 0 payload)
         in if None \<in> set rows then None
            else Some (Some \<lparr>ct_label = (if nest_label then NoTooltipLabel else tooltip_label), ct_rows = map the rows\<rparr>)))"

record legend_entry =
  le_icon :: bool
  le_color :: js
  le_label :: js

definition legend_entry_of :: "string option \<Rightarrow> bool \<Rightarrow> chart_config \<Rightarrow> js \<Rightarrow> legend_entry option" where
  "legend_entry_of name_key hide_icon config item =
     (if js_nullish item then None
      else
        (let found = get_payload_config config item (payload_key name_key (js_prop item ''dataKey'') JUndef) in
         Some \<lparr>le_icon = (found_icon found \<and> \<not> hide_icon), le_color = js_prop item ''color'', le_label = found_label found\<rparr>))"

definition legend_content :: "js list \<Rightarrow> string option \<Rightarrow> bool \<Rightarrow> chart_config \<Rightarrow> legend_entry list option option" where
  "legend_content payload name_key hide_icon config =
     (if payload = [] then Some None
      else
        (let entries = map (legend_entry_of name_key hide_icon config) payload in
         if None \<in> set entries then None else Some (Some (map the entries))))"

section \<open>Forms\<close>

record form_field =
  ff_id :: js
  ff_name :: js
  ff_item_id :: string
  ff_description_id :: string
  ff_message_id :: string
  ff_error :: js

text \<open>Both contexts default to an empty object, which is truthy: the guard never throws.\<close>

definition use_form_field :: "js \<Rightarrow> js \<Rightarrow> js \<Rightarrow> string + form_field" where
  "use_form_field field_context item_context error =
     (if \<not> js_truthy field_context then Inl ''useFormField should be used within <FormField>''
      else
        (let i = js_prop item_context ''id'' in
         Inr \<lparr>ff_id = i, ff_name = js_prop field_context ''name'', ff_item_id = js_String i @ ''-form-item'',
              ff_description_id = js_String i @ ''-form-item-description'', ff_message_id = js_String i @ ''-form-item-message'',
              ff_error = error\<rparr>))"

record form_control =
  fc_id :: string
  fc_described_by :: string
  fc_invalid :: bool

definition form_control_of :: "form_field \<Rightarrow> form_control" where
  "form_control_of f =
     \<lparr>fc_id = ff_item_id f,
      fc_described_by = (if \<not> js_truthy (ff_error f) then ff_description_id f else ff_description_id f @ '' '' @ ff_message_id f),
      fc_invalid = js_truthy (ff_error f)\<rparr>"

text \<open>The paragraph's id and body, or nothing.\<close>

definition form_message :: "form_field \<Rightarrow> js \<Rightarrow> (string \<times> js) option" where
  "form_message f children =
     (let body = (if js_truthy (ff_error f)
                  then JStr (let m = js_prop (ff_error f) ''message'' in js_String (if js_nullish m then JStr [] else m))
                  else children)
      in if \<not> js_truthy body then None else Some (ff_message_id f, body))"

text \<open>What a field's error shows: its children, one message, or a list with one item per message.\<close>

datatype field_error = NoFieldError | ErrorNode js | ErrorList "js list"

definition field_error_content :: "js \<Rightarrow> js list option \<Rightarrow> field_error" where
  "field_error_content children errors =
     (if js_truthy children then ErrorNode children
      else (case errors of
              None \<Rightarrow> NoFieldError
            | Some es \<Rightarrow>
                (if length es = 1 \<and> js_truthy (js_prop (hd es) ''message'') then ErrorNode (js_prop (hd es) ''message'')
                 else ErrorList (filter js_truthy (map (\<lambda>e. js_prop e ''message'') es)))))"

section \<open>Carousel and slider\<close>

text \<open>Embla's answers are its own; the component's state is what it last asked.\<close>

record carousel_state =
  ca_can_prev :: bool
  ca_can_next :: bool

datatype carousel_command = ScrollPrev | ScrollNext

definition carousel_axis :: "string \<Rightarrow> string" where
  "carousel_axis orientation = (if orientation = ''horizontal'' then ''x'' else ''y'')"

definition on_select :: "(bool \<times> bool) option \<Rightarrow> carousel_state \<Rightarrow> carousel_state" where
  "on_select api s = (case api of None \<Rightarrow> s | Some (prev, next1) \<Rightarrow> s\<lparr>ca_can_prev := prev, ca_can_next := next1\<rparr>)"

text \<open>Whether the default is prevented, and what Embla is told, if it is there.\<close>

definition carousel_key_down :: "bool \<Rightarrow> string \<Rightarrow> bool \<times> carousel_command list" where
  "carousel_key_down has_api key =
     (if key = ''ArrowLeft'' then (True, if has_api then [ScrollPrev] else [])
      else if key = ''ArrowRight'' then (True, if has_api then [ScrollNext] else [])
      else (False, []))"

text \<open>The effect that listens to Embla, and its cleanup: the events listened to, each with the listener.\<close>

definition carousel_listen :: "nat \<Rightarrow> (string \<times> nat) list \<Rightarrow> (string \<times> nat) list" where
  "carousel_listen on_select_id listeners = listeners @ [(''reInit'', on_select_id), (''select'', on_select_id)]"

definition carousel_cleanup :: "nat \<Rightarrow> (string \<times> nat) list \<Rightarrow> (string \<times> nat) list" where
  "carousel_cleanup on_select_id = filter (\<lambda>l. l \<noteq> (''select'', on_select_id))"

definition slider_values :: "rat list option \<Rightarrow> rat list option \<Rightarrow> rat \<Rightarrow> rat \<Rightarrow> rat list" where
  "slider_values value default_value min1 max1 =
     (case value of Some v \<Rightarrow> v | None \<Rightarrow> (case default_value of Some d \<Rightarrow> d | None \<Rightarrow> [min1, max1]))"

section \<open>Lemmas\<close>

text \<open>An entry typed as the code types it has a line in the block of every theme.\<close>

definition well_colored :: "chart_item \<Rightarrow> bool" where
  "well_colored item \<longleftrightarrow> (case ci_theme item of None \<Rightarrow> True
     | Some t \<Rightarrow> list_all (\<lambda>(name, _). \<exists>c. map_of t name = Some c \<and> c \<noteq> []) THEMES)"

lemma every_theme_colored:
  assumes "has_color item" and "well_colored item" and "t \<in> set THEMES"
  shows "color_line (fst t) (key, item) \<noteq> []"
proof (cases "ci_theme item")
  case None
  with assms(1) show ?thesis by (auto simp: color_line_def theme_color_def has_color_def truthy_def split: option.splits)
next
  case (Some m)
  with assms(2,3) obtain c where "map_of m (fst t) = Some c" "c \<noteq> []"
    by (auto simp: well_colored_def list_all_iff)
  with Some show ?thesis by (simp add: color_line_def theme_color_def truthy_def)
qed

text \<open>A tooltip has a row for every item, and its label either above them or in the only one.\<close>

lemma tooltip_label_once:
  assumes "tooltip_content active payload indicator hide_label hide_indicator label has_label_formatter has_formatter color name_key label_key config = Some (Some t)"
  shows "length (ct_rows t) = length payload"
    and "ct_label t \<noteq> NoTooltipLabel \<Longrightarrow> PlainRow marker row_label name val \<in> set (ct_rows t) \<Longrightarrow> row_label = NoTooltipLabel"
    and "nests_label payload indicator \<Longrightarrow> length (ct_rows t) = 1"
proof -
  let ?top = "tooltip_label_of hide_label payload label_key label has_label_formatter config" and ?nest = "nests_label payload indicator"
  let ?rows = "map (tooltip_row_of name_key color indicator hide_indicator has_formatter ?nest ?top config) (enumerate 0 payload)"
  have t: "None \<notin> set ?rows" "t = \<lparr>ct_label = (if ?nest then NoTooltipLabel else ?top), ct_rows = map the ?rows\<rparr>"
    using assms by (auto simp: tooltip_content_def Let_def split: if_splits)
  show len: "length (ct_rows t) = length payload" using t(2) by simp
  show "row_label = NoTooltipLabel" if "ct_label t \<noteq> NoTooltipLabel" "PlainRow marker row_label name val \<in> set (ct_rows t)"
  proof -
    have the_some: "Some x \<in> set rs" if "x \<in> the ` set rs" "None \<notin> set rs" for x :: tooltip_row and rs
      using that by (metis imageE option.exhaust_sel)
    have "PlainRow marker row_label name val \<in> the ` set ?rows" using that(2) unfolding t(2) by (simp add: image_image)
    from the_some [OF this t(1)] have "Some (PlainRow marker row_label name val) \<in> set ?rows" .
    moreover have "\<not> ?nest" using that(1) t(2) by auto
    ultimately show ?thesis by (auto simp: tooltip_row_of_def Let_def split: if_splits option.splits)
  qed
  show "length (ct_rows t) = 1" if ?nest using len that by (simp add: nests_label_def)
qed

text \<open>A missing provider is not noticed: every such field has the ids of \<open>undefined\<close>.\<close>

lemma form_guard_never_throws:
  "use_form_field (JObj []) (JObj []) error = Inr f \<Longrightarrow> ff_item_id f = ''undefined-form-item''"
  "\<exists>f. use_form_field (JObj []) (JObj []) error = Inr f"
  by (auto simp: use_form_field_def js_truthy_def js_prop_def js_String.simps Let_def)

text \<open>The cleanup forgets \<open>reInit\<close>: every effect leaves a listener behind.\<close>

lemma carousel_listeners_leak:
  "((\<lambda>ls. carousel_cleanup i (carousel_listen i ls)) ^^ n) [] = replicate n (''reInit'', i)"
  by (induction n) (simp_all add: carousel_listen_def carousel_cleanup_def replicate_append_same flip: replicate_Suc)

section \<open>Properties\<close>

text \<open>
  A form field is labelled by its own parts: the ids of control, description and message differ, the control is
  marked invalid exactly when there is an error, and it is described by the message exactly then.
\<close>

theorem form_ids_consistent:
  assumes "use_form_field field_context item_context error = Inr f"
  shows "distinct [ff_item_id f, ff_description_id f, ff_message_id f]
    \<and> fc_invalid (form_control_of f) = js_truthy error
    \<and> fc_described_by (form_control_of f)
        = join_with '' '' (ff_description_id f # (if js_truthy error then [ff_message_id f] else []))
    \<and> (\<forall>children i body. form_message f children = Some (i, body) \<longrightarrow> i = ff_message_id f \<and> js_truthy body)"
  using assms by (auto simp: use_form_field_def form_control_of_def form_message_def Let_def split: if_splits)

theorem form_ids_consistent_witness:
  "\<exists>f. use_form_field (JObj [(''name'', JStr ''email'')]) (JObj [(''id'', JStr ''r1'')]) JUndef = Inr f
     \<and> distinct [ff_item_id f, ff_description_id f, ff_message_id f] \<and> ff_item_id f = ''r1-form-item''"
proof -
  have "\<exists>f. use_form_field (JObj [(''name'', JStr ''email'')]) (JObj [(''id'', JStr ''r1'')]) JUndef = Inr f \<and> ff_item_id f = ''r1-form-item''"
    by (simp add: use_form_field_def js_truthy_def js_prop_def Let_def js_String.simps)
  with form_ids_consistent show ?thesis by blast
qed

end
