(* ===== verification/ReapCommand.thy ===== *)
theory ReapCommand
  imports HookEvents
begin

text \<open>
  \<open>hooks/src/commands/reap.ts\<close>: the reaper process, run once or on a schedule. The schedule is a
  transition system: the clock ticks whenever it likes, and a reap that is under way finishes whenever
  it likes. A tick runs up to its first \<open>await\<close> without interruption, and while the reap is under way
  this process does nothing else, so the reap's effect is one step, at its end.
\<close>

definition reaper_schedule :: "env \<Rightarrow> string" where
  "reaper_schedule env = or_else (env ''REAPER_SCHEDULE'') ''* * * * *''"

definition run_once :: "env \<Rightarrow> bool" where
  "run_once env = (to_lower (or_else (env ''REAPER_RUN_ONCE'') []) \<in> set [''1'', ''true'', ''yes''])"

record cron_state =
  cr_running :: bool
  cr_active :: nat
  cr_started :: nat
  cr_finished :: nat
  cr_world :: hook_world

definition cron_init :: "hook_world \<Rightarrow> cron_state" where
  "cron_init w = \<lparr>cr_running = False, cr_active = 0, cr_started = 0, cr_finished = 0, cr_world = w\<rparr>"

text \<open>\<open>onTick\<close> up to the call of the reaper, and from its return (or its exception) to the end.\<close>

definition on_tick :: "cron_state \<Rightarrow> cron_state" where
  "on_tick s = (if cr_running s then s
                else s\<lparr>cr_running := True, cr_active := Suc (cr_active s), cr_started := Suc (cr_started s)\<rparr>)"

definition on_return :: "'a hook_services_scheme \<Rightarrow> cron_state \<Rightarrow> cron_state" where
  "on_return sv s =
     s\<lparr>cr_running := False, cr_active := cr_active s - 1, cr_finished := Suc (cr_finished s),
       cr_world := snd (reap_obsolete_images sv (Some (get_configured_repository_ids (hs_env sv))) (cr_world s))\<rparr>"

inductive cron_step :: "'a hook_services_scheme \<Rightarrow> cron_state \<Rightarrow> cron_state \<Rightarrow> bool" for sv where
  tick: "cron_step sv s (on_tick s)"
| return: "0 < cr_active s \<Longrightarrow> cron_step sv s (on_return sv s)"

inductive_cases cron_stepE: "cron_step sv s t"

text \<open>What \<open>main\<close> comes to: one reap whose failure ends the process with 1, or the schedule.\<close>

datatype reap_main = RanOnce | ExitOne | Scheduled

definition reap_command :: "'a hook_services_scheme \<Rightarrow> hook_world \<Rightarrow> reap_main \<times> cron_state" where
  "reap_command sv w =
     (if run_once (hs_env sv) then
        (let (result, w') = reap_obsolete_images sv (Some (get_configured_repository_ids (hs_env sv))) w in
         (case result of Some _ \<Rightarrow> RanOnce | None \<Rightarrow> ExitOne, (cron_init w')))
      else (Scheduled, cron_init w))"

section \<open>Lemmas\<close>

definition cron_inv :: "(nat \<Rightarrow> string) \<Rightarrow> cron_state \<Rightarrow> bool" where
  "cron_inv gen s \<longleftrightarrow> cr_active s = (if cr_running s then 1 else 0) \<and> cr_started s = cr_finished s + cr_active s
     \<and> db_inv gen (hw_db (cr_world s))"

lemma reap_inv: "db_inv gen (hw_db w) \<Longrightarrow> db_inv gen (hw_db (snd (reap_obsolete_images sv ids w)))"
proof -
  assume inv: "db_inv gen (hw_db w)"
  obtain res w' where r: "reap_obsolete_images sv ids w = (res, w')" by force
  obtain removed where "hw_db w' = (hw_db w)\<lparr>db_images := filter (\<lambda>i. im_id i \<notin> removed) (db_images (hw_db w))\<rparr>"
    using reap_effect [OF r] by blast
  with r filter_images_inv [OF inv] show ?thesis by simp
qed

lemma cron_step_inv: "cron_inv gen s \<Longrightarrow> cron_step sv s t \<Longrightarrow> cron_inv gen t"
  by (elim cron_stepE) (auto simp: cron_inv_def on_tick_def on_return_def reap_inv split: if_splits)

lemma cron_reachable_inv: "(cron_step sv)\<^sup>*\<^sup>* s t \<Longrightarrow> cron_inv gen s \<Longrightarrow> cron_inv gen t"
  by (induction rule: rtranclp_induct) (auto intro: cron_step_inv)

section \<open>Properties\<close>

text \<open>
  C29. Scheduled reaps never overlap and never stop: in every run of the process at most one reap is under
  way, no matter how ticks and returns fall and whether reaps fail, the database stays consistent, and
  whenever none is under way the next tick starts one.
\<close>

theorem scheduled_reaps_never_overlap:
  assumes "db_inv gen (hw_db w)" and "(cron_step sv)\<^sup>*\<^sup>* (cron_init w) s"
  shows "cr_active s \<le> 1 \<and> cr_started s = cr_finished s + cr_active s \<and> db_inv gen (hw_db (cr_world s))
    \<and> (cr_active s = 0 \<longrightarrow> cr_active (on_tick s) = 1 \<and> cr_started (on_tick s) = Suc (cr_started s))
    \<and> (cr_active s = 1 \<longrightarrow> on_tick s = s \<and> cr_active (on_return sv s) = 0)"
proof -
  have "cron_inv gen (cron_init w)" using assms(1) by (simp add: cron_inv_def cron_init_def)
  from cron_reachable_inv [OF assms(2) this] show ?thesis
    by (auto simp: cron_inv_def on_tick_def on_return_def split: if_splits)
qed

theorem scheduled_reaps_never_overlap_witness:
  "cr_active (on_tick (on_tick (cron_init demo_hook_world))) \<le> 1 \<and>
   cr_started (on_tick (on_return demo_hook_services (on_tick (cron_init demo_hook_world)))) = 2"
proof -
  have inv: "db_inv demo_gen (hw_db demo_hook_world)" using demo_database_inv by (simp add: demo_hook_world_db)
  have a: "(cron_step demo_hook_services)\<^sup>*\<^sup>* (cron_init demo_hook_world) (on_tick (on_tick (cron_init demo_hook_world)))"
    by (rule rtranclp.rtrancl_into_rtrancl [OF r_into_rtranclp [of "cron_step demo_hook_services", OF cron_step.tick] cron_step.tick])
  have "0 < cr_active (on_tick (cron_init demo_hook_world))" by (simp add: on_tick_def cron_init_def)
  then have b: "(cron_step demo_hook_services)\<^sup>*\<^sup>* (cron_init demo_hook_world) (on_return demo_hook_services (on_tick (cron_init demo_hook_world)))"
    by (intro rtranclp.rtrancl_into_rtrancl [OF r_into_rtranclp [of "cron_step demo_hook_services", OF cron_step.tick] cron_step.return])
  from scheduled_reaps_never_overlap [OF inv a] scheduled_reaps_never_overlap [OF inv b] show ?thesis
    by (simp add: on_tick_def on_return_def cron_init_def)
qed

end
