(* ===== verification/Authority.thy ===== *)
theory Authority
  imports StoreTrack
begin

text \<open>
  Where the recorded images come from: what the webhook reads out of a repository's path is a function of
  the row it writes, and every row stands for a push whose path it may be traced to. \<open>backed\<close> is that
  invariant, for any set of allowed pushes; it is an instance of the contract \<open>webhook_invariant\<close>, and token
  requests keep it.
\<close>

section \<open>Paths and rows\<close>

text \<open>An image and its repository are as a push with this provenance leaves them.\<close>

definition attributed :: "inferred_provenance \<Rightarrow> image_row \<Rightarrow> repo_row \<Rightarrow> bool" where
  "attributed ip i r \<longleftrightarrow> re_organization r = ip_organization ip \<and> re_name r = ip_name ip \<and> im_provenance i = ip_provenance ip
     \<and> im_cluster_id i = (case ip_cluster_id ip of None \<Rightarrow> None | Some c \<Rightarrow> uuid_parse c)"

definition pushes_named :: "(string \<Rightarrow> bool) \<Rightarrow> inferred_provenance \<Rightarrow> bool" where
  "pushes_named may ip \<longleftrightarrow> (\<exists>path. infer_provenance (JStr path) = Some ip \<and> may path)"

definition backed :: "(string \<Rightarrow> bool) \<Rightarrow> database \<Rightarrow> bool" where
  "backed may db \<longleftrightarrow> (\<forall>(i, r) \<in> set (join_repos db). \<exists>ip. pushes_named may ip \<and> attributed ip i r)"

lemma join_repos_iff: "(i, r) \<in> set (join_repos db) \<longleftrightarrow> i \<in> set (db_images db) \<and> r \<in> set (db_repos db) \<and> re_id r = im_repository_id i"
  by (auto simp: join_repos_def)

lemma backed_iff:
  "backed may db \<longleftrightarrow> (\<forall>i \<in> set (db_images db). \<forall>r \<in> set (db_repos db). re_id r = im_repository_id i \<longrightarrow>
     (\<exists>ip. pushes_named may ip \<and> attributed ip i r))"
  by (auto simp: backed_def join_repos_def)

lemma backed_mono: "backed may db \<Longrightarrow> (\<And>path. may path \<Longrightarrow> may' path) \<Longrightarrow> backed may' db"
  unfolding backed_def pushes_named_def by blast

text \<open>The head of a joined path is its first segment.\<close>

lemma path_segments_no_slash: "s \<in> set (path_segments p) \<Longrightarrow> CHR ''/'' \<notin> set s"
  by (auto simp: path_segments_def dest: split_on_pieces)

lemma join_with_head: "CHR ''/'' \<notin> set s \<Longrightarrow> takeWhile (\<lambda>c. c \<noteq> CHR ''/'') (join_with ''/'' (s # ss)) = s"
  by (cases ss) (auto simp: takeWhile_tail takeWhile_append2)

text \<open>What is inferred from a path depends on the organization and the name alone.\<close>

definition provenance_at :: "string \<Rightarrow> provenance" where
  "provenance_at org = (if org = ''cluster'' then ClusterSnapshot else if org = ''mirror'' then Mirror else Pushed)"

definition cluster_at :: "string \<Rightarrow> string \<Rightarrow> string option" where
  "cluster_at org name =
     (let candidate = takeWhile (\<lambda>c. c \<noteq> CHR ''/'') name in
      if org = ''cluster'' \<and> CLUSTER_ID_PATTERN candidate then Some candidate else None)"

lemma inferred_at:
  assumes "infer_provenance (JStr path) = Some ip"
  shows "ip_provenance ip = provenance_at (ip_organization ip) \<and> ip_cluster_id ip = cluster_at (ip_organization ip) (ip_name ip)"
proof -
  from assms obtain a b cs where segs: "path_segments path = a # b # cs"
    by (cases "path_segments path" rule: remdups_adj.cases) (auto simp: infer_provenance_def Let_def split: if_splits)
  have "CHR ''/'' \<notin> set b" using path_segments_no_slash [of b path] segs by simp
  from join_with_head [OF this, of cs] assms segs show ?thesis
    by (auto simp: infer_provenance_def Let_def provenance_at_def cluster_at_def split: if_splits)
qed

section \<open>Every statement keeps it\<close>

lemma backed_develops:
  assumes inv: "db_inv gen db" "db_inv gen db'" and b: "backed may db" and ev: "evolves gen db db'"
    and imgs: "\<And>j. j \<in> set (db_images db') \<Longrightarrow>
      (\<exists>i \<in> set (db_images db). im_repository_id i = im_repository_id j \<and> im_provenance i = im_provenance j \<and> im_cluster_id i = im_cluster_id j)
      \<or> (\<exists>ip. \<exists>r \<in> set (db_repos db'). pushes_named may ip \<and> re_id r = im_repository_id j \<and> attributed ip j r)"
  shows "backed may db'"
  unfolding backed_def
proof safe
  fix j r' assume "(j, r') \<in> set (join_repos db')"
  then have j: "j \<in> set (db_images db')" "r' \<in> set (db_repos db')" "re_id r' = im_repository_id j" by (simp_all add: join_repos_iff)
  have uniq: "r = r'" if "r \<in> set (db_repos db')" "re_id r = im_repository_id j" for r
  proof -
    have "inj_on re_id (set (db_repos db'))" using inv(2) by (simp add: db_inv_def db_wf_def distinct_map)
    from inj_onD [OF this _ that(1) j(2)] that(2) j(3) show ?thesis by simp
  qed
  from imgs [OF j(1)] show "\<exists>ip. pushes_named may ip \<and> attributed ip j r'"
  proof (elim disjE exE bexE conjE)
    fix i assume i: "i \<in> set (db_images db)" "im_repository_id i = im_repository_id j" "im_provenance i = im_provenance j"
      "im_cluster_id i = im_cluster_id j"
    have "im_repository_id ` set (db_images db) \<subseteq> re_id ` set (db_repos db)" using inv(1) by (simp add: db_inv_def db_wf_def)
    with i(1) have "im_repository_id i \<in> re_id ` set (db_repos db)" by blast
    then obtain r where r: "r \<in> set (db_repos db)" "re_id r = im_repository_id i" by auto
    with i(1) b obtain ip where ip: "pushes_named may ip" "attributed ip i r" unfolding backed_iff by blast
    from ev r(1) obtain r2 where "r2 \<in> set (db_repos db')" "re_id r2 = re_id r" "re_organization r2 = re_organization r"
        "re_name r2 = re_name r" by (auto simp: evolves_def)
    with uniq r(2) i ip show ?thesis by (auto simp: attributed_def)
  next
    fix ip r assume "pushes_named may ip" "r \<in> set (db_repos db')" "re_id r = im_repository_id j" "attributed ip j r"
    with uniq show ?thesis by blast
  qed
qed

lemma losses_backed: "backed may db \<Longrightarrow> backed may (db\<lparr>db_images := filter P (db_images db)\<rparr>)"
  by (simp add: backed_iff)

lemma update_last_pulled_backed: "backed may db \<Longrightarrow> backed may (update_last_pulled now org name tag db)"
  by (auto simp: backed_iff update_last_pulled_def attributed_def)

lemma sync_body_backed:
  assumes "sync_body gen profile scopes db = Inr (x, db')" and "db_inv gen db" and "backed may db"
  shows "backed may db'"
proof (rule backed_develops [OF assms(2) _ assms(3) sync_body_evolves [OF assms(1)]])
  from sync_body_inv [OF assms(1,2)] have "db_inv gen db'" and imgs: "db_images db' = db_images db" by simp_all
  then show "db_inv gen db'" by simp
  show "(\<exists>i \<in> set (db_images db). im_repository_id i = im_repository_id j \<and> im_provenance i = im_provenance j \<and> im_cluster_id i = im_cluster_id j)
      \<or> (\<exists>ip. \<exists>r \<in> set (db_repos db'). pushes_named may ip \<and> re_id r = im_repository_id j \<and> attributed ip j r)"
    if "j \<in> set (db_images db')" for j using that imgs by auto
qed

lemma upsert_repo_backed:
  assumes "upsert_repo gen org name db = Inr (x, db')" and "db_inv gen db" and "backed may db"
  shows "backed may db'"
  by (rule backed_develops [OF assms(2) _ assms(3) upsert_repo_evolves [OF assms(1)]])
    (use upsert_repo_inv [OF assms(1,2)] in auto)

text \<open>The row of a push, new or merged with the one it replaces: an older row of the repository has the same provenance.\<close>

lemma upsert_image_backed:
  assumes up: "upsert_image gen now p db = Inr (x, db')" and inv: "db_inv gen db" and b: "backed may db"
    and r: "r \<in> set (db_repos db)" "re_id r = ia_repository_id p" "re_organization r = ip_organization ip" "re_name r = ip_name ip"
    and ip: "pushes_named may ip" "ia_provenance p = ip_provenance ip" "ia_cluster_id p = ip_cluster_id ip"
  shows "backed may db'"
proof (rule backed_develops [OF inv _ b upsert_image_evolves [OF up]])
  from upsert_image_inv [OF up inv] have repos: "db_repos db' = db_repos db" and "db_inv gen db'" by simp_all
  then show "db_inv gen db'" by simp
  fix j assume j: "j \<in> set (db_images db')"
  let ?e = "excluded_row (gen (db_next_id db)) now p"
  have e: "im_repository_id ?e = ia_repository_id p" "attributed ip ?e r"
    using r ip by (simp_all add: excluded_row_def attributed_def)
  from up j consider (new) "j = ?e" | (old) "j \<in> set (db_images db)"
    | (merged) i where "i \<in> set (db_images db)" "same_image ?e i" "j = merge_image ?e i"
    by (auto simp: upsert_image_def Let_def split: option.splits if_splits)
  then show "(\<exists>i \<in> set (db_images db). im_repository_id i = im_repository_id j \<and> im_provenance i = im_provenance j \<and> im_cluster_id i = im_cluster_id j)
      \<or> (\<exists>ip. \<exists>r \<in> set (db_repos db'). pushes_named may ip \<and> re_id r = im_repository_id j \<and> attributed ip j r)"
  proof cases
    case new
    with e r ip(1) repos show ?thesis by auto
  next
    case merged
    then have "(i, r) \<in> set (join_repos db)" using r e by (simp add: join_repos_iff same_image_def)
    with b obtain ip' where ip': "pushes_named may ip'" "attributed ip' i r" by (auto simp: backed_def)
    have "ip_cluster_id ip' = ip_cluster_id ip"
      using inferred_at [of _ ip'] inferred_at [of _ ip] ip(1) ip' r by (auto simp: pushes_named_def attributed_def)
    then have "im_cluster_id j = im_cluster_id ?e"
      using merged(3) e(2) ip'(2) by (auto simp: merge_image_def coalesce_def attributed_def split: option.splits)
    then have "attributed ip j r" using e(2) merged(3) by (simp add: attributed_def merge_image_def)
    moreover have "im_repository_id j = re_id r" using merged r e by (simp add: same_image_def)
    ultimately show ?thesis using r(1) ip(1) repos by auto
  qed auto
qed

lemma push_body_backed:
  assumes "push_body gen now ip tag t ret digest db = Inr (x, db')" and "db_inv gen db" and "backed may db" and "pushes_named may ip"
  shows "backed may db'"
proof -
  obtain repo_id db1 p u where up: "upsert_repo gen (ip_organization ip) (ip_name ip) db = Inr (repo_id, db1)"
      "upsert_image gen now p db1 = Inr (u, db')"
    and p: "ia_repository_id p = repo_id" "ia_provenance p = ip_provenance ip" "ia_cluster_id p = ip_cluster_id ip"
    using assms(1) by (auto simp: push_body_def split: sum.splits)
  from upsert_repo_inv [OF up(1) assms(2)] obtain r where "db_inv gen db1" "r \<in> set (db_repos db1)" "re_id r = repo_id"
      "re_organization r = ip_organization ip" "re_name r = ip_name ip" by blast
  with upsert_image_backed [OF up(2) _ upsert_repo_backed [OF up(1) assms(2,3)], of r ip] assms(4) p show ?thesis by simp
qed

interpretation authority: webhook_invariant "\<lambda>db. db_inv gen db \<and> backed may db" gen "pushes_named may" for gen may
  by unfold_locales
    (auto intro: push_body_inv push_body_backed filter_images_inv losses_backed update_last_pulled_inv update_last_pulled_backed)

end
