(* ===== verification/Platform.thy ===== *)
theory Platform
  imports Authority ImportAPI
begin

text \<open>
  The two services, the registry between them and their clients as one system, to say what all of it is for:
  every image in the tables was pushed by somebody who was allowed to.

  A step is a request to one of the handlers. What the registry does is its documented behaviour: it takes a push
  only with a token of this service whose access list names the repository with \<open>push\<close> (\<open>verify\<close> is its
  check of a signature), and it reports what was pushed, with the webhook's token. Besides, what an import copies is
  reported, and what the mirror's writer stores under \<open>mirror/\<close>. Anybody may send anything to any handler.
\<close>

section \<open>Tokens\<close>

definition token_allows_push :: "(string \<Rightarrow> js option) \<Rightarrow> string \<Rightarrow> response \<Rightarrow> bool" where
  "token_allows_push verify path rsp \<longleftrightarrow> rp_status rsp = 200 \<and>
     (case js_prop (rp_body rsp) ''token'' of
        JStr jwt \<Rightarrow>
          (case verify jwt of
             None \<Rightarrow> False
           | Some payload \<Rightarrow>
               (case js_prop payload ''access'' of
                  JArr entries \<Rightarrow>
                    list_ex (\<lambda>e. js_prop e ''type'' = JStr ''repository'' \<and> js_prop e ''name'' = JStr path \<and>
                      (case js_prop e ''actions'' of JArr as \<Rightarrow> JStr ''push'' \<in> set as | _ \<Rightarrow> False)) entries
                | _ \<Rightarrow> False))
      | _ \<Rightarrow> False)"

section \<open>The system\<close>

text \<open>\<open>pf_tokens\<close> and \<open>pf_imports\<close> are ghosts: the token requests so far, each with the state it found and its answer, and the import requests.\<close>

record token_exchange =
  tx_query :: token_query
  tx_world :: auth_world
  tx_answer :: response

record platform =
  pf_auth :: auth_world
  pf_hooks :: hook_world
  pf_db :: database
  pf_tokens :: "token_exchange list"
  pf_imports :: "(string option \<times> js) list"

definition accepted_import :: "env \<Rightarrow> string option \<times> js \<Rightarrow> validated option" where
  "accepted_import env request =
     (if import_authorized env (fst request) then (case validate_import (snd request) of Inl _ \<Rightarrow> None | Inr v \<Rightarrow> Some v) else None)"

definition may_be_pushed :: "env \<Rightarrow> (string \<Rightarrow> js option) \<Rightarrow> platform \<Rightarrow> string \<Rightarrow> bool" where
  "may_be_pushed env verify s path \<longleftrightarrow> list_ex (\<lambda>x. token_allows_push verify path (tx_answer x)) (pf_tokens s)
     \<or> list_ex (\<lambda>request. map_option dst_repo (accepted_import env request) = Some path) (pf_imports s) \<or> starts_with ''mirror/'' path"

definition authentic_event :: "env \<Rightarrow> (string \<Rightarrow> js option) \<Rightarrow> platform \<Rightarrow> js \<Rightarrow> bool" where
  "authentic_event env verify s event \<longleftrightarrow> js_prop event ''action'' = JStr ''push'' \<longrightarrow>
     (\<exists>path. js_prop (js_prop event ''target'') ''repository'' = JStr path \<and> may_be_pushed env verify s path)"

inductive platform_step :: "app_services \<Rightarrow> auth_app \<Rightarrow> hook_services \<Rightarrow> (string \<Rightarrow> js option) \<Rightarrow> platform \<Rightarrow> platform \<Rightarrow> bool"
  for sv app hv verify where
  asked_token: "handle_token sv app q ((pf_auth s)\<lparr>aw_db := pf_db s\<rparr>) = (rsp, w') \<Longrightarrow>
    platform_step sv app hv verify s (s\<lparr>pf_auth := w', pf_db := aw_db w',
      pf_tokens := \<lparr>tx_query = q, tx_world = (pf_auth s)\<lparr>aw_db := pf_db s\<rparr>, tx_answer = rsp\<rparr> # pf_tokens s\<rparr>)"
| asked_images: "handle_images sv app iq ((pf_auth s)\<lparr>aw_db := pf_db s\<rparr>) = (rsp, w') \<Longrightarrow>
    platform_step sv app hv verify s (s\<lparr>pf_auth := w', pf_db := aw_db w'\<rparr>)"
| notified: "hook hv authorization body ((pf_hooks s)\<lparr>hw_db := pf_db s\<rparr>) = (status, v') \<Longrightarrow>
    (authorization = Some (expected_hook_authorization (hs_env hv)) \<longrightarrow>
      (\<forall>events event. events_of body = Some events \<longrightarrow> event \<in> set events \<longrightarrow> authentic_event (hs_env hv) verify s event)) \<Longrightarrow>
    platform_step sv app hv verify s (s\<lparr>pf_hooks := v', pf_db := hw_db v'\<rparr>)"
| asked_import: "import_image hv authorization body ((pf_hooks s)\<lparr>hw_db := pf_db s\<rparr>) = (res, v') \<Longrightarrow>
    platform_step sv app hv verify s
      (s\<lparr>pf_hooks := v', pf_db := hw_db v', pf_imports := (authorization, body) # pf_imports s\<rparr>)"
| asked_presence: "blob_presence hv authorization repository digest ((pf_hooks s)\<lparr>hw_db := pf_db s\<rparr>) = (res', v') \<Longrightarrow>
    platform_step sv app hv verify s (s\<lparr>pf_hooks := v', pf_db := hw_db v'\<rparr>)"
| reaped: "reap_obsolete_images hv ids ((pf_hooks s)\<lparr>hw_db := pf_db s\<rparr>) = (removed, v') \<Longrightarrow>
    platform_step sv app hv verify s (s\<lparr>pf_hooks := v', pf_db := hw_db v'\<rparr>)"

inductive_cases platform_stepE: "platform_step sv app hv verify s s'"

inductive platform_reachable ::
  "app_services \<Rightarrow> auth_app \<Rightarrow> hook_services \<Rightarrow> (string \<Rightarrow> js option) \<Rightarrow> database \<Rightarrow> platform \<Rightarrow> bool"
  for sv app hv verify db where
  opened: "platform_reachable sv app hv verify db \<lparr>pf_auth = a, pf_hooks = h, pf_db = db, pf_tokens = [], pf_imports = []\<rparr>"
| moved: "platform_reachable sv app hv verify db s \<Longrightarrow> platform_step sv app hv verify s s' \<Longrightarrow> platform_reachable sv app hv verify db s'"

section \<open>Who may push\<close>

text \<open>A request of the run whose credential was accepted, with what was asked and by which result.\<close>

definition asked :: "app_services \<Rightarrow> auth_app \<Rightarrow> token_exchange \<Rightarrow> presented_credentials \<Rightarrow> validation_result \<Rightarrow> requested_scope \<Rightarrow> bool" where
  "asked sv app x cred r sc \<longleftrightarrow>
     extract_presented_credentials (tq_authorization (tx_query x)) = Inr cred
     \<and> (\<exists>w1. validate_presented_token sv (aa_context app) (pc_token cred) (tq_scope (tx_query x)) (tx_world x) = (Inr r, w1))
     \<and> (vr_strategy r = Api \<longrightarrow> presented_identity_matches_user (pc_identity cred) (tq_account (tx_query x)) (vr_profile r))
     \<and> sc \<in> set (parse_requested_scopes (tq_scope (tx_query x))) \<and> sc_type sc = ''repository''"

text \<open>What stands behind a push with a token.\<close>

definition token_authority :: "app_services \<Rightarrow> auth_app \<Rightarrow> platform \<Rightarrow> string \<Rightarrow> inferred_provenance \<Rightarrow> bool" where
  "token_authority sv app s path ip \<longleftrightarrow>
     (\<exists>x \<in> set (pf_tokens s). \<exists>cred r sc. asked sv app x cred r sc \<and> rp_status (tx_answer x) = 200
        \<and> sc_name sc = path \<and> ''push'' \<in> set (sc_actions sc)
        \<and> (vr_strategy r = ClusterPatStrategy \<longrightarrow> ip_provenance ip = ClusterSnapshot \<and> ip_cluster_id ip = vr_cluster_id r
             \<and> map_option cp_cluster_id (cluster_entry (aa_context app) (pc_token cred)) = vr_cluster_id r)
        \<and> (vr_strategy r = WrappedUpstream \<longrightarrow> (\<exists>route. route_mirror_repo_to_upstream path = Some route)))"

text \<open>What stands behind a copied image: an authorized import into the cluster it names.\<close>

definition import_authority :: "env \<Rightarrow> platform \<Rightarrow> string \<Rightarrow> inferred_provenance \<Rightarrow> bool" where
  "import_authority env s path ip \<longleftrightarrow>
     (\<exists>(authorization, body) \<in> set (pf_imports s). \<exists>v. import_authorized env authorization \<and> validate_import body = Inr v
        \<and> dst_repo v = path \<and> ip_provenance ip = ClusterSnapshot \<and> ip_cluster_id ip = Some (vd_cluster_id v))"

section \<open>Lemmas: tokens\<close>

lemma granted_access_entry:
  "list_ex (\<lambda>e. js_prop e ''type'' = JStr ''repository'' \<and> js_prop e ''name'' = JStr path \<and>
      (case js_prop e ''actions'' of JArr as \<Rightarrow> JStr ''push'' \<in> set as | _ \<Rightarrow> False)) (map scope_js access)
   \<longleftrightarrow> (\<exists>sc \<in> set access. sc_type sc = ''repository'' \<and> sc_name sc = path \<and> ''push'' \<in> set (sc_actions sc))"
  by (auto simp: list_ex_iff scope_js_def js_prop_def)

lemma token_payload_access [simp]: "js_prop (token_payload app r service access iat expiry) ''access'' = JArr (map scope_js access)"
  by (simp add: token_payload_def js_prop_def Let_def)

text \<open>A configured cluster has a name of the right form.\<close>

lemma created_cluster:
  assumes "cluster_entry (aa_context (fst (create_app sv config w))) token = Some e"
  shows "CLUSTER_ID_PATTERN (cp_cluster_id e)"
proof -
  obtain raw where "ac_auth_cluster_pat_tokens config = Some raw" "e \<in> set (parse_cluster_pat_entries (Some raw))"
    using assms find_mem
    by (cases "ac_auth_cluster_pat_tokens config")
      (fastforce simp: create_app_def build_validation_context_def build_cluster_pat_config_def cluster_entry_def
        parse_cluster_pat_entries_def truthy_def case_prod_beta' Let_def split: if_splits)+
  with cluster_pat_entries_correct show ?thesis by blast
qed

text \<open>Every repository of an accepted wrapped credential has a route to an upstream.\<close>

lemma wrapped_routes:
  assumes "validate_using_wrapped_upstream sv ctx token scope w = (Inr r, w')" and "sc \<in> set (parse_requested_scopes scope)"
  shows "\<exists>route. route_mirror_repo_to_upstream (sc_name sc) = Some route"
proof -
  obtain s w1 where v: "validate_wrapped_upstream sv (vc_key_ring ctx) get_probe_for_host token scope w = (Inr s, w1)"
    using assms(1) by (auto simp: validate_using_wrapped_upstream_def split: prod.splits sum.splits)
  from v show ?thesis
  proof (cases rule: validate_wrapped_upstream_cases)
    case (prove blob u now routes w2)
    have "sc_name sc \<in> set (extract_repos_from_scope scope)" using assms(2) by (simp add: extract_repos_from_scope_def)
    with list_all2_left [OF route_all_Inr [OF prove(6)]] show ?thesis by blast
  qed simp
qed

text \<open>A token of the service that allows a push has an authority behind it.\<close>

lemma token_push_asked:
  assumes h: "handle_token sv app (tx_query x) (tx_world x) = (tx_answer x, w')" and push: "token_allows_push verify path (tx_answer x)"
    and sound: "\<And>key kid p jwt p'. ap_sign sv key kid p = Some jwt \<Longrightarrow> verify jwt = Some p' \<Longrightarrow> p' = p"
  obtains cred r sc where "asked sv app x cred r sc" "sc_name sc = path" "''push'' \<in> set (sc_actions sc)"
    "vr_strategy r = ClusterPatStrategy \<longrightarrow> (\<exists>c. vr_cluster_id r = Some c \<and> under_namespace (''cluster/'' @ c) path)"
proof -
  let ?q = "tx_query x" and ?rsp = "tx_answer x"
  have ok: "rp_status ?rsp = 200" using push by (simp add: token_allows_push_def)
  from h show thesis
  proof (cases rule: handle_token_cases)
    case (granted cred r w1 w2)
    let ?scopes = "parse_requested_scopes (tq_scope ?q)"
    obtain access where a: "grant_access (decide_scope (ap_env sv) r) ?scopes = Inr access" "issue_token sv app ?q r access w2 = (?rsp, w')"
      using grant_and_issue_ok [OF granted(6) ok] by blast
    obtain key digest jwt iat expiry rest where i:
        "ap_sign sv key (compute_libtrust_key_id digest) (token_payload app r (tq_service ?q) access iat expiry) = Some jwt"
        "rp_body ?rsp = JObj ((''token'', JStr jwt) # rest)"
      by (rule issue_token_ok [OF a(2) ok])
    have "\<exists>e \<in> set access. sc_type e = ''repository'' \<and> sc_name e = path \<and> ''push'' \<in> set (sc_actions e)"
      unfolding granted_access_entry [symmetric]
      using push i(2) sound [OF i(1)] by (auto simp: token_allows_push_def js_prop_def [of "JObj ((''token'', _) # _)"] split: option.splits)
    then obtain e where e: "e \<in> set access" "sc_type e = ''repository''" "sc_name e = path" "''push'' \<in> set (sc_actions e)" by blast
    then obtain sc where sc: "sc \<in> set ?scopes" "entry_within r e sc"
      using grants.grant_access_shape [OF a(1)] granted_entry_within by auto
    show thesis
    proof (rule that [of cred r sc])
      show "asked sv app x cred r sc" using granted(2-4) sc e by (auto simp: asked_def entry_within_def)
      show "sc_name sc = path" "''push'' \<in> set (sc_actions sc)" using sc(2) e by (auto simp: entry_within_def)
      show "vr_strategy r = ClusterPatStrategy \<longrightarrow> (\<exists>c. vr_cluster_id r = Some c \<and> under_namespace (''cluster/'' @ c) path)"
        using sc(2) e by (auto simp: entry_within_def split: option.splits)
    qed
  qed (use ok in simp_all)
qed

text \<open>What the strategy that accepted the credential adds to that.\<close>

lemma asked_strategy:
  assumes a: "asked sv app x cred r sc" and app: "app = fst (create_app sv config v0)"
  shows "(vr_strategy r = ClusterPatStrategy \<longrightarrow> map_option cp_cluster_id (cluster_entry (aa_context app) (pc_token cred)) = vr_cluster_id r
      \<and> (\<forall>c. vr_cluster_id r = Some c \<longrightarrow> CLUSTER_ID_PATTERN c))
    \<and> (vr_strategy r = WrappedUpstream \<longrightarrow> (\<exists>route. route_mirror_repo_to_upstream (sc_name sc) = Some route))"
proof -
  obtain w1 where v: "validate_presented_token sv (aa_context app) (pc_token cred) (tq_scope (tx_query x)) (tx_world x) = (Inr r, w1)"
      and sc: "sc \<in> set (parse_requested_scopes (tq_scope (tx_query x)))"
    using a by (auto simp: asked_def)
  from v show ?thesis
  proof (cases rule: validate_cases)
    case (wrapped v1 v2)
    from wrapped(4) have "vr_strategy r = WrappedUpstream"
      by (auto simp: validate_using_wrapped_upstream_def Let_def split: prod.splits sum.splits)
    with wrapped_routes [OF wrapped(4) sc] show ?thesis by simp
  next
    case (rest v1)
    from rest(4) show ?thesis
    proof (cases rule: cluster_or_next_cases)
      case (cluster c)
      with created_cluster app show ?thesis by auto
    next
      case (api v2)
      from api_or_fail_cases [OF api(3)] have "vr_strategy r = Api" by blast
      then show ?thesis by simp
    qed
  qed simp
qed

lemma token_push_authorized:
  assumes x: "x \<in> set (pf_tokens s)" "handle_token sv app (tx_query x) (tx_world x) = (tx_answer x, w')"
    and push: "token_allows_push verify path (tx_answer x)"
    and sound: "\<And>key kid p jwt p'. ap_sign sv key kid p = Some jwt \<Longrightarrow> verify jwt = Some p' \<Longrightarrow> p' = p"
    and app: "app = fst (create_app sv config v0)" and ip: "infer_provenance (JStr path) = Some ip"
  shows "token_authority sv app s path ip"
proof -
  obtain cred r sc where a: "asked sv app x cred r sc" "sc_name sc = path" "''push'' \<in> set (sc_actions sc)"
      "vr_strategy r = ClusterPatStrategy \<longrightarrow> (\<exists>c. vr_cluster_id r = Some c \<and> under_namespace (''cluster/'' @ c) path)"
    by (rule token_push_asked [OF x(2) push sound])
  note more = asked_strategy [OF a(1) app]
  have "ip_provenance ip = ClusterSnapshot \<and> ip_cluster_id ip = vr_cluster_id r" if cluster: "vr_strategy r = ClusterPatStrategy"
  proof -
    obtain c where c: "vr_cluster_id r = Some c" "under_namespace (''cluster/'' @ c) path" using a(4) cluster by blast
    with more cluster have "CLUSTER_ID_PATTERN c" by blast
    from under_own_attributed [OF this c(2)] ip c(1) show ?thesis by auto
  qed
  moreover have "rp_status (tx_answer x) = 200" using push by (simp add: token_allows_push_def)
  ultimately show ?thesis using x(1) a(1-3) more unfolding token_authority_def by blast
qed

section \<open>Lemmas: what the other handlers leave alone\<close>

lemma handle_images_db:
  assumes "handle_images sv app q w = (rsp, w')"
  shows "aw_db w' = aw_db w"
proof (cases "extract_presented_credentials (iq_authorization q)")
  case (Inr cred)
  obtain res w1 where v: "validate_presented_token sv (aa_context app) (pc_token cred) JNull w = (res, w1)" by force
  have w1: "aw_db w1 = aw_db w" using more_auth [OF validate_presented_token_more [OF v]] by simp
  have "w' = w1 \<or> w' = w1\<lparr>aw_sessions := Suc (aw_sessions w1)\<rparr>"
    using assms Inr v by (auto simp: handle_images_def Let_def split: sum.splits if_splits option.splits)
  with w1 show ?thesis by auto
qed (use assms in \<open>simp add: handle_images_def\<close>)

lemma fetch_request_more: "fetch_request sv req w = (res, w') \<Longrightarrow> world.more w' = world.more w"
  by (drule fetch_request_next) simp

lemma copy_manifest_more:
  assumes "copy_manifest sv v t media_type w = (res, w')"
  shows "world.more w' = world.more w"
proof -
  consider "w' = w" | r w1 ds outs where "mount_loop sv (src_repo v) (dst_repo v) (import_options sv) ds outs w = (r, w1)"
      "w' = w1 \<or> put_manifest sv v t media_type w1 = (res, w')"
    using assms by (auto simp: copy_manifest_def mount_all_blobs_def split: option.splits if_splits prod.splits)
  then show ?thesis
  proof cases
    case 2
    from mount_loop_requests [OF 2(1)] have "world.more w1 = world.more w" by auto
    with 2(2) show ?thesis
      by (auto simp: put_manifest_def write_manifest_def split: prod.splits sum.splits if_splits dest!: fetch_request_more)
  qed simp
qed

lemma import_more:
  assumes "import_image sv authorization body w = (res, w')"
  shows "world.more w' = world.more w"
  using assms
proof (cases rule: import_cases)
  case copied
  with head_manifest_digest_sent [OF copied(3)] fetch_request_more [OF copied(4)] copy_manifest_more [OF copied(7)] show ?thesis by simp
qed (auto dest!: head_manifest_digest_sent fetch_request_more)

lemma blob_presence_more:
  assumes "blob_presence sv authorization repository digest w = (res, w')"
  shows "world.more w' = world.more w"
  using assms by (auto simp: blob_presence_def Let_def dest!: fetch_request_more split: if_splits prod.splits sum.splits)

lemma accepted_import_iff:
  "accepted_import env request = Some v \<longleftrightarrow> import_authorized env (fst request) \<and> validate_import (snd request) = Inr v"
  by (cases "validate_import (snd request)"; cases "import_authorized env (fst request)") (simp_all add: accepted_import_def)

lemma import_authorized_push:
  assumes "request \<in> set (pf_imports s)" and "accepted_import env request = Some v" and "dst_repo v = path"
    and "infer_provenance (JStr path) = Some ip"
  shows "import_authority env s path ip"
proof -
  from assms(2) have v: "import_authorized env (fst request)" "validate_import (snd request) = Inr v" by (simp_all add: accepted_import_iff)
  have "under_namespace (''cluster/'' @ vd_cluster_id v) path"
    using assms(3) by (auto simp: dst_repo_def under_namespace_iff)
  with under_own_attributed validated_fields [OF v(2)] assms(4)
  have "ip_provenance ip = ClusterSnapshot" "ip_cluster_id ip = Some (vd_cluster_id v)" by fastforce+
  with assms(1,3) v show ?thesis unfolding import_authority_def by (auto intro!: bexI [of _ request])
qed

section \<open>The invariant\<close>

text \<open>The ghosts are what happened.\<close>

definition exchanges_happened :: "app_services \<Rightarrow> auth_app \<Rightarrow> platform \<Rightarrow> bool" where
  "exchanges_happened sv app s \<longleftrightarrow>
     (\<forall>x \<in> set (pf_tokens s). \<exists>w'. handle_token sv app (tx_query x) (tx_world x) = (tx_answer x, w'))"

lemma authentic_pushable: "authentic_event env verify s event \<Longrightarrow> event_pushable (pushes_named (may_be_pushed env verify s)) event"
  unfolding authentic_event_def event_pushable_def pushes_named_def by metis

lemma platform_step_grows:
  "platform_step sv app hv verify s s' \<Longrightarrow> set (pf_tokens s) \<subseteq> set (pf_tokens s') \<and> set (pf_imports s) \<subseteq> set (pf_imports s')"
  by (erule platform_stepE) auto

text \<open>
  What a step does to the tables: a token request's sync, or what the webhook's statements do with pushes that are allowed.
\<close>

lemma platform_step_effect:
  assumes step: "platform_step sv app hv verify s s'"
    and inv: "I (pf_db s)"
    and hooks: "webhook_invariant I (hs_gen hv) (pushes_named (may_be_pushed (hs_env hv) verify s))"
    and sync: "\<And>x cred r w1 w'. set (pf_tokens s') = insert x (set (pf_tokens s)) \<Longrightarrow> tx_world x = (pf_auth s)\<lparr>aw_db := pf_db s\<rparr> \<Longrightarrow>
      extract_presented_credentials (tq_authorization (tx_query x)) = Inr cred \<Longrightarrow>
      validate_presented_token sv (aa_context app) (pc_token cred) (tq_scope (tx_query x)) (tx_world x) = (Inr r, w1) \<Longrightarrow>
      vr_strategy r = Api \<Longrightarrow> presented_identity_matches_user (pc_identity cred) (tq_account (tx_query x)) (vr_profile r) \<Longrightarrow>
      sync_body (ap_gen sv) (vr_profile r) (parse_requested_scopes (tq_scope (tx_query x))) (pf_db s) = Inr ((), pf_db s') \<Longrightarrow> I (pf_db s')"
  shows "I (pf_db s') \<and> (exchanges_happened sv app s \<longrightarrow> exchanges_happened sv app s')"
  using step
proof cases
  case (asked_token q rsp w')
  let ?x = "\<lparr>tx_query = q, tx_world = (pf_auth s)\<lparr>aw_db := pf_db s\<rparr>, tx_answer = rsp\<rparr>"
  from asked_token(2) have "I (aw_db w')"
  proof (cases rule: handle_token_db)
    case same
    with inv show ?thesis by simp
  next
    case (synced cred r w1)
    from sync [of ?x cred r w1] synced asked_token(1) show ?thesis by simp
  qed
  with asked_token show ?thesis by (auto simp: exchanges_happened_def)
next
  case (asked_images iq rsp w')
  from handle_images_db [OF asked_images(2)] inv asked_images(1) show ?thesis by (auto simp: exchanges_happened_def)
next
  case (notified authorization body status v')
  have "I (hw_db v')"
  proof (rule webhook_invariant.hook_keeps [OF hooks refl _ notified(2)])
    fix evs assume a: "authorization = Some (expected_hook_authorization (hs_env hv))" "events_of body = Some evs"
    show "\<forall>ev \<in> set evs. event_pushable (pushes_named (may_be_pushed (hs_env hv) verify s)) ev"
    proof
      fix ev assume "ev \<in> set evs"
      with a notified(3) have "authentic_event (hs_env hv) verify s ev" by blast
      then show "event_pushable (pushes_named (may_be_pushed (hs_env hv) verify s)) ev" by (rule authentic_pushable)
    qed
  qed (use inv in simp)
  with notified(1) show ?thesis by (auto simp: exchanges_happened_def)
next
  case (asked_import authorization body res v')
  have "hw_db v' = pf_db s" using hook_frame [OF import_more [OF asked_import(2)]] by simp
  with asked_import(1) inv show ?thesis by (auto simp: exchanges_happened_def)
next
  case (asked_presence authorization repository digest res' v')
  have "hw_db v' = pf_db s" using hook_frame [OF blob_presence_more [OF asked_presence(2)]] by simp
  with asked_presence(1) inv show ?thesis by (auto simp: exchanges_happened_def)
next
  case (reaped ids removed v')
  from webhook_invariant.reap_keeps [OF hooks _ reaped(2)] inv reaped(1) show ?thesis by (auto simp: exchanges_happened_def)
qed

definition platform_inv :: "app_services \<Rightarrow> auth_app \<Rightarrow> hook_services \<Rightarrow> (string \<Rightarrow> js option) \<Rightarrow> platform \<Rightarrow> bool" where
  "platform_inv sv app hv verify s \<longleftrightarrow>
     db_inv (hs_gen hv) (pf_db s) \<and> backed (may_be_pushed (hs_env hv) verify s) (pf_db s) \<and> exchanges_happened sv app s"

lemma platform_step_keeps:
  assumes step: "platform_step sv app hv verify s s'" and gen: "ap_gen sv = hs_gen hv" and inv: "platform_inv sv app hv verify s"
  shows "platform_inv sv app hv verify s'"
proof -
  let ?may = "may_be_pushed (hs_env hv) verify s"
  have "(db_inv (hs_gen hv) (pf_db s') \<and> backed ?may (pf_db s')) \<and> (exchanges_happened sv app s \<longrightarrow> exchanges_happened sv app s')"
  proof (rule platform_step_effect [OF step _ authority.webhook_invariant_axioms])
    fix x cred r w1
    assume "sync_body (ap_gen sv) (vr_profile r) (parse_requested_scopes (tq_scope (tx_query x))) (pf_db s) = Inr ((), pf_db s')"
    with gen inv show "db_inv (hs_gen hv) (pf_db s') \<and> backed ?may (pf_db s')"
      using sync_body_inv [of "hs_gen hv"] sync_body_backed [of "hs_gen hv"] unfolding platform_inv_def by metis
  qed (use inv in \<open>simp add: platform_inv_def\<close>)
  moreover have "may_be_pushed (hs_env hv) verify s' path" if "?may path" for path
    using that platform_step_grows [OF step] by (auto simp: may_be_pushed_def list_ex_iff)
  ultimately show ?thesis using backed_mono inv unfolding platform_inv_def by blast
qed

lemma platform_reachable_inv:
  "platform_reachable sv app hv verify db s \<Longrightarrow> ap_gen sv = hs_gen hv \<Longrightarrow> db_inv (hs_gen hv) db \<Longrightarrow> db_images db = [] \<Longrightarrow>
     platform_inv sv app hv verify s"
proof (induction rule: platform_reachable.induct)
  case (opened a h)
  then show ?case by (simp add: platform_inv_def backed_iff exchanges_happened_def)
qed (blast intro: platform_step_keeps)

section \<open>Properties\<close>

text \<open>
  C1. Every image in the tables was pushed by somebody who was allowed to. In whatever order requests, notifications, imports
  and reaps arrive, with whatever contents and faults, an image the tables hold has the provenance, the cluster and the repository its path stands for,
  and behind that path is a token request of the run whose credential was accepted and that asked to push there (the cluster's own,
  where a cluster's token was used), an authorized import into that cluster, or the mirror.
\<close>

theorem images_trace_to_authority:
  assumes run: "platform_reachable sv app hv verify db s"
    and fresh: "db_images db = []" "db_inv (hs_gen hv) db" and gen: "ap_gen sv = hs_gen hv"
    and app: "app = fst (create_app sv config v0)"
    and sound: "\<forall>key kid p jwt p'. ap_sign sv key kid p = Some jwt \<longrightarrow> verify jwt = Some p' \<longrightarrow> p' = p"
    and image: "(i, r) \<in> set (join_repos (pf_db s))"
  shows "\<exists>path ip. infer_provenance (JStr path) = Some ip \<and> attributed ip i r
    \<and> (token_authority sv app s path ip \<or> import_authority (hs_env hv) s path ip \<or> starts_with ''mirror/'' path)"
proof -
  have inv: "platform_inv sv app hv verify s" by (rule platform_reachable_inv [OF run gen fresh(2,1)])
  with image obtain ip path where ip: "infer_provenance (JStr path) = Some ip" "attributed ip i r" "may_be_pushed (hs_env hv) verify s path"
    by (auto simp: platform_inv_def backed_def pushes_named_def)
  from ip(3) consider (token) x where "x \<in> set (pf_tokens s)" "token_allows_push verify path (tx_answer x)"
    | (import) request v where "request \<in> set (pf_imports s)" "accepted_import (hs_env hv) request = Some v" "dst_repo v = path"
    | (mirror) "starts_with ''mirror/'' path"
    by (auto simp: may_be_pushed_def list_ex_iff)
  then show ?thesis
  proof cases
    case token
    with inv obtain w' where "handle_token sv app (tx_query x) (tx_world x) = (tx_answer x, w')"
      by (auto simp: platform_inv_def exchanges_happened_def)
    from token_push_authorized [OF token(1) this token(2) _ app ip(1)] sound ip show ?thesis by blast
  next
    case import
    with ip import_authorized_push show ?thesis by blast
  qed (use ip in blast)
qed

section \<open>Instances\<close>

text \<open>A deployment with two static tokens, whose signer signs the payload of one request, and a webhook whose reaper cannot connect.\<close>

definition demo_config :: auth_service_config where
  "demo_config = \<lparr>ac_validation_service_url = None, ac_auth_pat_token = Some ''pat-1, pat-2'', ac_auth_pat_tokens = None,
     ac_auth_cluster_pat_tokens = None, ac_jwt_private_key = Some ''key'', ac_issuer = None, ac_default_registry_service = None,
     ac_upstream_auth_wrap_keys = None\<rparr>"

definition demo_created :: auth_app where
  "demo_created = fst (create_app demo_app_services demo_config demo_auth_world)"

definition demo_accepted :: validation_result where
  "demo_accepted = \<lparr>vr_strategy = Pat, vr_profile = sp_profile (the (vc_static demo_ctx)), vr_cluster_id = None, vr_cred_identity = None\<rparr>"

definition demo_access :: "requested_scope list" where
  "demo_access = [\<lparr>sc_type = ''repository'', sc_name = ''bob/app'', sc_actions = [''pull'', ''push'']\<rparr>]"

definition demo_payload :: js where
  "demo_payload = token_payload demo_created demo_accepted JNull demo_access 1000 1000"

definition demo_signing :: app_services where
  "demo_signing = demo_app_services\<lparr>sv_date := \<lambda>_. 1000, ap_gen := demo_gen,
     ap_sign := \<lambda>key kid p. if p = demo_payload then Some ''t'' else None\<rparr>"

definition demo_verify :: "string \<Rightarrow> js option" where
  "demo_verify jwt = (if jwt = ''t'' then Some demo_payload else None)"

definition demo_receiving :: hook_services where
  "demo_receiving = demo_hook_services\<lparr>hs_session := \<lambda>n. if n = 0 then Connected NoFault else ConnectFails\<rparr>"

definition demo_notification :: js where
  "demo_notification = JObj [(''events'', JArr [JObj [(''action'', JStr ''push''),
     (''target'', JObj [(''repository'', JStr ''bob/app''), (''tag'', JStr ''a''), (''digest'', JStr ''sha256:e'')])]])]"

lemma demo_created_create: "demo_created = fst (create_app demo_signing demo_config demo_auth_world)"
  by (simp add: demo_created_def create_app_def build_validation_context_def case_prod_beta' Let_def)

lemma demo_created_context:
  "vc_static (aa_context demo_created) = vc_static demo_ctx" "aa_jwt_private_key demo_created = Some ''key''"
  by (simp_all add: demo_created_def create_app_def build_validation_context_def demo_config_def demo_ctx_def char_code_backslash
      case_prod_beta' Let_def)

lemma demo_token:
  "\<exists>rsp w'. handle_token demo_signing demo_created demo_query (demo_auth_world\<lparr>aw_db := db\<rparr>) = (rsp, w') \<and> aw_db w' = db
     \<and> token_allows_push demo_verify ''bob/app'' rsp"
proof -
  let ?w = "demo_auth_world\<lparr>aw_db := db\<rparr>"
  obtain c where c: "vc_static demo_ctx = Some c" "''pat-2'' \<in> set (sp_tokens c)"
    using demo_ctx_lists(1) by (auto simp: static_lists_def split: option.splits)
  then obtain w1 where v: "validate_presented_token demo_signing (aa_context demo_created) ''pat-2'' scope ?w = (Inr demo_accepted, w1)" for scope
    using demo_ctx_lists(2)
    by (simp add: validate_presented_token_def static_pat_Some demo_created_context demo_accepted_def case_prod_beta' Let_def)
  have q: "tq_scope demo_query = JStr ''repository:bob/app:pull,push''" "tq_authorization demo_query = Some ''Bearer pat-2''" "tq_service demo_query = JNull"
    by (simp_all add: demo_query_def)
  have strategy: "vr_strategy demo_accepted = Pat" by (simp add: demo_accepted_def)
  have g: "grant_access (decide_scope (ap_env demo_signing) demo_accepted) demo_access = Inr demo_access"
    by (simp add: demo_access_def decide_scope_def strategy allow_def)
  have h: "handle_token demo_signing demo_created demo_query ?w = issue_token demo_signing demo_created demo_query demo_accepted demo_access w1"
    unfolding handle_token_def q demo_request Let_def using v g
    by (simp add: MAX_REQUESTED_SCOPES_def demo_request strategy grant_and_issue_def demo_access_def)
  obtain rsp w' where i: "issue_token demo_signing demo_created demo_query demo_accepted demo_access w1 = (rsp, w')" by force
  then have "rp_status rsp = 200 \<and> js_prop (rp_body rsp) ''token'' = JStr ''t''"
    by (auto simp: issue_token_def demo_created_context q demo_signing_def demo_app_services_def demo_payload_def truthy_def read_date_def js_prop_def Let_def)
  then have "token_allows_push demo_verify ''bob/app'' rsp"
    by (simp add: token_allows_push_def demo_verify_def demo_payload_def granted_access_entry) (simp add: demo_access_def)
  moreover have "aw_db w' = db"
    using more_auth [OF validate_presented_token_more [OF v]] issue_token_more [of demo_signing demo_created demo_query demo_accepted demo_access w1]
      i more_auth [of w' w1] more_cached [of w' w1] by simp
  ultimately show ?thesis using h i by auto
qed

definition demo_bare :: database where
  "demo_bare = demo_database\<lparr>db_images := []\<rparr>"

lemma demo_bare_inv: "db_inv (hs_gen demo_receiving) demo_bare"
  using filter_images_inv [OF demo_database_inv, of "\<lambda>_. False"] by (simp add: demo_bare_def demo_receiving_def demo_hook_services_def)

lemma demo_provenance: "infer_provenance (JStr ''bob/app'') = Some \<lparr>ip_provenance = Pushed, ip_organization = ''bob'',
    ip_name = ''app'', ip_cluster_id = None, ip_upstream_ref = None\<rparr>"
  by code_simp

lemma demo_pushed:
  "\<exists>i db. push_body demo_gen 10 \<lparr>ip_provenance = Pushed, ip_organization = ''bob'', ip_name = ''app'', ip_cluster_id = None, ip_upstream_ref = None\<rparr>
      ''a'' t keep_latest_retention (Some ''sha256:e'') demo_bare = Inr (''r1'', db)
    \<and> db_images db = [i] \<and> db_repos db = db_repos demo_database \<and> im_repository_id i = ''r1''"
  by (simp add: push_body_def upsert_repo_def upsert_image_def first_error_def map_filter_simps check_varchar_def check_image_def
      check_opt_def check_text_def code_points_def demo_database_def keep_latest_retention_def excluded_row_def same_image_def merge_image_def
      demo_image_def coalesce_def timestamp_of_ms_def demo_bare_def Let_def)

text \<open>A push over a connection that works, and a reap over none.\<close>

lemma timed_record_frame:
  "hw_sessions (record_postgres_sync sv out d (snd (elapsed_seconds_since sv t v))) = hw_sessions v"
  "hw_db (record_immediate_reap sv out d (snd (elapsed_seconds_since sv t v))) = hw_db v"
  using hook_frame [of "record_postgres_sync sv out d (snd (elapsed_seconds_since sv t v))" v]
    hook_frame [of "record_immediate_reap sv out d (snd (elapsed_seconds_since sv t v))" v] by simp_all

lemma sync_push_connected:
  assumes "hs_session sv (hw_sessions w) = Connected NoFault" and "body (hs_pg_now sv (hw_statements w)) (hw_db w) = Inr (x, db')"
  shows "\<exists>w'. sync_push sv body repos w = (add_repository x repos, w') \<and> hw_db w' = db' \<and> hw_sessions w' = Suc (hw_sessions w)"
  using assms by (simp add: sync_push_def run_transaction_def timed_record_frame case_prod_beta' Let_def)

lemma reap_repository_disconnected:
  assumes "hs_session sv (hw_sessions w) = ConnectFails"
  shows "hw_db (reap_repository sv x w) = hw_db w"
  using assms by (simp add: reap_repository_def reap_obsolete_images_def timed_record_frame case_prod_beta' Let_def)

lemma demo_hooked:
  "\<exists>status v' i. hook demo_receiving (Some ''Token undefined'') demo_notification (demo_hook_world\<lparr>hw_db := demo_bare\<rparr>) = (status, v')
    \<and> db_images (hw_db v') = [i] \<and> db_repos (hw_db v') = db_repos demo_database \<and> im_repository_id i = ''r1''"
proof -
  let ?t = "JObj [(''repository'', JStr ''bob/app''), (''tag'', JStr ''a''), (''digest'', JStr ''sha256:e'')]"
  let ?e = "JObj [(''action'', JStr ''push''), (''target'', ?t)]"
  let ?w1 = "record_registry_event_batch demo_receiving 1 (record_webhook_authorization demo_receiving ''accepted'' (demo_hook_world\<lparr>hw_db := demo_bare\<rparr>))"
  let ?w2 = "record_registry_event demo_receiving ''push'' ?w1"
  let ?at = "fst (read_date demo_receiving ?w2)"
  let ?w3 = "cache_push demo_receiving ''bob/app:a'' ?at (snd (read_date demo_receiving ?w2))"
  obtain i db where push: "push_body demo_gen 10 \<lparr>ip_provenance = Pushed, ip_organization = ''bob'', ip_name = ''app'', ip_cluster_id = None, ip_upstream_ref = None\<rparr>
      ''a'' ?at keep_latest_retention (Some ''sha256:e'') demo_bare = Inr (''r1'', db)"
    "db_images db = [i]" "db_repos db = db_repos demo_database" "im_repository_id i = ''r1''"
    using demo_pushed [of ?at] by blast
  have w2: "hw_db ?w2 = demo_bare" "hw_sessions ?w2 = 0"
    using hook_frame [of ?w2 "demo_hook_world\<lparr>hw_db := demo_bare\<rparr>"] by (simp_all add: demo_hook_world_def)
  have plain: "parse_tag_retention ''a'' ?at = keep_latest_retention"
    by (simp add: parse_tag_retention_def ttl_tag_match_def last_index_of_def Let_def)
  have sv: "hs_session demo_receiving 0 = Connected NoFault" "hs_session demo_receiving (Suc n) = ConnectFails"
    "hs_pg_now demo_receiving n = 10" "hs_gen demo_receiving = demo_gen" for n
    by (simp_all add: demo_receiving_def demo_hook_services_def)
  let ?body = "\<lambda>now. push_body demo_gen now \<lparr>ip_provenance = Pushed, ip_organization = ''bob'', ip_name = ''app'', ip_cluster_id = None, ip_upstream_ref = None\<rparr>
      ''a'' ?at keep_latest_retention (Some ''sha256:e'')"
  obtain w4 where w4: "sync_push demo_receiving ?body [] ?w3 = ([''r1''], w4)" "hw_db w4 = db" "hw_sessions w4 = Suc 0"
    using sync_push_connected [of demo_receiving ?w3 ?body "''r1''" db "[]"] push(1) w2 sv by (auto simp: add_repository_def)
  have target: "js_prop ?t ''repository'' = JStr ''bob/app''" "js_prop ?t ''tag'' = JStr ''a''" "js_prop ?t ''digest'' = JStr ''sha256:e''"
    "js_prop ?e ''action'' = JStr ''push''" "js_prop ?e ''target'' = ?t"
    by (simp_all add: js_prop_def)
  have "handle_push demo_receiving ?t [] ?w2 = ([''r1''], w4)"
    using w4(1) plain
    by (simp add: handle_push_def target js_truthy_def text_or_null_def param_text_def demo_provenance sv case_prod_beta' Let_def)
  then have e: "process_event demo_receiving ?e [] ?w1 = ([''r1''], w4)"
    unfolding process_event_def target by (simp add: js_truthy_def Let_def)
  have events: "events_of demo_notification = Some [?e]" "batch_size demo_notification = 1"
    by (simp_all add: events_of_def batch_size_def demo_notification_def js_prop_def js_truthy_def js_nullish_def)
  let ?w5 = "record_repositories_scheduled_for_reap demo_receiving 1 w4"
  have w5: "hw_db ?w5 = db" "hw_sessions ?w5 = Suc 0" using hook_frame [of ?w5 w4] w4 by simp_all
  have "hook demo_receiving (Some ''Token undefined'') demo_notification (demo_hook_world\<lparr>hw_db := demo_bare\<rparr>)
      = (Some 200, mark_successful_webhook demo_receiving (reap_repository demo_receiving ''r1'' ?w5))"
    using e by (simp add: hook_def expected_hook_authorization_def demo_receiving_def [THEN arg_cong, of hs_env] demo_hook_services_def
        process_registry_events_def events js_nullish_def)
  moreover have "hw_db (mark_successful_webhook demo_receiving (reap_repository demo_receiving ''r1'' ?w5)) = db"
    using hook_frame [of "mark_successful_webhook demo_receiving (reap_repository demo_receiving ''r1'' ?w5)" "reap_repository demo_receiving ''r1'' ?w5"]
      reap_repository_disconnected [of demo_receiving ?w5] w5 sv by simp
  ultimately show ?thesis using push by auto
qed

lemma demo_run:
  "\<exists>s i r. platform_reachable demo_signing demo_created demo_receiving demo_verify demo_bare s
     \<and> (i, r) \<in> set (join_repos (pf_db s)) \<and> re_name r = ''app''"
proof -
  obtain rsp w' where t: "handle_token demo_signing demo_created demo_query (demo_auth_world\<lparr>aw_db := demo_bare\<rparr>) = (rsp, w')"
      "aw_db w' = demo_bare" "token_allows_push demo_verify ''bob/app'' rsp"
    using demo_token by blast
  obtain status v' i where h: "hook demo_receiving (Some ''Token undefined'') demo_notification (demo_hook_world\<lparr>hw_db := demo_bare\<rparr>) = (status, v')"
      "db_images (hw_db v') = [i]" "db_repos (hw_db v') = db_repos demo_database" "im_repository_id i = ''r1''"
    using demo_hooked by blast
  let ?s0 = "\<lparr>pf_auth = demo_auth_world, pf_hooks = demo_hook_world, pf_db = demo_bare, pf_tokens = [], pf_imports = []\<rparr>"
  let ?s1 = "?s0\<lparr>pf_auth := w', pf_db := aw_db w',
      pf_tokens := \<lparr>tx_query = demo_query, tx_world = (pf_auth ?s0)\<lparr>aw_db := pf_db ?s0\<rparr>, tx_answer = rsp\<rparr> # pf_tokens ?s0\<rparr>"
  let ?s2 = "?s1\<lparr>pf_hooks := v', pf_db := hw_db v'\<rparr>"
  have "platform_step demo_signing demo_created demo_receiving demo_verify ?s0 ?s1"
    by (rule platform_step.asked_token [of _ _ demo_query]) (simp add: t(1))
  moreover have "platform_step demo_signing demo_created demo_receiving demo_verify ?s1 ?s2"
  proof (rule platform_step.notified)
    show "hook demo_receiving (Some ''Token undefined'') demo_notification ((pf_hooks ?s1)\<lparr>hw_db := pf_db ?s1\<rparr>) = (status, v')"
      using h(1) t(2) by simp
    show "Some ''Token undefined'' = Some (expected_hook_authorization (hs_env demo_receiving)) \<longrightarrow>
      (\<forall>events event. events_of demo_notification = Some events \<longrightarrow> event \<in> set events \<longrightarrow> authentic_event (hs_env demo_receiving) demo_verify ?s1 event)"
      using t(3) by (auto simp: authentic_event_def may_be_pushed_def events_of_def demo_notification_def js_prop_def js_truthy_def js_nullish_def)
  qed
  ultimately have "platform_reachable demo_signing demo_created demo_receiving demo_verify demo_bare ?s2"
    using platform_reachable.opened platform_reachable.moved by meson
  moreover have "(i, \<lparr>re_id = ''r1'', re_organization = ''bob'', re_name = ''app'', re_user_id = Some ''u1''\<rparr>) \<in> set (join_repos (pf_db ?s2))"
    using h(2-4) by (simp add: join_repos_iff) (simp add: demo_database_def)
  ultimately show ?thesis by fastforce
qed

theorem images_trace_to_authority_witness:
  "\<exists>s i r. platform_reachable demo_signing demo_created demo_receiving demo_verify demo_bare s
     \<and> (i, r) \<in> set (join_repos (pf_db s)) \<and> re_name r = ''app''
     \<and> (\<exists>path ip. infer_provenance (JStr path) = Some ip \<and> attributed ip i r
        \<and> (token_authority demo_signing demo_created s path ip \<or> import_authority (hs_env demo_receiving) s path ip \<or> starts_with ''mirror/'' path))"
proof -
  obtain s i r where run: "platform_reachable demo_signing demo_created demo_receiving demo_verify demo_bare s"
      "(i, r) \<in> set (join_repos (pf_db s))" "re_name r = ''app''"
    using demo_run by blast
  have "db_images demo_bare = []" "ap_gen demo_signing = hs_gen demo_receiving"
    by (simp_all add: demo_bare_def demo_signing_def demo_receiving_def demo_hook_services_def)
  moreover have "\<forall>key kid p jwt p'. ap_sign demo_signing key kid p = Some jwt \<longrightarrow> demo_verify jwt = Some p' \<longrightarrow> p' = p"
    by (simp add: demo_signing_def demo_verify_def)
  ultimately show ?thesis
    using images_trace_to_authority [OF run(1) _ demo_bare_inv _ demo_created_create _ run(2)] run by blast
qed

end
