(* ===== verification/RegistryAuth.thy ===== *)
theory RegistryAuth
  imports Platform
begin

text \<open>
  What the services do at a registry that asks for a token, as the configurations in the repository have it
  (\<open>registry/config.yml\<close>, \<open>helm/aocr/files/registry-config.yml\<close>: \<open>auth: token\<close>). No request of the reaper, of an
  import or of the blob check has an \<open>Authorization\<close> header.
\<close>

section \<open>A registry that demands a token\<close>

definition bears_token :: "http_request \<Rightarrow> bool" where
  "bears_token req \<longleftrightarrow> list_ex (\<lambda>(name, _). to_lower name = ''authorization'') (rq_headers req)"

definition demands_token :: "'a services_scheme \<Rightarrow> bool" where
  "demands_token sv \<longleftrightarrow> (\<forall>sent req. \<not> bears_token req \<longrightarrow> (case sv_net sv sent req of Inl _ \<Rightarrow> True | Inr r \<Rightarrow> rs_status r = 401))"

lemma upkeep_bears_no_token [simp]:
  "\<not> bears_token (registry_request sv verb path reference)" "\<not> bears_token (blob_request sv repository digest)"
  "\<not> bears_token (manifest_reference_request sv verb path reference)"
proof -
  have "to_lower ''accept'' \<noteq> ''authorization''" "to_lower ''Accept'' \<noteq> ''authorization''" by code_simp+
  then show "\<not> bears_token (registry_request sv verb path reference)" "\<not> bears_token (blob_request sv repository digest)"
    "\<not> bears_token (manifest_reference_request sv verb path reference)"
    by (simp_all add: bears_token_def registry_request_def blob_request_def manifest_reference_request_def import_accept_def manifest_headers_def)
qed

lemma demanded_token:
  assumes "demands_token sv" and "\<not> bears_token req" and "fetch_request sv req w = (Inr r, w')"
  shows "rs_status r = 401"
  using fetch_request_ok [OF assms(3)] assms(1,2) by (force simp: demands_token_def split: sum.splits)

lemma demanded_token_unconfirmed:
  assumes "demands_token sv"
  shows "\<not> registry_confirms sv sent ir"
proof -
  have "rs_status resp = 401" if "sv_net sv pre (registry_request sv verb path reference) = Inr resp" for pre verb path reference resp
  proof -
    have "case sv_net sv pre (registry_request sv verb path reference) of Inl _ \<Rightarrow> True | Inr r \<Rightarrow> rs_status r = 401"
      using assms upkeep_bears_no_token(1) unfolding demands_token_def by blast
    with that show ?thesis by simp
  qed
  then show ?thesis unfolding registry_confirms_def by fastforce
qed

section \<open>What a wrapped credential may push\<close>

text \<open>
  Outside \<open>aocr/\<close> a repository of this registry has the name of a repository at Docker Hub, and a credential that may read
  the one obtains every action it asks for on the other: the strategy's proof is about the upstream, the grant is not restricted to pulls.
\<close>

lemma own_name_routes_to_hub:
  assumes "path \<noteq> []" and "path \<noteq> ''aocr''" and "\<not> starts_with ''aocr/'' path"
  shows "route_mirror_repo_to_upstream path = Some \<lparr>ur_host = ''docker.io'', ur_repo = path\<rparr>"
proof -
  have "match_prefix PREFIX_TABLE path = None"
    using assms(3) by (auto simp: PREFIX_TABLE_def starts_with_iff)
  with assms show ?thesis by (simp add: route_mirror_repo_to_upstream_def)
qed

lemma grant_without_policy:
  "vr_strategy r \<noteq> ClusterPatStrategy \<Longrightarrow> grant_access (decide_scope env r) scs = Inr scs"
  by (induction scs) (simp_all add: decide_scope_def allow_def)

lemma wrapped_credential_may_push:
  assumes "length (parse_requested_scopes (tq_scope q)) \<le> MAX_REQUESTED_SCOPES"
    and "extract_presented_credentials (tq_authorization q) = Inr cred"
    and "validate_presented_token sv (aa_context app) (pc_token cred) (tq_scope q) w = (Inr r, w1)" and "vr_strategy r = WrappedUpstream"
    and key: "aa_jwt_private_key app = Some key" "key \<noteq> []" "ap_key_digest sv key = Some digest"
    and signs: "\<And>p. ap_sign sv key (compute_libtrust_key_id digest) p \<noteq> None"
    and sound: "\<And>kid p jwt. ap_sign sv key kid p = Some jwt \<Longrightarrow> verify jwt = Some p"
    and sc: "sc \<in> set (parse_requested_scopes (tq_scope q))" "sc_type sc = ''repository''" "''push'' \<in> set (sc_actions sc)"
  shows "token_allows_push verify (sc_name sc) (fst (handle_token sv app q w))"
proof -
  let ?scs = "parse_requested_scopes (tq_scope q)"
  let ?payload = "token_payload app r (tq_service q) ?scs (fst (read_date sv w1)) (fst (read_date sv (snd (read_date sv w1))))"
  have h: "handle_token sv app q w = issue_token sv app q r ?scs w1"
    using assms(1-4) by (simp add: handle_token_def grant_and_issue_def grant_without_policy)
  obtain jwt where jwt: "ap_sign sv key (compute_libtrust_key_id digest) ?payload = Some jwt" using signs by blast
  have "rp_status (fst (issue_token sv app q r ?scs w1)) = 200
      \<and> js_prop (rp_body (fst (issue_token sv app q r ?scs w1))) ''token'' = JStr jwt"
    using key jwt by (simp add: issue_token_def truthy_def js_prop_def case_prod_beta' Let_def)
  moreover have "\<exists>e \<in> set ?scs. sc_type e = ''repository'' \<and> sc_name e = sc_name sc \<and> ''push'' \<in> set (sc_actions e)"
    using sc by blast
  ultimately show ?thesis
    unfolding h token_allows_push_def by (simp add: sound [OF jwt] granted_access_entry)
qed

section \<open>Properties\<close>

text \<open>
  C21. At such a registry the services' upkeep comes to nothing: a reap leaves every row, whatever is due, no import answers that the image is
  there, and no blob is ever reported.
\<close>

theorem upkeep_needs_a_token:
  assumes "demands_token sv"
  shows "hw_db (snd (reap_obsolete_images sv ids w)) = hw_db w
    \<and> (\<forall>answer. fst (import_image sv authorization body w) = Some answer \<longrightarrow> aa_status answer \<notin> {200, 201})
    \<and> aa_status (fst (blob_presence sv authorization repository digest w)) \<noteq> 200"
proof (intro conjI allI impI)
  obtain res w' where r: "reap_obsolete_images sv ids w = (res, w')" by force
  then show "hw_db (snd (reap_obsolete_images sv ids w)) = hw_db w"
  proof (rule reap_effect)
    fix removed reqs
    assume db: "hw_db w' = (hw_db w)\<lparr>db_images := filter (\<lambda>i. im_id i \<notin> removed) (db_images (hw_db w))\<rparr>"
      and conf: "\<And>x. x \<in> removed \<Longrightarrow> \<exists>rows ir. select_stale_images (hs_collate sv) (hs_ties sv) (reap_params_of (hs_env sv) ids)
        (hs_pg_now sv (hw_statements w)) (hw_db w) = Some rows \<and> ir \<in> set rows \<and> im_id (fst ir) = x \<and> registry_confirms sv (w_sent w') ir"
    have "removed = {}" using conf demanded_token_unconfirmed [OF assms] by blast
    with db r show ?thesis by simp
  qed
next
  fix answer assume a: "fst (import_image sv authorization body w) = Some answer"
  show "aa_status answer \<notin> {200, 201}"
  proof (cases "import_authorized (hs_env sv) authorization \<and> (\<exists>v. validate_import body = Inr v)")
    case False
    with a show ?thesis by (auto simp: import_image_def answer_error_def split: if_splits sum.splits)
  next
    case True
    then obtain v where v: "import_authorized (hs_env sv) authorization" "validate_import body = Inr v" by blast
    obtain d w1 where h: "head_manifest_digest sv (dst_repo v) (dst_tag v) w = (d, w1)" by force
    then have "d = None"
      by (auto simp: head_manifest_digest_def split: prod.splits sum.splits if_splits dest: demanded_token [OF assms upkeep_bears_no_token(3)])
    obtain x w2 where g: "fetch_request sv (manifest_reference_request sv ''GET'' (src_repo v) (vd_digest v)) w1 = (x, w2)" by force
    then have "\<forall>r. x = Inr r \<longrightarrow> rs_status r = 401" using demanded_token [OF assms upkeep_bears_no_token(3)] by blast
    with a v h g \<open>d = None\<close> show ?thesis
      by (auto simp: import_image_def truthy_def answer_error_def split: sum.splits)
  qed
next
  obtain x w1 where f: "fetch_request sv (blob_request sv repository digest) w = (x, w1)" by force
  then have "\<forall>r. x = Inr r \<longrightarrow> rs_status r = 401" using demanded_token [OF assms upkeep_bears_no_token(2)] by blast
  with f show "aa_status (fst (blob_presence sv authorization repository digest w)) \<noteq> 200"
    by (auto simp: blob_presence_def answer_error_def split: sum.splits)
qed

section \<open>Instances\<close>

text \<open>A registry that answers 202 to a token and 401 to anything else.\<close>

definition demo_strict :: hook_services where
  "demo_strict = demo_hook_services\<lparr>sv_net := \<lambda>_ req. Inr \<lparr>rs_status = (if bears_token req then 202 else 401), rs_headers = [], rs_data = JStr []\<rparr>\<rparr>"

theorem upkeep_needs_a_token_witness:
  "hw_db (snd (reap_obsolete_images demo_strict None demo_hook_world)) = demo_database
   \<and> fst (reap_obsolete_images demo_strict None demo_hook_world) = Some 1"
proof -
  have "demands_token demo_strict" by (simp add: demands_token_def demo_strict_def)
  from upkeep_needs_a_token [OF this, of None demo_hook_world] have "hw_db (snd (reap_obsolete_images demo_strict None demo_hook_world)) = demo_database"
    by (simp add: demo_hook_world_def)
  moreover have "fst (reap_obsolete_images demo_strict None demo_hook_world) = Some 1"
    using demo_stale by (simp add: reap_obsolete_images_def demo_strict_def demo_hook_services_def demo_hook_world_def Let_def)
  ultimately show ?thesis by blast
qed

end
