(* ===== verification/Ownership.thy ===== *)
theory Ownership
  imports CreateApp
begin

text \<open>
  Whose a repository is. A token request of a user the validation service vouches for writes the owner of every repository
  it names (\<open>auth/src/createApp.ts\<close>, the statement \<open>ON CONFLICT ... DO UPDATE SET user_id\<close>), and the listing of
  \<open>/v1/images\<close> is by owner.
\<close>

section \<open>Owners after a sync\<close>

text \<open>The repository is there, and its owner is the user.\<close>

definition the_repository :: "string \<Rightarrow> string \<Rightarrow> repo_row \<Rightarrow> bool" where
  "the_repository org repo r \<longleftrightarrow> re_organization r = org \<and> re_name r = repo"

definition claimed :: "string \<Rightarrow> string \<Rightarrow> string \<Rightarrow> database \<Rightarrow> bool" where
  "claimed user_id org repo db \<longleftrightarrow> filter (the_repository org repo) (db_repos db) \<noteq> []
     \<and> (\<forall>r \<in> set (filter (the_repository org repo) (db_repos db)). re_user_id r = Some user_id)"

lemma filter_the_repository:
  "filter (the_repository o' r') (map (\<lambda>r. if the_repository org repo r then r\<lparr>re_user_id := v\<rparr> else r) rs)
     = map (\<lambda>r. if the_repository org repo r then r\<lparr>re_user_id := v\<rparr> else r) (filter (the_repository o' r') rs)"
  by (induction rs) (simp_all add: the_repository_def)

lemma upsert_repo_owner_claims:
  assumes "upsert_repo_owner gen org repo u db = Inr (x, db')"
  shows "claimed u org repo db' \<and> (\<forall>o' r'. claimed u o' r' db \<longrightarrow> claimed u o' r' db')"
proof (cases "list_ex (the_repository org repo) (db_repos db)")
  case True
  with assms have db': "db_repos db' = map (\<lambda>r. if the_repository org repo r then r\<lparr>re_user_id := Some u\<rparr> else r) (db_repos db)"
    by (auto simp: upsert_repo_owner_def the_repository_def [abs_def] split: option.splits if_splits)
  have "filter (the_repository org repo) (db_repos db) \<noteq> []" using True by (auto simp: list_ex_iff filter_empty_conv)
  then have "claimed u org repo db'" by (simp add: claimed_def db' filter_the_repository)
  moreover have "claimed u o' r' db'" if "claimed u o' r' db" for o' r'
    using that by (auto simp: claimed_def db' filter_the_repository)
  ultimately show ?thesis by blast
next
  case False
  with assms have db': "db_repos db' = db_repos db @ [\<lparr>re_id = gen (db_next_id db), re_organization = org, re_name = repo, re_user_id = Some u\<rparr>]"
    by (auto simp: upsert_repo_owner_def the_repository_def [abs_def] split: option.splits if_splits)
  have "filter (the_repository org repo) (db_repos db) = []" using False by (auto simp: list_ex_iff filter_empty_conv)
  then have "claimed u org repo db'" by (simp add: claimed_def db' the_repository_def)
  moreover have "claimed u o' r' db'" if "claimed u o' r' db" for o' r'
    using that by (auto simp: claimed_def db')
  ultimately show ?thesis by blast
qed

text \<open>The repositories a scope names to the sync.\<close>

definition names_repository :: "requested_scope \<Rightarrow> string \<Rightarrow> string \<Rightarrow> bool" where
  "names_repository sc org repo \<longleftrightarrow> sc_type sc = ''repository'' \<and> org \<noteq> [] \<and> repo \<noteq> []
     \<and> (\<exists>rest. split_on (\<lambda>c. c = CHR ''/'') (sc_name sc) = org # repo # rest)"

lemma sync_repos_claims:
  "sync_repos gen u scs db = Inr (x, db') \<Longrightarrow>
     (\<forall>sc \<in> set scs. \<forall>org repo. names_repository sc org repo \<longrightarrow> claimed u org repo db')
     \<and> (\<forall>org repo. claimed u org repo db \<longrightarrow> claimed u org repo db')"
proof (induction scs arbitrary: db)
  case (Cons sc scs)
  show ?case
  proof (cases "\<exists>org repo. names_repository sc org repo")
    case True
    then obtain org repo where sc: "names_repository sc org repo" by blast
    with Cons.prems obtain db1 where up: "upsert_repo_owner gen org repo u db = Inr ((), db1)" "sync_repos gen u scs db1 = Inr (x, db')"
      by (auto simp: names_repository_def split: sum.splits)
    have "org' = org \<and> repo' = repo" if "names_repository sc org' repo'" for org' repo'
      using sc that by (auto simp: names_repository_def)
    with upsert_repo_owner_claims [OF up(1)] Cons.IH [OF up(2)] show ?thesis by auto
  next
    case False
    with Cons.prems have "sync_repos gen u scs db = Inr (x, db')"
      by (auto simp: names_repository_def split: list.splits if_splits)
    with Cons.IH False show ?thesis by auto
  qed
qed simp

lemma sync_repos_users: "sync_repos gen u scs db = Inr (x, db') \<Longrightarrow> db_users db' = db_users db"
proof (induction gen u scs db rule: sync_repos.induct)
  case (2 gen u sc scs db)
  have "db_users db1 = db_users db" if "upsert_repo_owner gen org repo u db = Inr (y, db1)" for org repo y db1
    using that by (auto simp: upsert_repo_owner_def split: option.splits if_splits)
  with 2 show ?case by (auto split: if_splits list.splits sum.splits)
qed simp

lemma upsert_user_external:
  assumes "upsert_user gen p db = Inr (u, db')"
  shows "\<exists>v \<in> set (db_users db'). us_id v = u \<and> us_external_id v = up_external_id p"
proof (cases "find (\<lambda>u. us_external_id u = up_external_id p) (db_users db)")
  case (Some v)
  let ?g = "\<lambda>v. v\<lparr>us_username := up_username p, us_email := up_email p, us_display_name := up_display_name p,
      us_avatar_url := up_avatar_url p, us_auth_provider := up_auth_provider p, us_profile := up_profile p\<rparr>"
  have v: "v \<in> set (db_users db)" "us_external_id v = up_external_id p" using find_mem [OF Some] by simp_all
  have "u = us_id v" "db_users db' = map (\<lambda>w. if us_external_id w = up_external_id p then ?g w else w) (db_users db)"
    using assms Some by (auto simp: upsert_user_def split: option.splits)
  with v show ?thesis by (intro bexI [of _ "?g v"]) (auto intro: rev_image_eqI)
next
  case None
  with assms show ?thesis by (auto simp: upsert_user_def Let_def split: option.splits if_splits)
qed

lemma sync_body_claims:
  assumes "sync_body gen p scs db = Inr (x, db')" and "sc \<in> set scs" and "names_repository sc org repo"
  shows "(\<exists>rp \<in> set (db_repos db'). the_repository org repo rp)
    \<and> (\<forall>rp \<in> set (db_repos db'). the_repository org repo rp \<longrightarrow> owned_by db' (vp_external_id p) rp)"
proof -
  obtain u db1 where up: "upsert_user gen (user_params_of p) db = Inr (u, db1)" "sync_repos gen u scs db1 = Inr (x, db')"
    using assms(1) by (auto simp: sync_body_def split: sum.splits)
  have "claimed u org repo db'" using sync_repos_claims [OF up(2)] assms(2,3) by blast
  moreover have "db_users db' = db_users db1" using sync_repos_users [OF up(2)] .
  moreover have "\<exists>v \<in> set (db_users db1). us_id v = u \<and> us_external_id v = vp_external_id p"
    using upsert_user_external [OF up(1)] by (simp add: user_params_of_def)
  ultimately show ?thesis by (auto simp: claimed_def owned_by_def list_ex_iff filter_empty_conv)
qed

section \<open>Properties\<close>

text \<open>
  C22. Asking is owning: a token request that changes the database makes the caller the owner of every repository it names,
  whoever owned it before and whatever actions were asked for, so that the listing of that caller includes it from then on.
\<close>

theorem ownership_follows_request:
  assumes h: "handle_token sv app q w = (rsp, w')" and changed: "aw_db w' \<noteq> aw_db w"
    and sc: "sc \<in> set (parse_requested_scopes (tq_scope q))" "names_repository sc org repo"
  shows "\<exists>cred r w1. extract_presented_credentials (tq_authorization q) = Inr cred
    \<and> validate_presented_token sv (aa_context app) (pc_token cred) (tq_scope q) w = (Inr r, w1) \<and> vr_strategy r = Api
    \<and> (\<exists>rp \<in> set (db_repos (aw_db w')). the_repository org repo rp)
    \<and> (\<forall>rp \<in> set (db_repos (aw_db w')). the_repository org repo rp \<longrightarrow> owned_by (aw_db w') (vp_external_id (vr_profile r)) rp)"
  using h
proof (cases rule: handle_token_db)
  case (synced cred r w1)
  with sync_body_claims [OF synced(5) sc] show ?thesis by blast
qed (use changed in simp)

section \<open>Instances\<close>

text \<open>A repository of another user, and a request to pull from it.\<close>

definition demo_taken :: database where
  "demo_taken = demo_database\<lparr>db_users := db_users demo_database @ [\<lparr>us_id = ''u9'', us_external_id = ''7'', us_username = None, us_email = None,
       us_display_name = None, us_avatar_url = None, us_auth_provider = None, us_profile = JNull\<rparr>],
     db_repos := [\<lparr>re_id = ''r1'', re_organization = ''bob'', re_name = ''app'', re_user_id = Some ''u9''\<rparr>]\<rparr>"

definition demo_pull :: token_query where
  "demo_pull = \<lparr>tq_account = JNull, tq_service = JNull, tq_scope = JStr ''repository:bob/app:pull'', tq_authorization = Some ''Bearer pat-2''\<rparr>"

definition demo_owner_app :: auth_app where
  "demo_owner_app = demo_app\<lparr>aa_context := demo_api_context\<rparr>"

definition demo_owner_world :: auth_world where
  "demo_owner_world = demo_auth_world\<lparr>aw_db := demo_taken\<rparr>"

lemma demo_pull_scopes: "parse_requested_scopes (JStr ''repository:bob/app:pull'') = [\<lparr>sc_type = ''repository'', sc_name = ''bob/app'', sc_actions = [''pull'']\<rparr>]"
  by code_simp

lemma demo_pull_names: "names_repository \<lparr>sc_type = ''repository'', sc_name = ''bob/app'', sc_actions = [''pull'']\<rparr> ''bob'' ''app''"
  by (simp add: names_repository_def js_defs)

lemma demo_profile_params: "user_params_of demo_profile = \<lparr>up_external_id = ''42'', up_username = None, up_email = None, up_display_name = None,
    up_avatar_url = None, up_auth_provider = None, up_profile = JObj [(''id'', JStr ''42'')]\<rparr>"
  by code_simp

lemma demo_taken_synced:
  "\<exists>db'. sync_body gen demo_profile [\<lparr>sc_type = ''repository'', sc_name = ''bob/app'', sc_actions = [''pull'']\<rparr>] demo_taken = Inr ((), db')
     \<and> db' \<noteq> demo_taken"
  unfolding sync_body_def demo_profile_params
  by (simp add: upsert_user_def check_user_def first_error_def map_filter_simps check_varchar_def check_text_def check_opt_def code_points_def
      upsert_repo_owner_def demo_taken_def demo_database_def js_defs)

lemma sync_database_connected:
  assumes "ap_session sv (aw_sessions w) = Connected NoFault" and "sync_body (ap_gen sv) p scs (aw_db w) = Inr ((), db')"
  shows "\<exists>w'. sync_database sv p scs w = (True, w') \<and> aw_db w' = db'"
proof -
  have read: "aw_db (snd (read_hrtime sv w)) = aw_db w" "aw_sessions (snd (read_hrtime sv w)) = aw_sessions w"
    by (simp_all add: read_hrtime_def)
  have frame: "aw_db (record_database_sync sv out d (snd (elapsed_seconds_since sv t v))) = aw_db v" for out d t and v :: "'b auth_world_scheme"
    using more_auth [of "record_database_sync sv out d (snd (elapsed_seconds_since sv t v))" v]
      more_cached [of "record_database_sync sv out d (snd (elapsed_seconds_since sv t v))" v]
    by (simp add: record_defs)
  show ?thesis
    using assms by (simp add: sync_database_def run_transaction_def read frame case_prod_beta' Let_def)
qed

lemma demo_owner_handled:
  assumes sync: "sync_body (ap_gen demo_api_services) demo_profile [\<lparr>sc_type = ''repository'', sc_name = ''bob/app'', sc_actions = [''pull'']\<rparr>] db
    = Inr ((), db')"
  shows "\<exists>rsp w'. handle_token demo_api_services demo_owner_app demo_pull (demo_auth_world\<lparr>aw_db := db\<rparr>) = (rsp, w') \<and> aw_db w' = db'"
proof -
  let ?r = "\<lparr>vr_strategy = Api, vr_profile = demo_profile, vr_cluster_id = None, vr_cred_identity = None\<rparr>"
  let ?scs = "[\<lparr>sc_type = ''repository'', sc_name = ''bob/app'', sc_actions = [''pull'']\<rparr>]"
  let ?w = "demo_auth_world\<lparr>aw_db := db\<rparr>"
  obtain w1 where v: "validate_presented_token demo_api_services demo_api_context ''pat-2'' (tq_scope demo_pull) ?w = (Inr ?r, w1)"
    using demo_api_validates by blast
  have "aw_db w1 = db" using more_auth [OF validate_presented_token_more [OF v]] by simp
  with sync obtain w2 where w2: "sync_database demo_api_services demo_profile ?scs w1 = (True, w2)" "aw_db w2 = db'"
    using sync_database_connected [of demo_api_services w1 demo_profile ?scs db'] by (auto simp: demo_api_services_def demo_app_services_def)
  obtain rsp w' where g: "grant_and_issue demo_api_services demo_owner_app demo_pull ?r ?scs w2 = (rsp, w')" by force
  have "world.more w' = world.more w2" using grant_and_issue_more g by (metis snd_conv)
  then have "aw_db w' = db'" using w2(2) more_cached more_auth by metis
  moreover have "presented_identity_matches_user (pc_identity demo_pat) JNull demo_profile" by code_simp
  then have "handle_token demo_api_services demo_owner_app demo_pull ?w = (rsp, w')"
    using v w2(1) g
    by (simp add: handle_token_def demo_pull_def demo_owner_app_def demo_request demo_pull_scopes MAX_REQUESTED_SCOPES_def)
  ultimately show ?thesis by blast
qed

theorem ownership_follows_request_witness:
  "\<exists>rsp w'. handle_token demo_api_services demo_owner_app demo_pull demo_owner_world = (rsp, w')
     \<and> (\<forall>rp \<in> set (db_repos (aw_db demo_owner_world)). owned_by (aw_db demo_owner_world) ''7'' rp)
     \<and> (\<exists>rp x. rp \<in> set (db_repos (aw_db w')) \<and> the_repository ''bob'' ''app'' rp \<and> owned_by (aw_db w') x rp)"
proof -
  obtain db' where db': "sync_body (ap_gen demo_api_services) demo_profile [\<lparr>sc_type = ''repository'', sc_name = ''bob/app'', sc_actions = [''pull'']\<rparr>]
      demo_taken = Inr ((), db')" "db' \<noteq> demo_taken"
    using demo_taken_synced by blast
  obtain rsp w' where h: "handle_token demo_api_services demo_owner_app demo_pull demo_owner_world = (rsp, w')"
      "aw_db w' \<noteq> aw_db demo_owner_world"
    using demo_owner_handled [OF db'(1)] db'(2) by (auto simp: demo_owner_world_def)
  have sc: "\<lparr>sc_type = ''repository'', sc_name = ''bob/app'', sc_actions = [''pull'']\<rparr> \<in> set (parse_requested_scopes (tq_scope demo_pull))"
    by (simp add: demo_pull_def demo_pull_scopes)
  have "\<forall>rp \<in> set (db_repos (aw_db demo_owner_world)). owned_by (aw_db demo_owner_world) ''7'' rp"
    by (simp add: demo_owner_world_def demo_taken_def demo_database_def owned_by_def)
  with ownership_follows_request [OF h sc demo_pull_names] h(1) show ?thesis by blast
qed

end
