(* ===== verification/Listing.thy ===== *)
theory Listing
  imports Platform Ownership
begin

text \<open>
  Who may see an image, over a whole run of the system of \<open>Platform\<close>: the listing is by owner, and the tables have an owner
  for a repository only where that user asked a token for it. \<open>owners_asked\<close> is the invariant, a second instance of the
  contract \<open>webhook_invariant\<close>: the webhook never writes an owner.
\<close>

section \<open>Owners that asked\<close>

text \<open>\<open>P x org name\<close>: the user with the external id \<open>x\<close> asked for the repository.\<close>

definition owners_asked :: "(string \<Rightarrow> string \<Rightarrow> string \<Rightarrow> bool) \<Rightarrow> database \<Rightarrow> bool" where
  "owners_asked P db \<longleftrightarrow> (\<forall>r \<in> set (db_repos db). \<forall>u. re_user_id r = Some u \<longrightarrow>
     (\<exists>v \<in> set (db_users db). us_id v = u \<and> P (us_external_id v) (re_organization r) (re_name r)))"

lemma owners_asked_mono:
  "owners_asked P db \<Longrightarrow> (\<And>x org name. P x org name \<Longrightarrow> Q x org name) \<Longrightarrow> owners_asked Q db"
  unfolding owners_asked_def by blast

lemma owner_asked:
  assumes inv: "db_inv gen db" and o: "owners_asked P db" and r: "r \<in> set (db_repos db)" "owned_by db x r"
  shows "P x (re_organization r) (re_name r)"
proof -
  obtain v where v: "v \<in> set (db_users db)" "re_user_id r = Some (us_id v)" "us_external_id v = x"
    using r(2) by (auto simp: owned_by_def list_ex_iff)
  with o r(1) obtain v' where v': "v' \<in> set (db_users db)" "us_id v' = us_id v" "P (us_external_id v') (re_organization r) (re_name r)"
    unfolding owners_asked_def by blast
  have "inj_on us_id (set (db_users db))" using inv by (simp add: db_inv_def db_wf_def distinct_map)
  from inj_onD [OF this v'(2) v'(1) v(1)] v' v(3) show ?thesis by simp
qed

section \<open>Every statement keeps it\<close>

text \<open>No statement renames a user, and an owner that is new was written by the sync of a request that names the repository.\<close>

lemma upsert_user_keeps_ids:
  assumes "upsert_user gen p db = Inr (u, db')" and "v \<in> set (db_users db)"
  shows "\<exists>v' \<in> set (db_users db'). us_id v' = us_id v \<and> us_external_id v' = us_external_id v"
proof -
  let ?f = "\<lambda>v. if us_external_id v = up_external_id p
    then v\<lparr>us_username := up_username p, us_email := up_email p, us_display_name := up_display_name p,
      us_avatar_url := up_avatar_url p, us_auth_provider := up_auth_provider p, us_profile := up_profile p\<rparr> else v"
  from assms(1) consider "db_users db' = map ?f (db_users db)" | n where "db_users db' = db_users db @ [n]"
    by (auto simp: upsert_user_def Let_def split: option.splits if_splits)
  then show ?thesis
  proof cases
    case 1
    with assms(2) show ?thesis by (intro bexI [of _ "?f v"]) auto
  qed (use assms(2) in auto)
qed

lemma upsert_user_repos: "upsert_user gen p db = Inr (u, db') \<Longrightarrow> db_repos db' = db_repos db"
  by (auto simp: upsert_user_def Let_def split: option.splits if_splits)

lemma upsert_repo_owner_rows:
  assumes "upsert_repo_owner gen org repo u db = Inr (x, db')" and "r \<in> set (db_repos db')"
  shows "r \<in> set (db_repos db) \<or> (re_user_id r = Some u \<and> the_repository org repo r)"
  using assms by (auto simp: upsert_repo_owner_def the_repository_def split: option.splits if_splits)

lemma sync_repos_rows:
  "sync_repos gen u scs db = Inr (x, db') \<Longrightarrow> r \<in> set (db_repos db') \<Longrightarrow>
     r \<in> set (db_repos db) \<or> (re_user_id r = Some u \<and> (\<exists>sc \<in> set scs. names_repository sc (re_organization r) (re_name r)))"
proof (induction scs arbitrary: db)
  case (Cons sc scs)
  show ?case
  proof (cases "\<exists>org repo. names_repository sc org repo")
    case True
    then obtain org repo where sc: "names_repository sc org repo" by blast
    with Cons.prems obtain db1 where up: "upsert_repo_owner gen org repo u db = Inr ((), db1)" "sync_repos gen u scs db1 = Inr (x, db')"
      by (auto simp: names_repository_def split: sum.splits)
    from Cons.IH [OF up(2) Cons.prems(2)] upsert_repo_owner_rows [OF up(1)] sc show ?thesis
      by (auto simp: the_repository_def)
  next
    case False
    with Cons.prems(1) have "sync_repos gen u scs db = Inr (x, db')"
      by (auto simp: names_repository_def split: list.splits if_splits)
    from Cons.IH [OF this Cons.prems(2)] show ?thesis by auto
  qed
qed simp

lemma sync_body_owners:
  assumes s: "sync_body gen p scs db = Inr (x, db')" and o: "owners_asked P db"
    and new: "\<And>sc org name. sc \<in> set scs \<Longrightarrow> names_repository sc org name \<Longrightarrow> P (vp_external_id p) org name"
  shows "owners_asked P db'"
  unfolding owners_asked_def
proof safe
  obtain u db1 where up: "upsert_user gen (user_params_of p) db = Inr (u, db1)" "sync_repos gen u scs db1 = Inr (x, db')"
    using s by (auto simp: sync_body_def split: sum.splits)
  have users: "db_users db' = db_users db1" by (rule sync_repos_users [OF up(2)])
  fix r w assume r: "r \<in> set (db_repos db')" "re_user_id r = Some w"
  from sync_repos_rows [OF up(2) r(1)] upsert_user_repos [OF up(1)]
  consider (old) "r \<in> set (db_repos db)" | (claimed) sc where "sc \<in> set scs" "names_repository sc (re_organization r) (re_name r)" "w = u"
    using r(2) by auto
  then show "\<exists>v \<in> set (db_users db'). us_id v = w \<and> P (us_external_id v) (re_organization r) (re_name r)"
  proof cases
    case old
    with o r(2) obtain v where v: "v \<in> set (db_users db)" "us_id v = w" "P (us_external_id v) (re_organization r) (re_name r)"
      unfolding owners_asked_def by blast
    from upsert_user_keeps_ids [OF up(1) v(1)] v users show ?thesis by metis
  next
    case claimed
    from upsert_user_external [OF up(1)] new [OF claimed(1,2)] claimed(3) users show ?thesis by (auto simp: user_params_of_def)
  qed
qed

lemma upsert_repo_owners:
  assumes "upsert_repo gen org name db = Inr (i, db')" and "owners_asked P db"
  shows "owners_asked P db'"
  using assms by (auto simp: upsert_repo_def owners_asked_def Let_def split: option.splits if_splits)

lemma upsert_image_owners:
  assumes "upsert_image gen now p db = Inr (x, db')" and "owners_asked P db"
  shows "owners_asked P db'"
  using assms by (auto simp: upsert_image_def owners_asked_def Let_def split: option.splits if_splits)

lemma push_body_owners:
  assumes "push_body gen now ip tag t ret digest db = Inr (x, db')" and "owners_asked P db"
  shows "owners_asked P db'"
  using assms upsert_repo_owners upsert_image_owners by (auto simp: push_body_def split: sum.splits)

lemma losses_owners: "owners_asked P (db\<lparr>db_images := filter Q (db_images db)\<rparr>) = owners_asked P db"
  by (simp add: owners_asked_def)

lemma update_last_pulled_owners: "owners_asked P (update_last_pulled now org name tag db) = owners_asked P db"
  by (simp add: owners_asked_def update_last_pulled_def)

interpretation owners: webhook_invariant "\<lambda>db. db_inv gen db \<and> owners_asked P db" gen "pushes_named may" for gen P may
  by unfold_locales
    (auto intro: push_body_inv push_body_owners filter_images_inv update_last_pulled_inv simp: losses_owners update_last_pulled_owners)

section \<open>The invariant of the run\<close>

text \<open>Some request of the run, with a credential the validation service knows as this user, asked a token for the repository.\<close>

definition asked_as :: "app_services \<Rightarrow> auth_app \<Rightarrow> platform \<Rightarrow> string \<Rightarrow> string \<Rightarrow> string \<Rightarrow> bool" where
  "asked_as sv app s x org name \<longleftrightarrow> (\<exists>ex \<in> set (pf_tokens s). \<exists>cred r sc. asked sv app ex cred r sc
     \<and> vr_strategy r = Api \<and> vp_external_id (vr_profile r) = x \<and> names_repository sc org name)"

lemma asked_as_mono: "asked_as sv app s x org name \<Longrightarrow> set (pf_tokens s) \<subseteq> set (pf_tokens s') \<Longrightarrow> asked_as sv app s' x org name"
  unfolding asked_as_def by blast

lemma platform_step_owners:
  assumes step: "platform_step sv app hv verify s s'" and gen: "ap_gen sv = hs_gen hv"
    and inv: "db_inv (hs_gen hv) (pf_db s) \<and> owners_asked (asked_as sv app s) (pf_db s)"
  shows "db_inv (hs_gen hv) (pf_db s') \<and> owners_asked (asked_as sv app s') (pf_db s')"
proof -
  let ?P = "asked_as sv app s'"
  have mono: "owners_asked ?P db" if "owners_asked (asked_as sv app s) db" for db
    using owners_asked_mono [OF that, of ?P] platform_step_grows [OF step] by (blast intro: asked_as_mono)
  have "(db_inv (hs_gen hv) (pf_db s') \<and> owners_asked ?P (pf_db s')) \<and> (exchanges_happened sv app s \<longrightarrow> exchanges_happened sv app s')"
  proof (rule platform_step_effect [OF step _ owners.webhook_invariant_axioms])
    fix x cred r w1
    assume new: "set (pf_tokens s') = insert x (set (pf_tokens s))"
      and caller: "extract_presented_credentials (tq_authorization (tx_query x)) = Inr cred"
        "validate_presented_token sv (aa_context app) (pc_token cred) (tq_scope (tx_query x)) (tx_world x) = (Inr r, w1)"
        "vr_strategy r = Api" "presented_identity_matches_user (pc_identity cred) (tq_account (tx_query x)) (vr_profile r)"
      and s: "sync_body (ap_gen sv) (vr_profile r) (parse_requested_scopes (tq_scope (tx_query x))) (pf_db s) = Inr ((), pf_db s')"
    have asks: "?P (vp_external_id (vr_profile r)) org name"
      if "sc \<in> set (parse_requested_scopes (tq_scope (tx_query x)))" "names_repository sc org name" for sc org name
    proof -
      have "asked sv app x cred r sc" using caller that by (auto simp: asked_def names_repository_def)
      with new caller(3) that(2) show ?thesis unfolding asked_as_def by blast
    qed
    have "owners_asked ?P (pf_db s')" by (rule sync_body_owners [OF s]) (use inv mono asks in blast)+
    with sync_body_inv [of "hs_gen hv"] s gen inv show "db_inv (hs_gen hv) (pf_db s') \<and> owners_asked ?P (pf_db s')" by auto
  qed (use inv mono in blast)
  then show ?thesis by blast
qed

lemma platform_reachable_owners:
  "platform_reachable sv app hv verify db s \<Longrightarrow> ap_gen sv = hs_gen hv \<Longrightarrow> db_inv (hs_gen hv) db \<Longrightarrow>
     (\<And>r. r \<in> set (db_repos db) \<Longrightarrow> re_user_id r = None) \<Longrightarrow>
     db_inv (hs_gen hv) (pf_db s) \<and> owners_asked (asked_as sv app s) (pf_db s)"
proof (induction rule: platform_reachable.induct)
  case (opened a h)
  then show ?case by (simp add: owners_asked_def)
next
  case (moved s s')
  from platform_step_owners [OF moved.hyps(2) moved.prems(1) moved.IH [OF moved.prems]] show ?case .
qed

section \<open>Properties\<close>


section \<open>Instances\<close>

text \<open>A repository without an owner and its image; the caller asks to pull from it, and then for the listing.\<close>

definition demo_unowned :: database where
  "demo_unowned = \<lparr>db_users = [], db_repos = [\<lparr>re_id = ''0'', re_organization = ''bob'', re_name = ''app'', re_user_id = None\<rparr>],
     db_images = [(demo_image ''1'' ''a'' 5)\<lparr>im_repository_id := ''0''\<rparr>], db_next_id = 2\<rparr>"

definition demo_counting :: hook_services where
  "demo_counting = demo_receiving\<lparr>hs_gen := nat_to_string\<rparr>"

lemma demo_unowned_inv: "db_inv (hs_gen demo_counting) demo_unowned"
proof -
  have "nat_to_string 0 = ''0''" "nat_to_string 1 = ''1''" by code_simp+
  moreover have "nat_to_string 0 \<in> nat_to_string ` {..<2}" "nat_to_string 1 \<in> nat_to_string ` {..<2}" by simp_all
  ultimately have "''0'' \<in> nat_to_string ` {..<2}" "''1'' \<in> nat_to_string ` {..<2}" by simp_all
  then show ?thesis
    by (simp add: demo_counting_def db_inv_def db_wf_def demo_unowned_def demo_image_def inj_def nat_to_string_inject)
qed

lemma demo_unowned_synced:
  "\<exists>db'. sync_body (ap_gen demo_api_services) demo_profile [\<lparr>sc_type = ''repository'', sc_name = ''bob/app'', sc_actions = [''pull'']\<rparr>] demo_unowned
      = Inr ((), db')
    \<and> (let r = \<lparr>re_id = ''0'', re_organization = ''bob'', re_name = ''app'', re_user_id = Some (ap_gen demo_api_services 2)\<rparr> in
        ((demo_image ''1'' ''a'' 5)\<lparr>im_repository_id := ''0''\<rparr>, r) \<in> set (join_repos db') \<and> owned_by db' ''42'' r)"
  unfolding sync_body_def demo_profile_params
  by (simp add: upsert_user_def check_user_def first_error_def map_filter_simps check_varchar_def check_text_def check_opt_def code_points_def
      upsert_repo_owner_def demo_unowned_def join_repos_def owned_by_def demo_image_def js_defs Let_def image_iff)

text \<open>The first page shows something if there is something to show.\<close>

lemma first_page_nonempty:
  assumes "is_plan plan" and "list_images_for_external_id plan fault db x limit 0 = Some p" and "1 \<le> limit"
    and "(i, r) \<in> set (join_repos db)" and "owned_by db x r"
  shows "pg_rows p \<noteq> []"
proof -
  let ?joined = "filter (\<lambda>(i, r). owned_by db x r) (join_repos db)"
  have p: "p = trim_overflow (window (limit + 1) 0 (map select_projection (plan ?joined))) limit"
    using assms(2) by (auto simp: list_images_for_external_id_def run_list_query_def build_user_list_query_def split: if_splits)
  have "plan ?joined \<noteq> []" using is_plan_set [OF assms(1), of ?joined] assms(4,5) by fastforce
  with assms(3) show ?thesis by (simp add: p trim_overflow_def window_def)
qed

lemma demo_seen_run:
  "\<exists>s i r. platform_reachable demo_api_services demo_owner_app demo_counting demo_verify demo_unowned s
     \<and> (i, r) \<in> set (join_repos (pf_db s)) \<and> owned_by (pf_db s) ''42'' r"
proof -
  obtain db' i r where db': "sync_body (ap_gen demo_api_services) demo_profile
        [\<lparr>sc_type = ''repository'', sc_name = ''bob/app'', sc_actions = [''pull'']\<rparr>] demo_unowned = Inr ((), db')"
      and image: "(i, r) \<in> set (join_repos db')" "owned_by db' ''42'' r"
    using demo_unowned_synced by (auto simp: Let_def)
  obtain rsp w' where h: "handle_token demo_api_services demo_owner_app demo_pull (demo_auth_world\<lparr>aw_db := demo_unowned\<rparr>) = (rsp, w')"
      "aw_db w' = db'"
    using demo_owner_handled [OF db'] by blast
  let ?s0 = "\<lparr>pf_auth = demo_auth_world, pf_hooks = demo_hook_world, pf_db = demo_unowned, pf_tokens = [], pf_imports = []\<rparr>"
  let ?s1 = "?s0\<lparr>pf_auth := w', pf_db := aw_db w',
      pf_tokens := \<lparr>tx_query = demo_pull, tx_world = (pf_auth ?s0)\<lparr>aw_db := pf_db ?s0\<rparr>, tx_answer = rsp\<rparr> # pf_tokens ?s0\<rparr>"
  have "platform_step demo_api_services demo_owner_app demo_counting demo_verify ?s0 ?s1"
    by (rule platform_step.asked_token) (simp add: h(1))
  then have "platform_reachable demo_api_services demo_owner_app demo_counting demo_verify demo_unowned ?s1"
    using platform_reachable.opened platform_reachable.moved by meson
  moreover have "pf_db ?s1 = db'" using h(2) by simp
  ultimately show ?thesis using image by metis
qed


end
