(* ===== verification/Spec2Isabelle.thy ===== *)
theory Spec2Isabelle
  imports Interleave Toast MobileHook StoreRuns MetricsRegistry Bootstrap Sidebar WebPage WebComponents ReapCommand
    RegistryAuth Ownership Listing Conformance
begin

text \<open>
  AOCR is a private container registry: a Distribution registry with two TypeScript services of its own
  and a small web page. This development models those services.

  \<^bold>\<open>The program.\<close> A client that wants to push or pull asks the \<^emph>\<open>token service\<close> (\<open>auth/src\<close>) for a token.
  The service reads who is asking from the Authorization header, tries four ways to validate it
  (a configured static PAT, a PAT of one cluster, a wrapped upstream credential, an external validation
  service), decides for each requested resource which actions are granted, records user and repositories
  in Postgres and signs the token. It also lists images. The registry reports every push, pull and
  delete to the \<^emph>\<open>webhook service\<close> (\<open>hooks/src\<close>), which keeps the table of images and their retention, reaps
  what is due (at once after a push, and from a scheduled process), answers whether a blob is present, and
  imports mirrored images into a cluster's namespace. Both services and the reapers share one database. The page shows how to
  use all this, in a component library with some state of its own.

  \<^bold>\<open>The theories.\<close>

  Shared: \<open>Prelude_JS\<close> (strings, Maps, the collections \<open>js_defs\<close> and \<open>js_intros\<close>), \<open>Js_Value\<close> (untyped values, numbers),
  \<open>Json\<close> and \<open>Codec\<close> (the library's encodings), \<open>World\<close> (network, clocks, metric calls) and \<open>Metrics\<close>
  (\<open>metrics.ts\<close> of both services: what is recorded), \<open>MetricsRegistry\<close> (its declarations, and that every recording fits them). \<open>Database\<close> holds the tables and every SQL statement of both services, with
  column checks, transactions, their faults, and the invariant \<open>db_inv\<close>; its locale \<open>image_store\<close> is what the writers share.
  \<open>Bootstrap\<close> is how both start (\<open>server.ts\<close>, \<open>logger.ts\<close>, \<open>commands/hooks.ts\<close>).

  Token service: \<open>Scope\<close> (\<open>scope.ts\<close>), \<open>Scope_Policy\<close> (locale: what any scope decision owes the token
  endpoint), \<open>ClusterPat\<close> (\<open>clusterPat.ts\<close>), \<open>Route\<close>, \<open>Wrap\<close>, \<open>ProofCache\<close>, \<open>Probe\<close> and \<open>Strategy\<close> (\<open>upstreamAuth/\<close>;
  \<open>Probe\<close> covers \<open>index.ts\<close> and both adapters, its locale \<open>upstream_probe\<close> is the contract of an adapter; the locale
  \<open>proof_store\<close> is that of the cache), \<open>Interleave\<close> (the strategy's loop cut at its awaits), \<open>KeyId\<close> and \<open>ServerHelpers\<close>
  (\<open>serverHelpers.ts\<close>), \<open>ImageList\<close> (\<open>imageList.ts\<close>; locale \<open>paged_listing\<close>), \<open>CreateApp\<close> (\<open>createApp.ts\<close>: both endpoints, from
  the query to the answer).

  Webhook service: \<open>TagRetention\<close> (\<open>util/tagRetention.ts\<close>), \<open>HookWorld\<close> (\<open>util/database.ts\<close>, \<open>util/redis.ts\<close>, the
  service's state and oracles), \<open>ImageRetention\<close> (\<open>util/imageRetention.ts\<close>: configuration, the selection query, the reap),
  \<open>HookEvents\<close> (\<open>controllers/hookEvents.ts\<close>, \<open>HookAPI.ts\<close>), \<open>ReapCommand\<close> (\<open>commands/reap.ts\<close>), \<open>MountFromRepo\<close>
  (\<open>util/mountFromRepo.ts\<close>), \<open>ImportAPI\<close> (\<open>controllers/ImportAPI.ts\<close>, \<open>InternalAPI.ts\<close>), \<open>HttpServer\<close> (\<open>router.ts\<close>,
  \<open>server/errors.ts\<close>, the health check, the port).

  Together: \<open>StoreTrack\<close> (how rows evolve under any statement; locale \<open>tracked_store\<close>, an \<open>image_store\<close> that also keeps the column
  types), \<open>StoreSystem\<close> (the step relation of both services' transactions and any number of reapers, each cut at its awaits),
  \<open>StoreSafety\<close> (its invariant), \<open>StoreRuns\<close> (its reapers end; the handlers as modelled above are runs of it), \<open>Authority\<close> (which pushes
  the rows stand for, an instance of the locale \<open>webhook_invariant\<close> of \<open>HookEvents\<close>), \<open>Platform\<close> (both services, the registry and their clients as one
  system), \<open>RegistryAuth\<close> (the services at a registry that asks for tokens, and what a wrapped credential may push),
  \<open>Ownership\<close> (whose a repository is after a token request),
  \<open>Listing\<close> (what the listing may show, over runs of \<open>Platform\<close>). \<open>Conformance\<close> evaluates the definitions on the repository's own
  unit tests.

  Web (\<open>web/src\<close>): \<open>Toast\<close> (\<open>hooks/use-toast.ts\<close>), \<open>MobileHook\<close> (\<open>hooks/use-mobile.ts\<close>), \<open>Sidebar\<close> (\<open>components/ui/sidebar.tsx\<close>),
  \<open>WebComponents\<close> (charts, forms, carousel, slider), \<open>WebPage\<close> (the page's own commands, copy buttons, panels and menu).

  \<^bold>\<open>State.\<close> A definition has the name of its function in snake case; a TypeScript object type is a record, a union
  a datatype. Operations pass their state: \<open>world\<close> is the requests sent, the readings of the clocks and the metric calls;
  \<open>cached_world\<close> adds the proof cache, \<open>auth_world\<close> the token service's database, \<open>hook_world\<close> the webhook service's database and Redis. What the
  services do not control is a record of functions, \<open>services\<close> and its extensions: the network answers each request from the list of
  those before it, sessions and statements of Postgres fail or not by their number. An exception is \<open>None\<close> or a \<open>Inl\<close>.

  \<^bold>\<open>What is shown.\<close> Of the token service: cluster tokens are isolated from each other; a signed token grants only actions
  that were requested and permitted, to a validated user; wrapped credentials count only for repositories their upstream proved,
  also when requests interleave; the proof cache keeps its bounds, order and zeroing; a password goes only to its own registry's token endpoint; the pages of
  a listing, followed, are exactly the rows of the caller. Of the webhook service: whatever faults occur, the tables stay
  consistent and a push is recorded whole or not at all; the selection query computes its specification; no reap removes the newest
  kept tag of a repository or anything protected, and a row goes only after the registry confirmed; scheduled reaps do not
  overlap; an import writes a manifest last, over blobs in place, into the namespace of the cluster it names. Of all of it interleaved: the tables hold only what their columns
  can, no image is lost but by a reported deletion or a reap that was due and confirmed, none of a protected namespace by a reap, and
  every reap ends. Of the whole: every image in the tables traces back to a token request for push whose credential was accepted
  (with a cluster's token only into that cluster's namespace, and the row then names the cluster), to an authorized import, or to the mirror;
  and the listing shows a user of the validation service only images of repositories that user asked a token for. The flaws the
  model showed are theorems too (\<open>reap_deletes_shared_manifest\<close>,
  \<open>reap_removes_fresh_push\<close>, \<open>upkeep_needs_a_token\<close>, \<open>ownership_follows_request\<close>, \<open>wrapped_credential_may_push\<close>,
  \<open>unordered_pages_can_skip\<close>, \<open>unset_hook_token_is_a_token\<close>, \<open>copy_mark_lost_early\<close>,
  \<open>form_guard_never_throws\<close>, \<open>carousel_listeners_leak\<close>, \<open>toggles_between_renders\<close>).

  \<^bold>\<open>Bounds and fuel.\<close> The JSON parser has fuel twice the length of its text plus two, which \<open>json_roundtrip\<close> shows to be enough for all
  the printer writes. Following the pages of a listing (\<open>walk_pages\<close>, of the client, not of the code) has as fuel a number of pages, and
  one more than the rows suffices. A reaper makes at most 2001 moves: four for each of at most 500 rows, and the last.
  Every other recursion is structural or decreases a number. Words are 32 bits where the code uses bit operators
  (the key id, the constant-time comparison).

  \<^bold>\<open>Not modelled.\<close> Express, ts-express-decorators, yargs and the cron library (their calls into the code are the model's
  entry points); axios, pg, ioredis, prom-client and jsonwebtoken beyond the interfaces above; Node's cryptography, a
  parameter; console output but the token service's startup lines; signals. The handlers run to their end
  one after another in their own theories; \<open>StoreSystem\<close> interleaves what they do to the database, a transaction being one step, since the rows
  it touched stay locked until it commits. Of the registry \<open>Platform\<close> assumes what its documentation says: it takes a push only with a token of the
  service that names the repository with \<open>push\<close>, and its notifications bear the webhook's token. Of the web page React itself, markup, styling and prose, and the components that only pass
  properties on (\<open>components/ui/use-toast.ts\<close> and \<open>use-mobile.tsx\<close> are copies of modelled files).
  The mirror service, the Helm charts, scripts and SQL files are in other languages.
\<close>

end
